(* ===== verification/Hvac_Prelude.thy ===== *)
theory Hvac_Prelude
  imports Main "HOL-Library.Word"
begin

text \<open>
  Shared vocabulary of the development: the machine integers of the C and C++ sources as
  words, the ways a call can fail to return, sequencing of calls that may fail, the
  operations of \<open>std::map\<close> the code uses (with the inserting \<open>operator[]\<close>), memory
  buffers, and the facts about integer conversions that every component needs.
\<close>

section \<open>Collections of facts\<close>

named_theorems hvac_result \<open>rewrite rules for calls that may not return\<close>
named_theorems hvac_map \<open>rewrite rules for the std::map operations\<close>
named_theorems hvac_conv \<open>rewrite rules for integer conversions\<close>

section \<open>Machine integers\<close>

type_synonym cint = "32 word"  \<comment> \<open>\<open>int\<close>, \<open>uint32_t\<close>, \<open>int32_t\<close>\<close>
type_synonym i64 = "64 word"   \<comment> \<open>\<open>size_t\<close>, \<open>ssize_t\<close>, \<open>off_t\<close>, \<open>int64_t\<close>, \<open>hg_size_t\<close>\<close>
type_synonym byte = "8 word"
type_synonym path = string

text \<open>
  Conversions of the C sources: \<open>to_int\<close> is the narrowing to a 32-bit integer (the low
  32 bits), \<open>to_i64\<close> the sign-extending widening of an \<open>int\<close> or \<open>int32_t\<close>.
\<close>

definition to_int :: "i64 \<Rightarrow> cint" where
  "to_int x = ucast x"

definition to_i64 :: "cint \<Rightarrow> i64" where
  "to_i64 x = scast x"

lemma sint_to_i64 [simp, hvac_conv]: "sint (to_i64 x) = sint x"
  unfolding to_i64_def by (rule sint_up_scast) (simp add: is_up)

lemma sint_to_int:
  assumes "- (2 ^ 31) \<le> sint x" and "sint x < 2 ^ 31"
  shows "sint (to_int x) = sint x"
proof -
  have "sint (to_int x) = signed_take_bit 31 (sint x)"
    by (simp add: to_int_def sint_uint unsigned_ucast_eq signed_take_bit_take_bit
        unsigned_take_bit_eq)
  also have "\<dots> = sint x"
    using assms by (intro signed_take_bit_int_eq_self) simp_all
  finally show ?thesis .
qed

lemma sint_eq_imp: "sint x = sint y \<Longrightarrow> x = y" for x y :: "'a::len word"
  by (rule signed_word_eqI [where ?'a = int]) simp

lemma to_i64_to_int:
  assumes "- (2 ^ 31) \<le> sint x" and "sint x < 2 ^ 31"
  shows "to_i64 (to_int x) = x"
  by (rule sint_eq_imp) (simp add: sint_to_int [OF assms])

lemma to_int_to_i64 [simp, hvac_conv]: "to_int (to_i64 x) = x"
  by (rule sint_eq_imp)
    (use sint_lt [of x] sint_ge [of x] in \<open>simp add: sint_to_int\<close>)

lemma sint_of_nat_i64: "n < 2 ^ 63 \<Longrightarrow> sint (of_nat n :: i64) = int n"
  by (simp add: sint_uint unsigned_of_nat take_bit_nat_eq_self
      signed_take_bit_int_eq_self take_bit_int_eq_self)

lemma unat_of_nat_i64: "n < 2 ^ 64 \<Longrightarrow> unat (of_nat n :: i64) = n"
  by (simp add: unsigned_of_nat take_bit_nat_eq_self)

text \<open>A byte count below \<open>2 ^ 31\<close> survives the 32-bit fields of the RPC structures.\<close>

lemma to_i64_to_int_of_nat: "n < 2 ^ 31 \<Longrightarrow> to_i64 (to_int (of_nat n)) = of_nat n"
  by (rule to_i64_to_int) (simp_all add: sint_of_nat_i64)

lemma to_int_of_nat: "n < 2 ^ 31 \<Longrightarrow> to_int (of_nat n) = of_nat n"
  by (simp add: to_int_def unsigned_of_nat take_bit_nat_eq_self)

lemma of_nat_neq_minus_one: "n < 2 ^ 31 \<Longrightarrow> (of_nat n :: i64) \<noteq> -1"
proof
  assume "n < 2 ^ 31" and "(of_nat n :: i64) = -1"
  then have "sint (of_nat n :: i64) = -1" by simp
  with \<open>n < 2 ^ 31\<close> show False by (simp add: sint_of_nat_i64)
qed

lemma unat_nonneg: "0 \<le> sint x \<Longrightarrow> unat x = nat (sint x)" for x :: i64
proof -
  assume nonneg: "0 \<le> sint x"
  have "x = of_int (sint x)" by simp
  also have "\<dots> = of_nat (nat (sint x))" using nonneg by (metis nat_0_le of_int_of_nat_eq)
  finally have "unat x = unat (of_nat (nat (sint x)) :: i64)" by (rule arg_cong)
  then show ?thesis using sint_lt [of x] by (simp add: unat_of_nat_i64 nat_less_iff)
qed

section \<open>Calls that do not return\<close>

text \<open>
  A call of the modelled code returns a value (\<open>Inr\<close>), or the process stops inside it:
  it calls \<open>exit\<close>, an \<open>assert\<close> fails (the sources are built without \<open>NDEBUG\<close>), it does
  something the language leaves undefined (a division by zero, the use of an uninitialised
  address, a null pointer), or it waits on a condition that nobody will signal.
\<close>

datatype halt =
    Exit_process cint
  | Assert_failed
  | Undefined_behaviour
  | Blocked_forever

type_synonym 'a outcome = "halt + 'a"

definition and_then :: "'a outcome \<Rightarrow> ('a \<Rightarrow> 'b outcome) \<Rightarrow> 'b outcome" where
  "and_then r f = (case r of Inl h \<Rightarrow> Inl h | Inr x \<Rightarrow> f x)"

lemma and_then_simps [simp, hvac_result]:
  "and_then (Inl h) f = Inl h"
  "and_then (Inr x) f = f x"
  by (simp_all add: and_then_def)

lemma and_then_eq_Inr [hvac_result]:
  "and_then r f = Inr y \<longleftrightarrow> (\<exists>x. r = Inr x \<and> f x = Inr y)"
  by (cases r) simp_all

lemma and_then_assoc: "and_then (and_then r f) g = and_then r (\<lambda>x. and_then (f x) g)"
  by (cases r) simp_all

text \<open>\<open>assert(b)\<close> before the rest of the call.\<close>

definition assert_that :: "bool \<Rightarrow> 'a outcome \<Rightarrow> 'a outcome" where
  "assert_that b r = (if b then r else Inl Assert_failed)"

lemma assert_that_simps [simp, hvac_result]:
  "assert_that True r = r"
  "assert_that False r = Inl Assert_failed"
  by (simp_all add: assert_that_def)

lemma assert_that_eq_Inr [hvac_result]: "assert_that b r = Inr y \<longleftrightarrow> b \<and> r = Inr y"
  by (simp add: assert_that_def)

lemma halt_if_eq_Inr [hvac_result]: "(if b then Inl h else r) = Inr y \<longleftrightarrow> \<not> b \<and> r = Inr y"
  by simp

section \<open>The operations of std::map\<close>

text \<open>
  \<open>m[k]\<close> read as a value: a missing key is first inserted with the default value of the
  mapped type (\<open>0\<close> for \<open>int\<close>, the empty string for \<open>std::string\<close>).
\<close>

definition map_index :: "'v \<Rightarrow> ('k \<rightharpoonup> 'v) \<Rightarrow> 'k \<Rightarrow> 'v \<times> ('k \<rightharpoonup> 'v)" where
  "map_index d m k = (case m k of Some v \<Rightarrow> (v, m) | None \<Rightarrow> (d, m(k \<mapsto> d)))"

text \<open>\<open>m.erase(k)\<close>, and \<open>m.find(k) != m.end()\<close>.\<close>

definition map_erase :: "'k \<Rightarrow> ('k \<rightharpoonup> 'v) \<Rightarrow> ('k \<rightharpoonup> 'v)" where
  "map_erase k m = m(k := None)"

definition map_has :: "('k \<rightharpoonup> 'v) \<Rightarrow> 'k \<Rightarrow> bool" where
  "map_has m k \<longleftrightarrow> m k \<noteq> None"

lemma map_index_Some [simp, hvac_map]: "m k = Some v \<Longrightarrow> map_index d m k = (v, m)"
  by (simp add: map_index_def)

lemma map_index_None [simp, hvac_map]: "m k = None \<Longrightarrow> map_index d m k = (d, m(k \<mapsto> d))"
  by (simp add: map_index_def)

lemma fst_map_index: "fst (map_index d m k) = (case m k of Some v \<Rightarrow> v | None \<Rightarrow> d)"
  by (simp add: map_index_def split: option.split)

lemma snd_map_index_eq:
  "snd (map_index d m k) k' = (if k' = k \<and> m k = None then Some d else m k')"
  by (simp add: map_index_def split: option.split)

lemma map_index_then_erase: "map_erase k (snd (map_index d m k)) = map_erase k m"
  by (auto simp: map_index_def map_erase_def split: option.split)

section \<open>Memory buffers\<close>

text \<open>
  Writing the bytes \<open>src\<close> at the start of a buffer. A pointer argument is \<open>None\<close> when
  it is null.
\<close>

type_synonym buffer = "byte list option"

definition overlay :: "'a list \<Rightarrow> 'a list \<Rightarrow> 'a list" where
  "overlay src buf = src @ drop (length src) buf"

lemma length_overlay: "length src \<le> length buf \<Longrightarrow> length (overlay src buf) = length buf"
  by (simp add: overlay_def)

lemma take_overlay: "take (length src) (overlay src buf) = src"
  by (simp add: overlay_def)

lemma overlay_Nil [simp]: "overlay [] buf = buf"
  by (simp add: overlay_def)

section \<open>Reading a list piece by piece\<close>

lemma drop_length_take: "drop (length (take n xs)) xs = drop n xs"
  by (cases "n \<le> length xs") simp_all

lemma drop_after_take: "drop (p + length (take n (drop p b))) b = drop n (drop p b)"
  by (metis add.commute drop_drop drop_length_take)

lemma take_then_take:
  "take n (drop p b) @ take m (drop (p + length (take n (drop p b))) b) = take (n + m) (drop p b)"
  by (simp only: drop_after_take take_add)

lemma take_then_drop:
  "take n (drop p b) @ drop (p + length (take n (drop p b))) b = drop p b"
  by (simp only: drop_after_take append_take_drop_id)

section \<open>Reachable states\<close>

inductive reach :: "('s \<Rightarrow> bool) \<Rightarrow> ('s \<Rightarrow> 's \<Rightarrow> bool) \<Rightarrow> 's \<Rightarrow> bool"
  for start :: "'s \<Rightarrow> bool" and step :: "'s \<Rightarrow> 's \<Rightarrow> bool" where
  reach_start: "start s \<Longrightarrow> reach start step s"
| reach_step: "reach start step s \<Longrightarrow> step s t \<Longrightarrow> reach start step t"

text \<open>A predicate that holds initially and that every step keeps holds in every reachable state.\<close>

locale inductive_invariant =
  fixes start :: "'s \<Rightarrow> bool" and step :: "'s \<Rightarrow> 's \<Rightarrow> bool" and inv :: "'s \<Rightarrow> bool"
  assumes inv_start: "start s \<Longrightarrow> inv s"
    and inv_step: "inv s \<Longrightarrow> step s t \<Longrightarrow> inv t"
begin

lemma reach_inv: "reach start step s \<Longrightarrow> inv s"
  by (induction rule: reach.induct) (auto intro: inv_start inv_step)

lemma steps_inv: "step\<^sup>*\<^sup>* s t \<Longrightarrow> inv s \<Longrightarrow> inv t"
  by (induction rule: rtranclp_induct) (auto intro: inv_step)

end

end
