(* ===== verification/C_Strings.thy ===== *)
theory C_Strings
  imports Hvac_Prelude
begin

text \<open>
  The string functions of the C and C++ libraries the code uses: \<open>isspace\<close>, \<open>strtol\<close> as
  \<open>atoi\<close> and \<open>fscanf\<close> use it, \<open>printf\<close> of a decimal integer, \<open>strstr\<close> and
  \<open>std::string::find\<close>, and the lexical operations of \<open>std::filesystem::path\<close>. The facts
  at the end of each section are the ones the components rely on.
\<close>

section \<open>Characters\<close>

definition is_space :: "char \<Rightarrow> bool" where
  "is_space c \<longleftrightarrow> c = CHR '' '' \<or> 9 \<le> (of_char c :: nat) \<and> (of_char c :: nat) \<le> 13"

definition is_digit :: "char \<Rightarrow> bool" where
  "is_digit c \<longleftrightarrow> 48 \<le> (of_char c :: nat) \<and> (of_char c :: nat) \<le> 57"

definition digit_value :: "char \<Rightarrow> nat" where
  "digit_value c = of_char c - 48"

definition digit_char :: "nat \<Rightarrow> char" where
  "digit_char n = char_of (48 + n)"

definition newline :: char where
  "newline = CHR 0x0A"

lemma of_char_digit_char: "n < 10 \<Longrightarrow> (of_char (digit_char n) :: nat) = 48 + n"
  by (simp add: digit_char_def)

lemma is_digit_digit_char [simp]: "n < 10 \<Longrightarrow> is_digit (digit_char n)"
  by (simp add: is_digit_def of_char_digit_char)

lemma digit_value_digit_char [simp]: "n < 10 \<Longrightarrow> digit_value (digit_char n) = n"
  by (simp add: digit_value_def of_char_digit_char)

lemma digit_not_space: "is_digit c \<Longrightarrow> \<not> is_space c"
  by (auto simp: is_digit_def is_space_def)

lemma digit_not_sign: "is_digit c \<Longrightarrow> c \<noteq> CHR ''-'' \<and> c \<noteq> CHR ''+''"
  by (auto simp: is_digit_def)

lemma space_space [simp]: "is_space CHR '' ''"
  by (simp add: is_space_def)

lemma space_newline [simp]: "is_space newline"
  by (simp add: is_space_def newline_def)

lemma space_not_digit [simp]: "\<not> is_digit CHR '' ''"
  by (simp add: is_digit_def)

section \<open>Printing a decimal integer\<close>

fun dec_nat :: "nat \<Rightarrow> string" where
  "dec_nat n = (if n < 10 then [digit_char n]
     else dec_nat (n div 10) @ [digit_char (n mod 10)])"

declare dec_nat.simps [simp del]

definition dec_int :: "int \<Rightarrow> string" where
  "dec_int i = (if i < 0 then CHR ''-'' # dec_nat (nat (- i)) else dec_nat (nat i))"

lemma dec_nat_not_Nil [simp]: "dec_nat n \<noteq> []"
  by (subst dec_nat.simps) simp

lemma dec_nat_digits: "c \<in> set (dec_nat n) \<Longrightarrow> is_digit c"
proof (induction n rule: dec_nat.induct)
  case (1 n)
  then show ?case
    by (auto simp: dec_nat.simps [of n] split: if_splits)
qed

lemma dec_nat_length_le: "0 < k \<Longrightarrow> n < 10 ^ k \<Longrightarrow> length (dec_nat n) \<le> k"
proof (induction n arbitrary: k rule: dec_nat.induct)
  case (1 n)
  show ?case
  proof (cases "n < 10")
    case True
    with 1 show ?thesis by (simp add: dec_nat.simps [of n])
  next
    case False
    with 1 have "1 < k" by (cases k; cases "k - 1") auto
    with 1 False have "n div 10 < 10 ^ (k - 1)"
      by (cases k) (auto simp: less_mult_imp_div_less mult.commute)
    with 1(1) [OF False, of "k - 1"] \<open>1 < k\<close> False show ?thesis
      by (simp add: dec_nat.simps [of n])
  qed
qed

lemma dec_nat_length_ge: "10 ^ k \<le> n \<Longrightarrow> k < length (dec_nat n)"
proof (induction n arbitrary: k rule: dec_nat.induct)
  case (1 n)
  show ?case
  proof (cases k)
    case (Suc j)
    with 1 have le: "10 * 10 ^ j \<le> n" by simp
    moreover have "(10::nat) \<le> 10 * 10 ^ j" by simp
    ultimately have "\<not> n < 10" by linarith
    moreover from le have "10 ^ j \<le> n div 10"
      by (simp add: less_eq_div_iff_mult_less_eq mult.commute)
    ultimately have "\<not> n < 10" and "10 ^ j \<le> n div 10" by simp_all
    with 1(1) [of j] Suc show ?thesis
      by (simp add: dec_nat.simps [of n])
  qed simp
qed

section \<open>Reading integers and words\<close>

definition skip_ws :: "string \<Rightarrow> string" where
  "skip_ws s = dropWhile is_space s"

fun scan_digits :: "nat \<Rightarrow> string \<Rightarrow> nat \<times> string" where
  "scan_digits n [] = (n, [])"
| "scan_digits n (c # cs) =
     (if is_digit c then scan_digits (10 * n + digit_value c) cs else (n, c # cs))"

text \<open>At least one digit, as \<open>strtol\<close> and the \<open>%d\<close> conversion require.\<close>

definition scan_nat :: "string \<Rightarrow> (nat \<times> string) option" where
  "scan_nat s = (case s of [] \<Rightarrow> None
     | c # _ \<Rightarrow> if is_digit c then Some (scan_digits 0 s) else None)"

definition scan_int :: "string \<Rightarrow> (int \<times> string) option" where
  "scan_int s = (case skip_ws s of
       [] \<Rightarrow> None
     | c # cs \<Rightarrow>
         if c = CHR ''-'' then map_option (\<lambda>(n, r). (- int n, r)) (scan_nat cs)
         else if c = CHR ''+'' then map_option (\<lambda>(n, r). (int n, r)) (scan_nat cs)
         else map_option (\<lambda>(n, r). (int n, r)) (scan_nat (c # cs)))"

text \<open>\<open>strtol\<close> saturates at the bounds of \<open>long\<close>; the result is then cut to an \<open>int\<close>.\<close>

definition clamp_long :: "int \<Rightarrow> int" where
  "clamp_long i = max (- (2 ^ 63)) (min (2 ^ 63 - 1) i)"

definition atoi :: "string \<Rightarrow> cint" where
  "atoi s = (case scan_int s of None \<Rightarrow> 0 | Some (i, _) \<Rightarrow> word_of_int (clamp_long i))"

text \<open>The \<open>%s\<close> conversion: blanks are skipped, then a non-empty run of non-blanks.\<close>

definition scan_word :: "string \<Rightarrow> (string \<times> string) option" where
  "scan_word s = (let t = skip_ws s; w = takeWhile (\<lambda>c. \<not> is_space c) t
     in if w = [] then None else Some (w, dropWhile (\<lambda>c. \<not> is_space c) t))"

lemma skip_ws_idem [simp]: "skip_ws (skip_ws s) = skip_ws s"
  by (induction s) (simp_all add: skip_ws_def)

lemma skip_ws_Cons: "skip_ws (c # s) = (if is_space c then skip_ws s else c # s)"
  by (simp add: skip_ws_def)

lemma length_skip_ws: "length (skip_ws s) \<le> length s"
  by (simp add: skip_ws_def length_dropWhile_le)

lemma scan_int_skip_ws [simp]: "scan_int (skip_ws s) = scan_int s"
  by (simp add: scan_int_def)

lemma scan_digits_append:
  assumes "\<And>c. c \<in> set ds \<Longrightarrow> is_digit c"
  shows "scan_digits n (ds @ r) =
    scan_digits (foldl (\<lambda>a c. 10 * a + digit_value c) n ds) r"
  using assms by (induction ds arbitrary: n) simp_all

lemma foldl_dec_nat: "foldl (\<lambda>a c. 10 * a + digit_value c) 0 (dec_nat n) = n"
proof (induction n rule: dec_nat.induct)
  case (1 n)
  then show ?case
    by (cases "n < 10") (simp_all add: dec_nat.simps [of n])
qed

lemma scan_digits_stop:
  "r = [] \<or> \<not> is_digit (hd r) \<Longrightarrow> scan_digits n r = (n, r)"
  by (cases r) auto

lemma scan_nat_dec_nat:
  assumes "r = [] \<or> \<not> is_digit (hd r)"
  shows "scan_nat (dec_nat n @ r) = Some (n, r)"
proof -
  obtain c cs where c: "dec_nat n = c # cs" by (cases "dec_nat n") auto
  then have "is_digit c" using dec_nat_digits [of c n] by simp
  moreover have "scan_digits 0 (dec_nat n @ r) = (n, r)"
    using assms by (simp add: scan_digits_append dec_nat_digits foldl_dec_nat scan_digits_stop)
  ultimately show ?thesis using c by (simp add: scan_nat_def)
qed

text \<open>Reading back a printed integer, whatever its sign.\<close>

lemma scan_int_dec_int:
  assumes "r = [] \<or> \<not> is_digit (hd r)"
  shows "scan_int (dec_int i @ r) = Some (i, r)"
proof (cases "i < 0")
  case True
  moreover have "\<not> is_space CHR ''-''" by (simp add: is_space_def)
  ultimately show ?thesis using scan_nat_dec_nat [OF assms, of "nat (- i)"]
    by (simp add: scan_int_def dec_int_def skip_ws_def)
next
  case False
  obtain c cs where c: "dec_nat (nat i) = c # cs" by (cases "dec_nat (nat i)") auto
  then have d: "is_digit c" using dec_nat_digits [of c "nat i"] by simp
  have "scan_nat (c # cs @ r) = Some (nat i, r)"
    using scan_nat_dec_nat [OF assms, of "nat i"] c by simp
  with False c d show ?thesis
    by (simp add: scan_int_def dec_int_def skip_ws_def digit_not_space digit_not_sign)
qed

lemma clamp_long_id: "- (2 ^ 63) \<le> i \<Longrightarrow> i < 2 ^ 63 \<Longrightarrow> clamp_long i = i"
  by (simp add: clamp_long_def)

lemma word_clamp_sint [simp]: "word_of_int (clamp_long (sint x)) = (x :: cint)"
  using sint_lt [of x] sint_ge [of x] by (simp add: clamp_long_id)

lemma scan_nat_no_digit: "\<forall>c \<in> set s. \<not> is_digit c \<Longrightarrow> scan_nat s = None"
  by (simp add: scan_nat_def split: list.split)

lemma atoi_no_digit:
  assumes "\<forall>c \<in> set s. \<not> is_digit c"
  shows "atoi s = 0"
proof (cases "skip_ws s")
  case (Cons c cs)
  have "set (skip_ws s) \<subseteq> set s" unfolding skip_ws_def by (rule set_dropWhileD [THEN subsetI])
  with assms Cons have "\<forall>x \<in> set (c # cs). \<not> is_digit x" by auto
  then show ?thesis by (simp add: atoi_def scan_int_def Cons scan_nat_no_digit)
qed (simp add: atoi_def scan_int_def)

lemma atoi_dec_int: "atoi (dec_int (sint x)) = x"
  using scan_int_dec_int [of "[]" "sint x"] by (simp add: atoi_def)

lemma scan_word_append:
  assumes "w \<noteq> []" and "\<And>c. c \<in> set w \<Longrightarrow> \<not> is_space c" and "is_space b"
  shows "scan_word (w @ b # r) = Some (w, b # r)"
proof -
  have "skip_ws (w @ b # r) = w @ b # r"
    using assms(1,2) by (cases w) (auto simp: skip_ws_def)
  then show ?thesis
    using assms by (simp add: scan_word_def takeWhile_append2 dropWhile_append2)
qed

lemma scan_word_space: "is_space b \<Longrightarrow> scan_word (b # s) = scan_word s"
  by (simp add: scan_word_def skip_ws_Cons)

lemma length_scan_digits: "length (snd (scan_digits n s)) \<le> length s"
  by (induction n s rule: scan_digits.induct) auto

lemma length_scan_nat: "scan_nat s = Some (n, r) \<Longrightarrow> length r < length s"
proof (cases s)
  case (Cons c cs)
  assume "scan_nat s = Some (n, r)"
  with Cons have "is_digit c" and "r = snd (scan_digits (digit_value c) cs)"
    by (auto simp: scan_nat_def split: if_splits)
  with Cons length_scan_digits [of "digit_value c" cs] show ?thesis by simp
qed (simp add: scan_nat_def)

lemma length_scan_int: "scan_int s = Some (i, r) \<Longrightarrow> length r < length s"
  using length_skip_ws [of s]
  by (fastforce simp: scan_int_def split: list.splits if_splits dest: length_scan_nat)

lemma length_scan_word: "scan_word s = Some (w, r) \<Longrightarrow> length r \<le> length s"
  using length_skip_ws [of s] length_dropWhile_le [of "\<lambda>c. \<not> is_space c" "skip_ws s"]
  by (auto simp: scan_word_def Let_def split: if_splits)

section \<open>Substrings\<close>

text \<open>
  \<open>strstr(s, pat) != NULL\<close> and \<open>s.find(pat) != std::string::npos\<close>: the pattern occurs
  somewhere in the string.
\<close>

fun str_contains :: "string \<Rightarrow> string \<Rightarrow> bool" where
  "str_contains s pat = (take (length pat) s = pat \<or>
     (case s of [] \<Rightarrow> False | _ # t \<Rightarrow> str_contains t pat))"

declare str_contains.simps [simp del]

lemma str_contains_append: "str_contains (a @ pat @ b) pat"
proof (induction a)
  case Nil
  show ?case by (subst str_contains.simps) simp
next
  case (Cons c a)
  then show ?case by (subst str_contains.simps) simp
qed

lemma str_contains_iff: "str_contains s pat \<longleftrightarrow> (\<exists>a b. s = a @ pat @ b)"
proof
  show "str_contains s pat \<Longrightarrow> \<exists>a b. s = a @ pat @ b"
  proof (induction s)
    case Nil
    then show ?case by (simp add: str_contains.simps [of "[]"])
  next
    case (Cons c s)
    then consider "take (length pat) (c # s) = pat" | "str_contains s pat"
      by (auto simp: str_contains.simps [of "c # s"])
    then show ?case
    proof cases
      case 1
      then have "c # s = [] @ pat @ drop (length pat) (c # s)"
        using append_take_drop_id [of "length pat" "c # s"] by simp
      then show ?thesis by blast
    next
      case 2
      with Cons.IH obtain a b where "s = a @ pat @ b" by blast
      then have "c # s = (c # a) @ pat @ b" by simp
      then show ?thesis by blast
    qed
  qed
qed (auto simp: str_contains_append)

section \<open>Paths\<close>

text \<open>
  \<open>path::parent_path()\<close> and \<open>path::filename()\<close> of \<open>std::filesystem\<close>, on POSIX path
  names.
\<close>

definition parent_path :: "path \<Rightarrow> path" where
  "parent_path p = (if p = ''/'' then p
     else let d = dropWhile (\<lambda>c. c \<noteq> CHR ''/'') (rev p);
              e = dropWhile (\<lambda>c. c = CHR ''/'') d
          in if e = [] then (if d = [] then [] else ''/'') else rev e)"

definition filename :: "path \<Rightarrow> string" where
  "filename p = rev (takeWhile (\<lambda>c. c \<noteq> CHR ''/'') (rev p))"

lemma filename_join: "CHR ''/'' \<notin> set f \<Longrightarrow> filename (d @ ''/'' @ f) = f"
proof -
  assume "CHR ''/'' \<notin> set f"
  then have "takeWhile (\<lambda>c. c \<noteq> CHR ''/'') (rev f @ CHR ''/'' # rev d)
      = rev f @ takeWhile (\<lambda>c. c \<noteq> CHR ''/'') (CHR ''/'' # rev d)"
    by (intro takeWhile_append2) auto
  then show ?thesis unfolding filename_def by simp
qed

lemma parent_path_join:
  assumes "CHR ''/'' \<notin> set f" and "f \<noteq> []" and "d \<noteq> []" and "last d \<noteq> CHR ''/''"
  shows "parent_path (d @ ''/'' @ f) = d"
proof -
  have "rev (d @ ''/'' @ f) = rev f @ CHR ''/'' # rev d" by simp
  moreover have "dropWhile (\<lambda>c. c \<noteq> CHR ''/'') (rev f @ CHR ''/'' # rev d)
      = CHR ''/'' # rev d"
    using assms(1) by (subst dropWhile_append2) auto
  ultimately have "dropWhile (\<lambda>c. c \<noteq> CHR ''/'') (rev (d @ ''/'' @ f)) = CHR ''/'' # rev d"
    by (simp only:)
  moreover have "dropWhile (\<lambda>c. c = CHR ''/'') (CHR ''/'' # rev d) = rev d"
    using assms(3,4) by (cases d rule: rev_cases) simp_all
  moreover have "d @ ''/'' @ f \<noteq> ''/''" using assms(3) by (cases d) auto
  moreover have "rev d \<noteq> []" using assms(3) by simp
  ultimately show ?thesis unfolding parent_path_def Let_def
    by (simp only: if_False rev_rev_ident)
qed

end
