(* ===== verification/Comm.thy ===== *)
theory Comm
  imports C_Strings
begin

text \<open>
  The part of \<open>src/hvac_comm.cpp\<close> and \<open>src/hvac_comm.h\<close> that client and server share: the
  RPC structures, the Mercury class and context, start and shutdown, the progress thread,
  the registration of the four RPCs, and the file through which servers publish their
  addresses. Mercury's own answers are the parameters collected in \<open>hg_env\<close>.
\<close>

section \<open>The RPC structures (hvac_comm.h)\<close>

record hvac_open_in_t = in_path :: path
record hvac_open_out_t = ret_status :: cint
record hvac_rpc_out_t = rpc_ret :: cint
record hvac_rpc_in_t =
  input_val :: cint
  bulk_handle :: i64      \<comment> \<open>the size of the memory the client registered\<close>
  accessfd :: cint
  in_offset :: i64
record hvac_seek_out_t = seek_ret :: cint
record hvac_seek_in_t =
  seek_fd :: cint
  seek_offset :: cint
  seek_whence :: cint
record hvac_close_in_t = close_fd :: cint

text \<open>What travels to a server, and which handler an identifier is registered for.\<close>

datatype rpc_in =
    Open_in hvac_open_in_t
  | Read_in hvac_rpc_in_t
  | Seek_in hvac_seek_in_t
  | Close_in hvac_close_in_t

datatype rpc_kind = K_read | K_open | K_close | K_seek

fun kind_of :: "rpc_in \<Rightarrow> rpc_kind" where
  "kind_of (Open_in _) = K_open"
| "kind_of (Read_in _) = K_read"
| "kind_of (Seek_in _) = K_seek"
| "kind_of (Close_in _) = K_close"

section \<open>State of hvac_comm.cpp\<close>

record comm =
  hg_class :: bool               \<comment> \<open>non-null\<close>
  hg_context :: bool             \<comment> \<open>non-null\<close>
  shutdown_flags :: bool         \<comment> \<open>\<open>hvac_progress_thread_shutdown_flags\<close>\<close>
  hvac_server_rank :: cint
  server_rank :: cint
  progress_threads :: nat
  registry :: "i64 \<rightharpoonup> rpc_kind"
  no_response :: "i64 list"

definition comm_start :: comm where
  "comm_start = \<lparr>hg_class = False, hg_context = False, shutdown_flags = False,
     hvac_server_rank = -1, server_rank = -1, progress_threads = 0, registry = (\<lambda>_. None),
     no_response = []\<rparr>"

record hg_env =
  hg_init :: "bool \<Rightarrow> bool"             \<comment> \<open>\<open>HG_Init(info, listen)\<close> is not NULL\<close>
  hg_context_create :: bool
  hg_thread_create :: bool
  hg_context_destroy :: bool            \<comment> \<open>returns \<open>HG_SUCCESS\<close>\<close>
  hg_finalize :: bool
  hg_register :: "string \<Rightarrow> i64"        \<comment> \<open>the identifier \<open>MERCURY_REGISTER\<close> gives a name\<close>
  hg_disable_response :: bool
  hg_self_addr :: string                \<comment> \<open>\<open>HG_Addr_to_string(HG_Addr_self())\<close>\<close>

section \<open>Start and shutdown\<close>

text \<open>
  \<open>hvac_init_comm\<close>. A failing \<open>HG_Init\<close> or \<open>HG_Context_create\<close> is only logged, and so is
  a failing \<open>pthread_create\<close>.
\<close>

definition hvac_init_comm ::
  "hg_env \<Rightarrow> (string \<Rightarrow> string option) \<Rightarrow> bool \<Rightarrow> 'a comm_scheme \<Rightarrow> 'a comm_scheme outcome" where
  "hvac_init_comm env getenv listen c = (case getenv ''PMI_RANK'' of
       None \<Rightarrow> Inl (Exit_process 1)
     | Some rank_str \<Rightarrow>
         let c1 = c\<lparr>server_rank := atoi rank_str\<rparr>;
             c2 = c1\<lparr>hg_class := hg_init env listen\<rparr>;
             c3 = c2\<lparr>hg_context := hg_class c2 \<and> hg_context_create env\<rparr>;
             c4 = (if listen then c3\<lparr>hvac_server_rank := atoi rank_str\<rparr> else c3)
         in Inr (if hg_thread_create env
                 then c4\<lparr>progress_threads := progress_threads c4 + 1\<rparr> else c4))"

definition hvac_shutdown_comm :: "hg_env \<Rightarrow> 'a comm_scheme \<Rightarrow> 'a comm_scheme outcome" where
  "hvac_shutdown_comm env c =
     (let c1 = c\<lparr>shutdown_flags := True\<rparr>
      in if \<not> hg_context c1 then Inr c1
         else assert_that (hg_context_destroy env) (assert_that (hg_finalize env) (Inr c1)))"

section \<open>The progress thread\<close>

text \<open>
  \<open>hvac_progress_fn\<close> as a machine: the flag is read anew in each test, \<open>HG_Trigger\<close> answers
  with a return code and a count. A call of Mercury has a beginning, which the step tells, and
  an end: the shutdown can come between a test and the call, and while a call lasts.
\<close>

datatype progress_pc =
    P_outer           \<comment> \<open>at the test of the outer loop\<close>
  | P_trigger         \<comment> \<open>about to call \<open>HG_Trigger\<close>\<close>
  | P_in_trigger
  | P_check           \<comment> \<open>at the test before \<open>HG_Progress\<close>\<close>
  | P_progress        \<comment> \<open>about to call \<open>HG_Progress\<close>\<close>
  | P_in_progress
  | P_return

datatype hg_call = Call_trigger | Call_progress

definition progress_step ::
  "bool \<Rightarrow> cint \<Rightarrow> cint \<Rightarrow> progress_pc \<Rightarrow> progress_pc \<times> hg_call option" where
  "progress_step shutdown trig_ret actual_count pc = (case pc of
       P_outer \<Rightarrow> (if shutdown then P_return else P_trigger, None)
     | P_trigger \<Rightarrow> (P_in_trigger, Some Call_trigger)
     | P_in_trigger \<Rightarrow>
         (if trig_ret = 0 \<and> actual_count \<noteq> 0 \<and> \<not> shutdown then P_trigger else P_check, None)
     | P_check \<Rightarrow> (if shutdown then P_outer else P_progress, None)
     | P_progress \<Rightarrow> (P_in_progress, Some Call_progress)
     | P_in_progress \<Rightarrow> (P_outer, None)
     | P_return \<Rightarrow> (P_return, None))"

text \<open>A run over a sequence of (flag, return code, count) observations.\<close>

fun progress_run ::
  "(bool \<times> cint \<times> cint) list \<Rightarrow> progress_pc \<Rightarrow> progress_pc \<times> hg_call list" where
  "progress_run [] pc = (pc, [])"
| "progress_run ((sd, r, n) # obs) pc =
     (case progress_step sd r n pc of (pc', call) \<Rightarrow>
       (case progress_run obs pc' of (pc'', calls) \<Rightarrow>
         (pc'', (case call of None \<Rightarrow> calls | Some c \<Rightarrow> c # calls))))"

section \<open>Publishing the address\<close>

text \<open>
  \<open>./.ports.cfg.<jobid>\<close>, the line a server appends (\<open>hvac_comm_list_addr\<close>), and the scan
  for a rank's line that \<open>hvac_client_comm_lookup_addr\<close> does with \<open>fscanf\<close>. Printing a null
  job id with \<open>%s\<close> is undefined. The names and addresses go to buffers of \<open>PATH_MAX\<close> bytes, with
  their final zero.
\<close>

definition PATH_MAX :: nat where
  "PATH_MAX = 4096"

definition ports_cfg_name :: "string \<Rightarrow> path" where
  "ports_cfg_name jobid = ''./.ports.cfg.'' @ jobid"

definition ports_name_fits :: "string \<Rightarrow> bool" where
  "ports_name_fits jobid \<longleftrightarrow> length (ports_cfg_name jobid) < PATH_MAX"

definition ports_line :: "cint \<Rightarrow> string \<Rightarrow> string" where
  "ports_line rank addr = dec_int (sint rank) @ '' '' @ addr @ [newline]"

text \<open>
  \<open>sprintf\<close> does not look at the size of its buffer; \<open>HG_Addr_to_string\<close> does, and leaves it as
  it was when the address does not fit, which nobody notices.
\<close>

definition hvac_comm_list_addr ::
  "hg_env \<Rightarrow> (string \<Rightarrow> string option) \<Rightarrow> bool \<Rightarrow> 'a comm_scheme \<Rightarrow> (path \<Rightarrow> string)
    \<Rightarrow> (path \<Rightarrow> string) outcome" where
  "hvac_comm_list_addr env getenv can_open c cfg = (case getenv ''SLURM_JOBID'' of
       None \<Rightarrow> Inl Undefined_behaviour
     | Some jobid \<Rightarrow>
         let fname = ports_cfg_name jobid
         in if \<not> ports_name_fits jobid \<or> PATH_MAX \<le> length (hg_self_addr env) then Inl Undefined_behaviour
            else if \<not> can_open then Inl (Exit_process 0)
            else Inr (cfg(fname := cfg fname @ ports_line (hvac_server_rank c) (hg_self_addr env))))"

text \<open>\<open>fscanf(na_config, "%d %s\n", &svr_rank, svr_str) == 2\<close>\<close>

definition scan_ports_entry :: "string \<Rightarrow> (cint \<times> string \<times> string) option" where
  "scan_ports_entry s = (case scan_int s of
       None \<Rightarrow> None
     | Some (i, r) \<Rightarrow> (case scan_word r of
           None \<Rightarrow> None
         | Some (w, r') \<Rightarrow> Some (word_of_int (clamp_long i), w, skip_ws r')))"

lemma length_scan_ports_entry: "scan_ports_entry s = Some (k, w, r) \<Longrightarrow> length r < length s"
  using length_skip_ws
  by (fastforce simp: scan_ports_entry_def split: option.splits
      dest: length_scan_int length_scan_word intro: le_less_trans)

text \<open>
  The loop of the client. \<open>None\<close>: no line has the rank, so that the address returned is
  uninitialised, or a word on the way overruns \<open>svr_str\<close>.
\<close>

function scan_ports :: "cint \<Rightarrow> string \<Rightarrow> string option" where
  "scan_ports rank s = (case scan_ports_entry s of
       None \<Rightarrow> None
     | Some (svr_rank, svr_str, r) \<Rightarrow>
         if PATH_MAX \<le> length svr_str then None
         else if svr_rank = rank then Some svr_str else scan_ports rank r)"
  by pat_completeness auto
termination
  by (relation "measure (\<lambda>(rank, s). length s)") (auto dest: length_scan_ports_entry)

declare scan_ports.simps [simp del]

text \<open>The file that the servers of a list have written, one after the other.\<close>

definition ports_file :: "(cint \<times> string) list \<Rightarrow> string" where
  "ports_file es = concat (map (\<lambda>(r, a). ports_line r a) es)"

definition address_ok :: "string \<Rightarrow> bool" where
  "address_ok a \<longleftrightarrow> a \<noteq> [] \<and> list_all (\<lambda>c. \<not> is_space c) a \<and> length a < PATH_MAX"

section \<open>Registration\<close>

definition hvac_rpc_register :: "hg_env \<Rightarrow> 'a comm_scheme \<Rightarrow> i64 \<times> 'a comm_scheme" where
  "hvac_rpc_register env c = (let tmp = hg_register env ''hvac_base_rpc''
     in (tmp, c\<lparr>registry := (registry c)(tmp \<mapsto> K_read)\<rparr>))"

definition hvac_open_rpc_register :: "hg_env \<Rightarrow> 'a comm_scheme \<Rightarrow> i64 \<times> 'a comm_scheme" where
  "hvac_open_rpc_register env c = (let tmp = hg_register env ''hvac_open_rpc''
     in (tmp, c\<lparr>registry := (registry c)(tmp \<mapsto> K_open)\<rparr>))"

definition hvac_close_rpc_register :: "hg_env \<Rightarrow> 'a comm_scheme \<Rightarrow> (i64 \<times> 'a comm_scheme) outcome" where
  "hvac_close_rpc_register env c = (let tmp = hg_register env ''hvac_close_rpc''
     in assert_that (hg_disable_response env)
          (Inr (tmp, c\<lparr>registry := (registry c)(tmp \<mapsto> K_close),
                 no_response := tmp # no_response c\<rparr>)))"

definition hvac_seek_rpc_register :: "hg_env \<Rightarrow> 'a comm_scheme \<Rightarrow> i64 \<times> 'a comm_scheme" where
  "hvac_seek_rpc_register env c = (let tmp = hg_register env ''hvac_seek_rpc''
     in (tmp, c\<lparr>registry := (registry c)(tmp \<mapsto> K_seek)\<rparr>))"

lemmas register_defs = hvac_rpc_register_def hvac_open_rpc_register_def
  hvac_close_rpc_register_def hvac_seek_rpc_register_def

text \<open>Mercury keys an RPC by a hash of its name; the four names must not collide.\<close>

definition rpc_names :: "string list" where
  "rpc_names = [''hvac_base_rpc'', ''hvac_open_rpc'', ''hvac_close_rpc'', ''hvac_seek_rpc'']"

definition rpc_name_of :: "rpc_kind \<Rightarrow> string" where
  "rpc_name_of k = (case k of K_read \<Rightarrow> ''hvac_base_rpc'' | K_open \<Rightarrow> ''hvac_open_rpc''
     | K_close \<Rightarrow> ''hvac_close_rpc'' | K_seek \<Rightarrow> ''hvac_seek_rpc'')"

section \<open>Facts\<close>

lemma scan_ports_entry_line:
  assumes "address_ok a"
  shows "scan_ports_entry (ports_line r a @ s) = Some (r, a, skip_ws s)"
proof -
  have "scan_int (dec_int (sint r) @ CHR '' '' # a @ newline # s)
      = Some (sint r, CHR '' '' # a @ newline # s)"
    by (rule scan_int_dec_int) simp
  moreover have "scan_word (CHR '' '' # a @ newline # s) = Some (a, newline # s)"
    using assms scan_word_append [of a newline s]
    by (simp add: scan_word_space address_ok_def list_all_iff)
  ultimately show ?thesis
    by (simp add: scan_ports_entry_def ports_line_def skip_ws_Cons)
qed

lemma scan_ports_entry_skip_ws: "scan_ports_entry (skip_ws s) = scan_ports_entry s"
  by (simp add: scan_ports_entry_def)

lemma scan_ports_skip_ws: "scan_ports rank (skip_ws s) = scan_ports rank s"
  by (subst (1 2) scan_ports.simps) (simp add: scan_ports_entry_skip_ws)

lemma scan_ports_line:
  assumes "address_ok a"
  shows "scan_ports rank (ports_line r a @ s) = (if r = rank then Some a else scan_ports rank s)"
  using assms
  by (subst scan_ports.simps) (simp add: scan_ports_entry_line [OF assms] scan_ports_skip_ws address_ok_def)

lemma scan_ports_Nil: "scan_ports rank [] = None"
  by (subst scan_ports.simps) (simp add: scan_ports_entry_def scan_int_def skip_ws_def)

text \<open>The scan is a lookup in the list of the published entries: the first one wins.\<close>

lemma scan_ports_file:
  "list_all (\<lambda>(r, a). address_ok a) es \<Longrightarrow> scan_ports rank (ports_file es) = map_of es rank"
proof (induction es)
  case Nil
  show ?case by (simp add: ports_file_def scan_ports_Nil)
next
  case (Cons e es)
  obtain r a where e: "e = (r, a)" by (cases e)
  with Cons show ?case
    by (simp add: ports_file_def scan_ports_line)
qed

text \<open>
  The progress thread: it does not return before the flag is set; afterwards it makes at most
  the one call it was about to make, and returns within four steps, from wherever it is.
\<close>

lemma progress_run_append:
  "progress_run (xs @ ys) pc = (fst (progress_run ys (fst (progress_run xs pc))),
     snd (progress_run xs pc) @ snd (progress_run ys (fst (progress_run xs pc))))"
  by (induction xs arbitrary: pc) (auto simp: case_prod_beta split: option.split)

lemma progress_run_running:
  "list_all (\<lambda>(sd, _). \<not> sd) obs \<Longrightarrow> pc \<noteq> P_return \<Longrightarrow> fst (progress_run obs pc) \<noteq> P_return"
proof (induction obs arbitrary: pc)
  case (Cons ob obs)
  obtain sd r n where ob: "ob = (sd, r, n)" by (cases ob)
  with Cons.prems have "fst (progress_step sd r n pc) \<noteq> P_return"
    by (cases pc) (simp_all add: progress_step_def)
  with Cons ob show ?case by (simp add: case_prod_beta)
qed simp

lemma progress_run_returned: "fst (progress_run obs P_return) = P_return \<and> snd (progress_run obs P_return) = []"
  by (induction obs) (auto simp: progress_step_def)

text \<open>The steps to the end once the flag is set, and the calls on the way.\<close>

fun progress_left :: "progress_pc \<Rightarrow> nat" where
  "progress_left P_trigger = 4"
| "progress_left P_in_trigger = 3"
| "progress_left P_progress = 3"
| "progress_left P_check = 2"
| "progress_left P_in_progress = 2"
| "progress_left P_outer = 1"
| "progress_left P_return = 0"

definition about_to_call :: "progress_pc \<Rightarrow> hg_call list" where
  "about_to_call pc = (case pc of P_trigger \<Rightarrow> [Call_trigger] | P_progress \<Rightarrow> [Call_progress] | _ \<Rightarrow> [])"

lemma progress_step_shutdown:
  "progress_left (fst (progress_step True r n pc)) = progress_left pc - 1"
  "about_to_call pc = (case snd (progress_step True r n pc) of None \<Rightarrow> [] | Some c \<Rightarrow> [c])
     @ about_to_call (fst (progress_step True r n pc))"
  by (cases pc; simp add: progress_step_def about_to_call_def)+

lemma progress_run_after_flag:
  "list_all (\<lambda>(sd, _). sd) obs \<Longrightarrow> progress_left (fst (progress_run obs pc)) = progress_left pc - length obs \<and>
   about_to_call pc = snd (progress_run obs pc) @ about_to_call (fst (progress_run obs pc))"
proof (induction obs arbitrary: pc)
  case (Cons ob obs)
  obtain r n where ob: "ob = (True, r, n)" using Cons.prems by (cases ob) auto
  obtain pc' call where st: "progress_step True r n pc = (pc', call)" by fastforce
  with Cons.IH [of pc'] Cons.prems progress_step_shutdown [where r = r and n = n and pc = pc] ob show ?case
    by (auto simp: case_prod_beta split: option.split)
qed simp

lemma progress_run_shutdown:
  assumes "list_all (\<lambda>(sd, _). sd) obs" and "4 \<le> length obs"
  shows "fst (progress_run obs pc) = P_return" and "snd (progress_run obs pc) = about_to_call pc"
proof -
  have "progress_left pc \<le> 4" by (cases pc) simp_all
  with progress_run_after_flag [OF assms(1), of pc] assms(2)
  have "progress_left (fst (progress_run obs pc)) = 0" by simp
  then show r: "fst (progress_run obs pc) = P_return" by (cases "fst (progress_run obs pc)") simp_all
  show "snd (progress_run obs pc) = about_to_call pc"
    using progress_run_after_flag [OF assms(1), of pc] by (simp add: r about_to_call_def)
qed

end
