(* ===== verification/Posix.thy ===== *)
theory Posix
  imports C_Strings
begin

unbundle bit_operations_syntax

text \<open>
  The C library's file calls as the code uses them, on a regular file system: \<open>open\<close> for
  reading, \<open>read\<close>, \<open>pread\<close>, \<open>lseek\<close>, \<open>close\<close>, \<open>realpath\<close> (which
  \<open>std::filesystem::canonical\<close> performs) and \<open>std::filesystem::copy\<close>. A node's file
  system maps canonical path names to directories and regular files; \<open>resolve\<close> is its
  name resolution (symbolic links, \<open>.\<close> and \<open>..\<close>, the working directory). A descriptor
  names an open file description with its position. Errors are the value \<open>-1\<close>, as in C.
\<close>

section \<open>State\<close>

datatype node = Dir | Reg "byte list"

record open_file =
  of_path :: path
  of_pos :: nat

record posix =
  nodes :: "path \<rightharpoonup> node"
  resolve :: "path \<Rightarrow> path"
  openable :: "path \<Rightarrow> bool"
  fdtab :: "cint \<rightharpoonup> open_file"
  fd_limit :: nat

text \<open>Flags of \<open>open\<close> and the constants of \<open>lseek\<close> (Linux).\<close>

definition O_RDONLY :: cint where "O_RDONLY = 0"
definition O_WRONLY :: cint where "O_WRONLY = 1"
definition O_RDWR :: cint where "O_RDWR = 2"
definition O_ACCMODE :: cint where "O_ACCMODE = 3"
definition O_CREAT :: cint where "O_CREAT = 64"
definition O_APPEND :: cint where "O_APPEND = 1024"
definition SEEK_SET :: cint where "SEEK_SET = 0"
definition SEEK_CUR :: cint where "SEEK_CUR = 1"
definition SEEK_END :: cint where "SEEK_END = 2"

lemmas open_flag_defs = O_RDONLY_def O_WRONLY_def O_RDWR_def O_ACCMODE_def O_CREAT_def
  O_APPEND_def
lemmas whence_defs = SEEK_SET_def SEEK_CUR_def SEEK_END_def

section \<open>Names and descriptors\<close>

definition canonical_in :: "posix \<Rightarrow> path \<Rightarrow> path option" where
  "canonical_in ps p = (if p = [] then None
     else let c = resolve ps p in if nodes ps c = None then None else Some c)"

definition file_bytes :: "posix \<Rightarrow> path \<Rightarrow> byte list option" where
  "file_bytes ps c = (case nodes ps c of Some (Reg b) \<Rightarrow> Some b | _ \<Rightarrow> None)"

text \<open>The lowest descriptor not in use, below the process's limit.\<close>

definition alloc_fd :: "posix \<Rightarrow> cint option" where
  "alloc_fd ps = map_option of_nat
     (List.find (\<lambda>n. fdtab ps (of_nat n) = None) [0..<fd_limit ps])"

text \<open>What a descriptor shows: the bytes of its file and its position.\<close>

definition fd_view :: "posix \<Rightarrow> cint \<Rightarrow> (byte list \<times> nat) option" where
  "fd_view ps fd = (case fdtab ps fd of None \<Rightarrow> None
     | Some f \<Rightarrow> map_option (\<lambda>b. (b, of_pos f)) (file_bytes ps (of_path f)))"

section \<open>Calls\<close>

definition posix_open :: "posix \<Rightarrow> path \<Rightarrow> cint \<times> posix" where
  "posix_open ps p = (case canonical_in ps p of
       None \<Rightarrow> (-1, ps)
     | Some c \<Rightarrow>
         if \<not> openable ps c then (-1, ps)
         else (case alloc_fd ps of
             None \<Rightarrow> (-1, ps)
           | Some fd \<Rightarrow> (fd, ps\<lparr>fdtab := (fdtab ps)(fd \<mapsto> \<lparr>of_path = c, of_pos = 0\<rparr>)\<rparr>)))"

text \<open>Linux transfers at most this many bytes in one call.\<close>

definition max_rw :: nat where
  "max_rw = 0x7ffff000"

definition file_window :: "byte list \<Rightarrow> nat \<Rightarrow> i64 \<Rightarrow> byte list" where
  "file_window b pos n = take (min (unat n) max_rw) (drop pos b)"

definition posix_read :: "posix \<Rightarrow> cint \<Rightarrow> i64 \<Rightarrow> i64 \<times> byte list \<times> posix" where
  "posix_read ps fd n = (case fdtab ps fd of
       None \<Rightarrow> (-1, [], ps)
     | Some f \<Rightarrow> (case file_bytes ps (of_path f) of
           None \<Rightarrow> (-1, [], ps)
         | Some b \<Rightarrow>
             if sint n < 0 then (-1, [], ps)
             else let d = file_window b (of_pos f) n
               in (of_nat (length d), d,
                   ps\<lparr>fdtab := (fdtab ps)(fd \<mapsto> f\<lparr>of_pos := of_pos f + length d\<rparr>)\<rparr>)))"

definition posix_pread :: "posix \<Rightarrow> cint \<Rightarrow> i64 \<Rightarrow> i64 \<Rightarrow> i64 \<times> byte list" where
  "posix_pread ps fd n off = (case fdtab ps fd of
       None \<Rightarrow> (-1, [])
     | Some f \<Rightarrow> (case file_bytes ps (of_path f) of
           None \<Rightarrow> (-1, [])
         | Some b \<Rightarrow>
             if sint n < 0 \<or> sint off < 0 then (-1, [])
             else let d = file_window b (nat (sint off)) n in (of_nat (length d), d)))"

text \<open>Where a seek counts from; \<open>None\<close> for an unknown \<open>whence\<close>.\<close>

definition seek_base :: "byte list \<Rightarrow> nat \<Rightarrow> cint \<Rightarrow> int option" where
  "seek_base b pos whence = (if whence = SEEK_SET then Some 0
     else if whence = SEEK_CUR then Some (int pos)
     else if whence = SEEK_END then Some (int (length b)) else None)"

definition posix_lseek :: "posix \<Rightarrow> cint \<Rightarrow> i64 \<Rightarrow> cint \<Rightarrow> i64 \<times> posix" where
  "posix_lseek ps fd off whence = (case fdtab ps fd of
       None \<Rightarrow> (-1, ps)
     | Some f \<Rightarrow> (case file_bytes ps (of_path f) of
           None \<Rightarrow> (-1, ps)
         | Some b \<Rightarrow>
             (case seek_base b (of_pos f) whence of
                   None \<Rightarrow> (-1, ps)
                 | Some v \<Rightarrow>
                     if v + sint off < 0 \<or> 2 ^ 63 \<le> v + sint off then (-1, ps)
                     else (word_of_int (v + sint off),
                       ps\<lparr>fdtab := (fdtab ps)(fd \<mapsto> f\<lparr>of_pos := nat (v + sint off)\<rparr>)\<rparr>))))"

definition posix_close :: "posix \<Rightarrow> cint \<Rightarrow> cint \<times> posix" where
  "posix_close ps fd = (if fdtab ps fd = None then (-1, ps)
     else (0, ps\<lparr>fdtab := (fdtab ps)(fd := None)\<rparr>))"

text \<open>
  \<open>std::filesystem::copy\<close> of a regular file: it throws (\<open>None\<close>) when the source does not
  exist or cannot be read, when the destination exists, or when the system refuses the
  write (\<open>ok = False\<close>: no space, no such directory). Of a directory the library function makes
  a directory with copies of its regular files; the files that a job reads are regular ones,
  and the copy of a directory is not modelled: it is refused here.
\<close>

definition fs_copy :: "posix \<Rightarrow> bool \<Rightarrow> path \<Rightarrow> path \<Rightarrow> posix option" where
  "fs_copy ps ok src dst = (case canonical_in ps src of
       None \<Rightarrow> None
     | Some c \<Rightarrow> (case file_bytes ps c of
           None \<Rightarrow> None
         | Some b \<Rightarrow>
             if ok \<and> openable ps c \<and> dst \<noteq> [] \<and> nodes ps (resolve ps dst) = None
             then Some (ps\<lparr>nodes := (nodes ps)(resolve ps dst \<mapsto> Reg b)\<rparr>)
             else None))"

definition fs_mkdir :: "posix \<Rightarrow> path \<Rightarrow> posix" where
  "fs_mkdir ps d = ps\<lparr>nodes := (nodes ps)(resolve ps d \<mapsto> Dir)\<rparr>"

section \<open>What the calls do\<close>

lemma length_file_window: "length (file_window b pos n) \<le> unat n \<and> length (file_window b pos n) \<le> max_rw"
  unfolding file_window_def length_take by linarith

lemma length_file_window_small: "length (file_window b pos n) < 2 ^ 31"
  using length_file_window [of b pos n] by (simp add: max_rw_def)

lemma file_bytes_fdtab [simp]: "file_bytes (ps\<lparr>fdtab := x\<rparr>) c = file_bytes ps c"
  by (simp add: file_bytes_def)

lemma canonical_in_fdtab [simp]: "canonical_in (ps\<lparr>fdtab := x\<rparr>) p = canonical_in ps p"
  by (simp add: canonical_in_def)

lemma canonical_in_Some: "canonical_in ps p = Some c \<longleftrightarrow> p \<noteq> [] \<and> c = resolve ps p \<and> nodes ps c \<noteq> None"
  by (auto simp: canonical_in_def Let_def)

lemma alloc_fd_free: "alloc_fd ps = Some fd \<Longrightarrow> fdtab ps fd = None"
  by (auto simp: alloc_fd_def find_Some_iff)

lemma alloc_fd_nonneg:
  assumes "alloc_fd ps = Some fd" and "fd_limit ps \<le> 2 ^ 31"
  shows "0 \<le> sint fd"
proof -
  from assms(1) obtain n where fd: "fd = of_nat n" and "n < fd_limit ps"
    by (auto simp: alloc_fd_def find_Some_iff)
  with assms(2) have "n < 2 ^ 31" by simp
  then show ?thesis
    by (simp add: fd sint_uint unsigned_of_nat take_bit_nat_eq_self
        signed_take_bit_int_eq_self take_bit_int_eq_self)
qed

lemma posix_open_ok:
  assumes "canonical_in ps p = Some c" and "openable ps c" and "alloc_fd ps = Some fd"
  shows "posix_open ps p = (fd, ps\<lparr>fdtab := (fdtab ps)(fd \<mapsto> \<lparr>of_path = c, of_pos = 0\<rparr>)\<rparr>)"
  using assms by (simp add: posix_open_def)

lemma posix_open_cases:
  obtains (fail) "posix_open ps p = (-1, ps)"
  | (ok) c fd where "canonical_in ps p = Some c" and "openable ps c"
      and "alloc_fd ps = Some fd"
      and "posix_open ps p = (fd, ps\<lparr>fdtab := (fdtab ps)(fd \<mapsto> \<lparr>of_path = c, of_pos = 0\<rparr>)\<rparr>)"
proof (cases "\<exists>c fd. canonical_in ps p = Some c \<and> openable ps c \<and> alloc_fd ps = Some fd")
  case True
  then show thesis using ok posix_open_ok by blast
next
  case False
  then have "posix_open ps p = (-1, ps)"
    by (auto simp: posix_open_def split: option.split)
  then show thesis by (rule fail)
qed

lemma posix_read_view:
  assumes "fd_view ps fd = Some (b, pos)" and "0 \<le> sint n"
  shows "\<exists>f. fdtab ps fd = Some f \<and> of_pos f = pos \<and> file_bytes ps (of_path f) = Some b \<and>
    posix_read ps fd n = (of_nat (length (file_window b pos n)), file_window b pos n,
      ps\<lparr>fdtab := (fdtab ps)(fd \<mapsto> f\<lparr>of_pos := pos + length (file_window b pos n)\<rparr>)\<rparr>)"
  using assms by (auto simp: fd_view_def posix_read_def Let_def split: option.splits)

lemma posix_pread_view:
  assumes "fd_view ps fd = Some (b, pos)" and "0 \<le> sint n" and "0 \<le> sint off"
  shows "posix_pread ps fd n off =
    (of_nat (length (file_window b (nat (sint off)) n)), file_window b (nat (sint off)) n)"
  using assms by (auto simp: fd_view_def posix_pread_def Let_def split: option.splits)

lemma posix_lseek_view:
  assumes "fd_view ps fd = Some (b, pos)" and "seek_base b pos wh = Some v"
    and "v + sint off = int k" and "k < 2 ^ 63"
  shows "\<exists>f. fdtab ps fd = Some f \<and> of_pos f = pos \<and> file_bytes ps (of_path f) = Some b \<and>
    posix_lseek ps fd off wh = (of_nat k, ps\<lparr>fdtab := (fdtab ps)(fd \<mapsto> f\<lparr>of_pos := k\<rparr>)\<rparr>)"
  using assms
  by (auto simp: fd_view_def posix_lseek_def simp del: of_int_add split: option.splits)

lemma posix_bad_fd [simp]:
  "fdtab ps fd = None \<Longrightarrow> posix_read ps fd n = (-1, [], ps)"
  "fdtab ps fd = None \<Longrightarrow> posix_pread ps fd n off = (-1, [])"
  "fdtab ps fd = None \<Longrightarrow> posix_lseek ps fd off w = (-1, ps)"
  "fdtab ps fd = None \<Longrightarrow> posix_close ps fd = (-1, ps)"
  by (simp_all add: posix_read_def posix_pread_def posix_lseek_def posix_close_def)

text \<open>None of the descriptor calls touches the file system itself.\<close>

lemma posix_calls_keep_nodes [simp]:
  "nodes (snd (posix_open ps p)) = nodes ps"
  "nodes (snd (snd (posix_read ps fd n))) = nodes ps"
  "nodes (snd (posix_lseek ps fd off w)) = nodes ps"
  "nodes (snd (posix_close ps fd)) = nodes ps"
  by (simp_all add: posix_open_def posix_read_def posix_lseek_def posix_close_def Let_def
      split: option.splits)

lemma posix_calls_keep_resolve [simp]:
  "resolve (snd (posix_open ps p)) = resolve ps"
  "resolve (snd (snd (posix_read ps fd n))) = resolve ps"
  "resolve (snd (posix_lseek ps fd off w)) = resolve ps"
  "resolve (snd (posix_close ps fd)) = resolve ps"
  by (simp_all add: posix_open_def posix_read_def posix_lseek_def posix_close_def Let_def
      split: option.splits)

lemma fs_copy_SomeD:
  assumes "fs_copy ps ok src dst = Some ps'"
  shows "\<exists>c b. canonical_in ps src = Some c \<and> file_bytes ps c = Some b \<and> dst \<noteq> [] \<and>
    nodes ps (resolve ps dst) = None \<and> ps' = ps\<lparr>nodes := (nodes ps)(resolve ps dst \<mapsto> Reg b)\<rparr>"
  using assms by (auto simp: fs_copy_def split: option.splits if_splits)

end
