(* ===== verification/Logging.thy ===== *)
theory Logging
  imports C_Strings
begin

text \<open>
  \<open>src/hvac_logging.c\<close> with the names of \<open>src/hvac_logging.h\<close>: the configuration read from the
  environment, the buffer for the file name prefix, and the formatter behind the \<open>L4C_*\<close> macros, which switches I/O
  redirection off for its thread while log4c writes. log4c itself is a parameter.
\<close>

section \<open>Names (hvac_logging.h)\<close>

text \<open>
  The macros of \<open>src/hvac_logging.h\<close>. The build files compile the same sources twice, for the
  client library with \<open>HVAC_CLIENT\<close> defined and for the daemon with \<open>HVAC_SERVER\<close>.
\<close>

datatype build = HVAC_CLIENT | HVAC_SERVER

fun L4C_CAT_NAME :: "build \<Rightarrow> string" where
  "L4C_CAT_NAME HVAC_CLIENT = ''HVAC_CLIENT''"
| "L4C_CAT_NAME HVAC_SERVER = ''hvac_server''"

fun L4C_LOG_DIR :: "build \<Rightarrow> string" where
  "L4C_LOG_DIR HVAC_CLIENT = ''.''"
| "L4C_LOG_DIR HVAC_SERVER = ''.''"

fun L4C_LOG_NAME_PREFIX :: "build \<Rightarrow> string" where
  "L4C_LOG_NAME_PREFIX HVAC_CLIENT = ''hvac_intercept_log''"
| "L4C_LOG_NAME_PREFIX HVAC_SERVER = ''hvac_server_log''"

definition HVAC_LOG_LEVEL :: string where "HVAC_LOG_LEVEL = ''HVAC_LOG_LEVEL''"
definition HVAC_LOG_DIR :: string where "HVAC_LOG_DIR = ''HVAC_LOG_DIR''"
definition HVAC_LOG_PREFIX :: string where "HVAC_LOG_PREFIX = ''HVAC_LOG_PREFIX''"

section \<open>Configuration\<close>

record log_config =
  log_priority :: int
  log_dir :: string
  log_file_prefix :: string
  log_maxsize :: int
  log_max_files :: int
  log_layout :: string

text \<open>\<open>LOG4C_PRIORITY_FATAL\<close> and \<open>LOG4C_PRIORITY_TRACE\<close>, as \<open>hvac_logging.h\<close> gives them.\<close>

definition LOG4C_PRIORITY_FATAL :: int where "LOG4C_PRIORITY_FATAL = 0"
definition LOG4C_PRIORITY_TRACE :: int where "LOG4C_PRIORITY_TRACE = 800"

definition param_max_file_size :: int where
  "param_max_file_size = 100 * 1024 * 1024"

definition param_max_num_files :: int where
  "param_max_num_files = 10"

definition param_layout_to_use :: string where
  "param_layout_to_use = ''dated''"

definition choose_level :: "int \<Rightarrow> string option \<Rightarrow> int" where
  "choose_level notice v = (case v of
       Some s \<Rightarrow>
         let level = sint (atoi s)
         in if level < LOG4C_PRIORITY_FATAL then LOG4C_PRIORITY_FATAL
            else if level > LOG4C_PRIORITY_TRACE then LOG4C_PRIORITY_TRACE
            else level
     | None \<Rightarrow> notice)"

text \<open>
  \<open>prefix_and_pid\<close>: \<open>strlen(prefix) + 7\<close> bytes are allocated, and \<open>sprintf\<close> writes the
  prefix, a dot, the process id and the terminating null. Writing past the allocation is
  undefined.
\<close>

definition prefix_alloc :: "string \<Rightarrow> nat" where
  "prefix_alloc prefix = length prefix + 7"

definition prefix_and_pid :: "string \<Rightarrow> cint \<Rightarrow> string outcome" where
  "prefix_and_pid prefix pid =
     (let s = prefix @ ''.'' @ dec_int (sint pid)
      in if length s + 1 \<le> prefix_alloc prefix then Inr s else Inl Undefined_behaviour)"

text \<open>
  \<open>hvac_init_logging\<close>: \<open>None\<close> is the early return when \<open>log4c_init\<close> fails. \<open>notice\<close> is
  \<open>LOG4C_PRIORITY_NOTICE\<close> of log4c.
\<close>

definition hvac_init_logging ::
  "build \<Rightarrow> int \<Rightarrow> int \<Rightarrow> (string \<Rightarrow> string option) \<Rightarrow> cint \<Rightarrow> log_config option outcome"
where
  "hvac_init_logging build notice rc getenv pid =
     (if rc \<noteq> 0 then Inr None
      else let
          level = choose_level notice (getenv HVAC_LOG_LEVEL);
          dir = (case getenv HVAC_LOG_DIR of None \<Rightarrow> L4C_LOG_DIR build | Some d \<Rightarrow> d);
          prefix = (case getenv HVAC_LOG_PREFIX of None \<Rightarrow> L4C_LOG_NAME_PREFIX build | Some p \<Rightarrow> p)
        in and_then (prefix_and_pid prefix pid) (\<lambda>pp.
             Inr (Some \<lparr>log_priority = level, log_dir = dir, log_file_prefix = pp,
               log_maxsize = param_max_file_size, log_max_files = param_max_num_files,
               log_layout = param_layout_to_use\<rparr>)))"

section \<open>The formatter\<close>

definition MAX_STR_LEN :: nat where "MAX_STR_LEN = 1024"

text \<open>
  \<open>log_preformatter_internal\<close>, for the text \<open>body\<close> that the format string and its
  arguments expand to. \<open>log4c\<close> is the call of \<open>log4c_category_log\<close>: it sees the
  thread-local flag and the message, and acts on the world. The result is the flag after
  the call and the new world.
\<close>

definition log_preformatter_internal ::
  "(bool \<Rightarrow> string \<Rightarrow> nat \<Rightarrow> string \<Rightarrow> 'w \<Rightarrow> 'w) \<Rightarrow> build \<Rightarrow> nat \<Rightarrow> path \<Rightarrow> nat \<Rightarrow> string \<Rightarrow> bool \<times> 'w \<Rightarrow> bool \<times> 'w"
where
  "log_preformatter_internal log4c build priority file linenum body st =
     (let expanded_format = take (MAX_STR_LEN - 1) body;
          msg = ''['' @ filename file @ '':'' @ dec_nat linenum @ ''] '' @ expanded_format;
          tl_disable_redirect = True;
          w = log4c tl_disable_redirect (L4C_CAT_NAME build) priority msg (snd st)
      in (False, w))"

section \<open>Facts\<close>

lemma choose_level_bounds:
  "LOG4C_PRIORITY_FATAL \<le> notice \<Longrightarrow> notice \<le> LOG4C_PRIORITY_TRACE \<Longrightarrow>
   LOG4C_PRIORITY_FATAL \<le> choose_level notice v \<and> choose_level notice v \<le> LOG4C_PRIORITY_TRACE"
  by (simp add: choose_level_def Let_def LOG4C_PRIORITY_FATAL_def LOG4C_PRIORITY_TRACE_def
      split: option.split)

lemma choose_level_in_range:
  "0 \<le> sint v \<Longrightarrow> sint v \<le> 800 \<Longrightarrow> choose_level notice (Some (dec_int (sint v))) = sint v"
  for v :: cint
  by (simp add: choose_level_def Let_def atoi_dec_int LOG4C_PRIORITY_FATAL_def
      LOG4C_PRIORITY_TRACE_def)

text \<open>The buffer is large enough exactly for process ids of at most five digits.\<close>

lemma dec_nat_five_digits: "length (dec_nat n) \<le> 5 \<longleftrightarrow> n < 100000"
  using dec_nat_length_le [of 5 n] dec_nat_length_ge [of 5 n] by (cases "n < 100000") simp_all

lemma prefix_and_pid_fits: "0 \<le> sint pid \<Longrightarrow>
   prefix_and_pid prefix pid = (if sint pid < 100000
     then Inr (prefix @ ''.'' @ dec_int (sint pid)) else Inl Undefined_behaviour)"
  using dec_nat_five_digits [of "nat (sint pid)"]
  by (auto simp: prefix_and_pid_def prefix_alloc_def dec_int_def nat_less_iff)

lemma init_logging_returns:
  assumes "0 \<le> sint pid" and "sint pid < 100000"
  shows "\<exists>r. hvac_init_logging build notice rc ge pid = Inr r"
  using prefix_and_pid_fits [OF assms(1)] assms(2) by (simp add: hvac_init_logging_def Let_def)

text \<open>
  Whatever the environment asks for, the log level that is configured lies between
  \<open>LOG4C_PRIORITY_FATAL\<close> and \<open>LOG4C_PRIORITY_TRACE\<close>, a level in this range is taken as it is,
  and the log file's prefix ends in the process id.
\<close>

lemma log_configuration:
  assumes "hvac_init_logging build notice rc ge pid = Inr (Some cfg)"
    and "LOG4C_PRIORITY_FATAL \<le> notice" and "notice \<le> LOG4C_PRIORITY_TRACE"
  shows "LOG4C_PRIORITY_FATAL \<le> log_priority cfg \<and> log_priority cfg \<le> LOG4C_PRIORITY_TRACE \<and>
    (\<forall>v :: cint. ge HVAC_LOG_LEVEL \<noteq> Some (dec_int (sint v)) \<or> sint v < 0 \<or> 800 < sint v \<or>
      log_priority cfg = sint v) \<and>
    (\<exists>pre. log_file_prefix cfg = pre @ ''.'' @ dec_int (sint pid))"
proof -
  have c: "log_priority cfg = choose_level notice (ge HVAC_LOG_LEVEL) \<and>
      (\<exists>pre. log_file_prefix cfg = pre @ ''.'' @ dec_int (sint pid))"
    using assms(1)
    by (auto simp: hvac_init_logging_def prefix_and_pid_def Let_def hvac_result split: if_splits)
  then show ?thesis
    using choose_level_bounds [OF assms(2,3)] choose_level_in_range [of _ notice] by (metis not_le)
qed

end
