(* ===== verification/Client_Comm.thy ===== *)
theory Client_Comm
  imports Comm Posix Logging
begin

text \<open>
  \<open>src/hvac_comm_client.cpp\<close>: the client's RPC calls, their callbacks, the waits on the
  \<open>done\<close> flag, and the lookup of server addresses. The state of the client process is
  declared here, as the globals of this file and of \<open>hvac_client.cpp\<close>; what the process calls
  outside the sources (the C library's functions behind the wrappers, Mercury, the servers) is
  the parameter record \<open>cenv\<close>, over an abstract operating system \<open>'o\<close>, abstract Mercury
  addresses \<open>'a\<close> and an abstract rest of the world \<open>'w\<close>.
\<close>

section \<open>State and environment\<close>

text \<open>
  What became of a forwarded RPC: \<open>HG_Forward\<close> itself failed, no answer ever arrives, or the
  callback runs with a status, and either the 32-bit field of the output structure and the bytes
  the server pushed into the registered memory before it answered, or an output that
  \<open>HG_Get_output\<close> cannot decode.
\<close>

datatype hg_reply =
    Forward_failed
  | No_reply
  | Reply cint cint "byte list"
  | Garbled cint

text \<open>Callbacks that the progress thread has still to run.\<close>

datatype callback =
    Cb_open cint hg_reply
  | Cb_read hg_reply
  | Cb_seek hg_reply

record client = comm +
  tl_disable_redirect :: bool
  g_disable_redirect :: bool
  g_hvac_initialized :: bool
  g_mercury_init :: bool
  g_hvac_server_count :: cint
  hvac_data_dir :: "string option"
  fd_map :: "cint \<rightharpoonup> path"
  fd_redir_map :: "cint \<rightharpoonup> cint"
  rpc_done :: byte                      \<comment> \<open>\<open>done\<close>, an \<open>hg_bool_t\<close>\<close>
  read_ret :: i64
  address_cache :: "cint \<rightharpoonup> string"
  hvac_client_rpc_id :: i64
  hvac_client_open_id :: i64
  hvac_client_close_id :: i64
  hvac_client_seek_id :: i64

record ('o, 'w) proc = client +
  os :: 'o
  net :: 'w
  pending :: "callback list"

text \<open>
  The functions that the wrappers replace, the \<open>REAL_DECL\<close>s of \<open>hvac_internal.h\<close>, and whether the
  linker finds them.
\<close>

record 'o real_calls =
  dlsym :: "string \<Rightarrow> bool"            \<comment> \<open>\<open>dlsym(RTLD_NEXT, name)\<close> is not NULL\<close>
  real_open :: "path \<Rightarrow> cint \<Rightarrow> cint \<Rightarrow> 'o \<Rightarrow> cint \<times> 'o"
  real_open64 :: "path \<Rightarrow> cint \<Rightarrow> cint option \<Rightarrow> 'o \<Rightarrow> cint \<times> 'o"
  real_fopen :: "path \<Rightarrow> string \<Rightarrow> 'o \<Rightarrow> cint option \<times> 'o"   \<comment> \<open>the \<open>fileno\<close>, or NULL\<close>
  real_fopen64 :: "path \<Rightarrow> string \<Rightarrow> 'o \<Rightarrow> cint option \<times> 'o"
  real_close :: "cint \<Rightarrow> 'o \<Rightarrow> cint \<times> 'o"
  real_read :: "cint \<Rightarrow> buffer \<Rightarrow> i64 \<Rightarrow> 'o \<Rightarrow> i64 \<times> buffer \<times> 'o"
  real_read64 :: "cint \<Rightarrow> buffer \<Rightarrow> i64 \<Rightarrow> 'o \<Rightarrow> i64 \<times> buffer \<times> 'o"
  real_pread :: "cint \<Rightarrow> buffer \<Rightarrow> i64 \<Rightarrow> i64 \<Rightarrow> 'o \<Rightarrow> i64 \<times> buffer \<times> 'o"
  real_readv :: "cint \<Rightarrow> buffer list \<Rightarrow> 'o \<Rightarrow> i64 \<times> buffer list \<times> 'o"
  real_write :: "cint \<Rightarrow> buffer \<Rightarrow> i64 \<Rightarrow> 'o \<Rightarrow> i64 \<times> 'o"
  real_lseek :: "cint \<Rightarrow> i64 \<Rightarrow> cint \<Rightarrow> 'o \<Rightarrow> i64 \<times> 'o"
  real_lseek64 :: "cint \<Rightarrow> i64 \<Rightarrow> cint \<Rightarrow> 'o \<Rightarrow> i64 \<times> 'o"

record ('o, 'a, 'w) cenv = "'o real_calls" +
  getenv :: "string \<Rightarrow> string option"
  strhash :: "string \<Rightarrow> i64"           \<comment> \<open>\<open>std::hash<std::string>\<close>\<close>
  getpid :: cint
  log4c_rc :: int
  log4c_notice :: int
  hgenv :: hg_env
  canonical :: "'o \<Rightarrow> path \<Rightarrow> path option"     \<comment> \<open>\<open>None\<close>: throws\<close>
  current_path :: "'o \<Rightarrow> path option"
  read_config :: "'o \<Rightarrow> path \<Rightarrow> string option" \<comment> \<open>the text of a file \<open>fopen\<close> can open\<close>
  hg_lookup :: "string \<Rightarrow> 'a option"          \<comment> \<open>\<open>HG_Addr_lookup2\<close>\<close>
  hg_create_ok :: bool
  hg_bulk_ok :: "i64 \<Rightarrow> bool"
  hg_free_ok :: bool
  hg_forward :: "'a \<Rightarrow> i64 \<Rightarrow> rpc_in \<Rightarrow> 'w \<Rightarrow> hg_reply \<times> 'w"

text \<open>A log message on the application's thread leaves its redirection flag off.\<close>

definition l4c :: "'x client_scheme \<Rightarrow> 'x client_scheme" where
  "l4c p = p\<lparr>tl_disable_redirect := False\<rparr>"

section \<open>Registration and addresses\<close>

definition hvac_client_comm_register_rpc :: "hg_env \<Rightarrow> 'x client_scheme \<Rightarrow> 'x client_scheme outcome" where
  "hvac_client_comm_register_rpc env p =
     (let (oid, p1) = hvac_open_rpc_register env p;
          p1' = p1\<lparr>hvac_client_open_id := oid\<rparr>;
          (rid, p2) = hvac_rpc_register env p1';
          p2' = p2\<lparr>hvac_client_rpc_id := rid\<rparr>
      in and_then (hvac_close_rpc_register env p2') (\<lambda>(cid, p3).
           let p3' = p3\<lparr>hvac_client_close_id := cid\<rparr>;
               (sid, p4) = hvac_seek_rpc_register env p3'
           in Inr (p4\<lparr>hvac_client_seek_id := sid\<rparr>)))"

text \<open>
  \<open>hvac_client_comm_lookup_addr\<close>. A long job id overruns the buffer of the name. When the file
  cannot be opened \<open>fscanf\<close> gets a null stream; when the rank is not in it, or Mercury cannot resolve the name, the address
  returned is uninitialised. The stream is never closed, so each rank that is looked up costs
  the process a descriptor; \<open>os\<close> does not show this one.
\<close>

definition hvac_client_comm_lookup_addr ::
  "('o, 'a, 'w) cenv \<Rightarrow> cint \<Rightarrow> ('o, 'w) proc \<Rightarrow> ('a \<times> ('o, 'w) proc) outcome" where
  "hvac_client_comm_lookup_addr e rank p = (case address_cache p rank of
       Some s \<Rightarrow> (case hg_lookup e s of
           None \<Rightarrow> Inl Undefined_behaviour
         | Some target_server \<Rightarrow> Inr (target_server, p))
     | None \<Rightarrow> (case getenv e ''SLURM_JOBID'' of
           None \<Rightarrow> Inl Undefined_behaviour
         | Some jobid \<Rightarrow> if \<not> ports_name_fits jobid then Inl Undefined_behaviour
             else (case read_config e (os p) (ports_cfg_name jobid) of
               None \<Rightarrow> Inl Undefined_behaviour
             | Some text \<Rightarrow> (case scan_ports rank text of
                   None \<Rightarrow> Inl Undefined_behaviour
                 | Some svr_str \<Rightarrow>
                     let p1 = l4c p;
                         p2 = p1\<lparr>address_cache := (address_cache p1)(rank \<mapsto> svr_str)\<rparr>
                     in (case hg_lookup e svr_str of
                           None \<Rightarrow> Inl Undefined_behaviour
                         | Some target_server \<Rightarrow> Inr (target_server, p2))))))"

section \<open>The RPC calls\<close>

text \<open>Create the handle, forward the structure, free the address.\<close>

definition forward_rpc ::
  "('o, 'a, 'w) cenv \<Rightarrow> 'a \<Rightarrow> i64 \<Rightarrow> rpc_in \<Rightarrow> ('o, 'w) proc \<Rightarrow> (hg_reply \<times> ('o, 'w) proc) outcome" where
  "forward_rpc e svr_addr rid inp p = assert_that (hg_create_ok e)
     (case hg_forward e svr_addr rid inp (net p) of (reply, w) \<Rightarrow>
        assert_that (reply \<noteq> Forward_failed)
          (assert_that (hg_free_ok e) (Inr (reply, p\<lparr>net := w\<rparr>))))"

definition hvac_client_comm_gen_open_rpc ::
  "('o, 'a, 'w) cenv \<Rightarrow> cint \<Rightarrow> path \<Rightarrow> cint \<Rightarrow> ('o, 'w) proc \<Rightarrow> ('o, 'w) proc outcome" where
  "hvac_client_comm_gen_open_rpc e svr_hash path fd p =
     and_then (hvac_client_comm_lookup_addr e svr_hash (p\<lparr>rpc_done := 0\<rparr>)) (\<lambda>(svr_addr, p1).
     and_then (forward_rpc e svr_addr (hvac_client_open_id p1) (Open_in \<lparr>in_path = path\<rparr>) p1)
       (\<lambda>(reply, p2). Inr (p2\<lparr>pending := pending p2 @ [Cb_open fd reply]\<rparr>)))"

text \<open>
  The server writes into the registered buffer before it answers; the buffer is part of the
  result. \<open>count\<close> is a \<open>ssize_t\<close>, the field \<open>input_val\<close> an \<open>int32_t\<close>.
\<close>

definition hvac_client_comm_gen_read_rpc ::
  "('o, 'a, 'w) cenv \<Rightarrow> cint \<Rightarrow> cint \<Rightarrow> buffer \<Rightarrow> i64 \<Rightarrow> i64 \<Rightarrow> ('o, 'w) proc
    \<Rightarrow> (buffer \<times> ('o, 'w) proc) outcome" where
  "hvac_client_comm_gen_read_rpc e svr_hash localfd buf count offset p =
     and_then (hvac_client_comm_lookup_addr e svr_hash (p\<lparr>rpc_done := 0, read_ret := -1\<rparr>))
       (\<lambda>(svr_addr, p1).
     (case buf of
       None \<Rightarrow> Inl Assert_failed
     | Some mem \<Rightarrow> assert_that (hg_create_ok e) (assert_that (hg_bulk_ok e count)
         (let (accfd, redir) = map_index 0 (fd_redir_map p1) localfd;
              p2 = p1\<lparr>fd_redir_map := redir\<rparr>;
              inp = \<lparr>input_val = to_int count, bulk_handle = count, accessfd = accfd,
                     in_offset = offset\<rparr>
          in and_then (forward_rpc e svr_addr (hvac_client_rpc_id p2) (Read_in inp) p2)
               (\<lambda>(reply, p3).
                  let mem' = (case reply of Reply _ _ data \<Rightarrow> overlay data mem | _ \<Rightarrow> mem)
                  in Inr (Some mem', p3\<lparr>pending := pending p3 @ [Cb_read reply]\<rparr>))))))"

definition hvac_client_comm_gen_seek_rpc ::
  "('o, 'a, 'w) cenv \<Rightarrow> cint \<Rightarrow> cint \<Rightarrow> cint \<Rightarrow> cint \<Rightarrow> ('o, 'w) proc \<Rightarrow> ('o, 'w) proc outcome" where
  "hvac_client_comm_gen_seek_rpc e svr_hash fd offset whence p =
     and_then (hvac_client_comm_lookup_addr e svr_hash (p\<lparr>read_ret := -1, rpc_done := 0\<rparr>))
       (\<lambda>(svr_addr, p1).
     (let (rfd, redir) = map_index 0 (fd_redir_map p1) fd;
          p2 = p1\<lparr>fd_redir_map := redir\<rparr>
      in and_then (forward_rpc e svr_addr (hvac_client_seek_id p2)
             (Seek_in \<lparr>seek_fd = rfd, seek_offset = offset, seek_whence = whence\<rparr>) p2)
           (\<lambda>(reply, p3). Inr (p3\<lparr>pending := pending p3 @ [Cb_seek reply]\<rparr>))))"

text \<open>A close has no response and no callback.\<close>

definition hvac_client_comm_gen_close_rpc ::
  "('o, 'a, 'w) cenv \<Rightarrow> cint \<Rightarrow> cint \<Rightarrow> ('o, 'w) proc \<Rightarrow> ('o, 'w) proc outcome" where
  "hvac_client_comm_gen_close_rpc e svr_hash fd p =
     and_then (hvac_client_comm_lookup_addr e svr_hash p) (\<lambda>(svr_addr, p1).
     (let (rfd, redir) = map_index 0 (fd_redir_map p1) fd;
          p2 = p1\<lparr>fd_redir_map := redir\<rparr>
      in and_then (forward_rpc e svr_addr (hvac_client_close_id p2) (Close_in \<lparr>close_fd = rfd\<rparr>) p2)
           (\<lambda>(_, p3). Inr (p3\<lparr>fd_redir_map := map_erase fd (fd_redir_map p3)\<rparr>))))"

section \<open>Callbacks and waits\<close>

text \<open>
  \<open>info->ret\<close> is checked by the open and read callbacks only, and what \<open>HG_Get_output\<close> returns
  by none: without an output (\<open>None\<close>) they read an uninitialised structure.
\<close>

definition hvac_open_cb :: "cint \<Rightarrow> cint \<Rightarrow> cint option \<Rightarrow> 'x client_scheme \<Rightarrow> 'x client_scheme outcome" where
  "hvac_open_cb local_fd ret output p = assert_that (ret = 0)
     (case output of
       None \<Rightarrow> Inl Undefined_behaviour
     | Some out \<Rightarrow>
         let p1 = p\<lparr>fd_redir_map := (fd_redir_map p)(local_fd \<mapsto> out)\<rparr>
         in Inr (p1\<lparr>rpc_done := rpc_done p1 + 1\<rparr>))"

definition hvac_read_cb :: "bool \<Rightarrow> cint \<Rightarrow> cint option \<Rightarrow> 'x client_scheme \<Rightarrow> 'x client_scheme outcome" where
  "hvac_read_cb free_ok ret output p = assert_that (ret = 0)
     (case output of
       None \<Rightarrow> Inl Undefined_behaviour
     | Some out \<Rightarrow> assert_that free_ok
         (let bytes_read = to_i64 out
          in Inr (p\<lparr>rpc_done := rpc_done p + 1, read_ret := bytes_read\<rparr>)))"

definition hvac_seek_cb :: "cint \<Rightarrow> cint option \<Rightarrow> 'x client_scheme \<Rightarrow> 'x client_scheme outcome" where
  "hvac_seek_cb ret output p = (case (if ret = 0 then output else None) of
       None \<Rightarrow> Inl Undefined_behaviour
     | Some out \<Rightarrow> Inr (p\<lparr>rpc_done := rpc_done p + 1, read_ret := to_i64 out\<rparr>))"

fun run_callback :: "bool \<Rightarrow> callback \<Rightarrow> 'x client_scheme \<Rightarrow> 'x client_scheme outcome" where
  "run_callback free_ok (Cb_open fd (Reply ret out _)) p = hvac_open_cb fd ret (Some out) p"
| "run_callback free_ok (Cb_read (Reply ret out _)) p = hvac_read_cb free_ok ret (Some out) p"
| "run_callback free_ok (Cb_seek (Reply ret out _)) p = hvac_seek_cb ret (Some out) p"
| "run_callback free_ok (Cb_open fd (Garbled ret)) p = hvac_open_cb fd ret None p"
| "run_callback free_ok (Cb_read (Garbled ret)) p = hvac_read_cb free_ok ret None p"
| "run_callback free_ok (Cb_seek (Garbled ret)) p = hvac_seek_cb ret None p"
| "run_callback free_ok _ p = Inr p"

text \<open>
  The progress thread runs the callbacks of all completed operations. It is there when
  \<open>pthread_create\<close> succeeded, until the shutdown flag is set; without it callbacks stay where
  they are.
\<close>

definition progress_runs :: "'x comm_scheme \<Rightarrow> bool" where
  "progress_runs p \<longleftrightarrow> progress_threads p \<noteq> 0 \<and> \<not> shutdown_flags p"

lemma progress_runs_comm [simp]:
  "progress_runs (p\<lparr>registry := r\<rparr>) = progress_runs p" "progress_runs (p\<lparr>no_response := l\<rparr>) = progress_runs p"
  by (simp_all add: progress_runs_def)

lemma progress_runs_client [simp]:
  "progress_runs (q\<lparr>tl_disable_redirect := b\<rparr>) = progress_runs q"
  "progress_runs (q\<lparr>g_disable_redirect := b\<rparr>) = progress_runs q"
  "progress_runs (q\<lparr>g_hvac_initialized := b\<rparr>) = progress_runs q"
  "progress_runs (q\<lparr>g_mercury_init := b\<rparr>) = progress_runs q"
  "progress_runs (q\<lparr>g_hvac_server_count := k\<rparr>) = progress_runs q"
  "progress_runs (q\<lparr>hvac_data_dir := dir\<rparr>) = progress_runs q"
  "progress_runs (q\<lparr>fd_map := m\<rparr>) = progress_runs q" "progress_runs (q\<lparr>fd_redir_map := m'\<rparr>) = progress_runs q"
  "progress_runs (q\<lparr>rpc_done := d\<rparr>) = progress_runs q" "progress_runs (q\<lparr>read_ret := i\<rparr>) = progress_runs q"
  "progress_runs (q\<lparr>address_cache := c\<rparr>) = progress_runs q"
  "progress_runs (q\<lparr>hvac_client_rpc_id := i\<rparr>) = progress_runs q"
  "progress_runs (q\<lparr>hvac_client_open_id := i\<rparr>) = progress_runs q"
  "progress_runs (q\<lparr>hvac_client_close_id := i\<rparr>) = progress_runs q"
  "progress_runs (q\<lparr>hvac_client_seek_id := i\<rparr>) = progress_runs q"
  "progress_runs (l4c q) = progress_runs q"
  by (simp_all add: progress_runs_def l4c_def)

lemma progress_runs_proc [simp]:
  "progress_runs (p\<lparr>os := w\<rparr>) = progress_runs p" "progress_runs (p\<lparr>net := v\<rparr>) = progress_runs p"
  "progress_runs (p\<lparr>pending := cs\<rparr>) = progress_runs p"
  by (simp_all add: progress_runs_def)

fun run_callbacks :: "bool \<Rightarrow> callback list \<Rightarrow> 'x client_scheme \<Rightarrow> 'x client_scheme outcome" where
  "run_callbacks free_ok [] p = Inr p"
| "run_callbacks free_ok (c # cs) p =
     and_then (run_callback free_ok c p) (run_callbacks free_ok cs)"

definition progress :: "('o, 'a, 'w) cenv \<Rightarrow> ('o, 'w) proc \<Rightarrow> ('o, 'w) proc outcome" where
  "progress e p = (if progress_runs p then run_callbacks (hg_free_ok e) (pending p) (p\<lparr>pending := []\<rparr>)
     else Inr p)"

text \<open>
  \<open>while (done != HG_TRUE) pthread_cond_wait(...)\<close>, once every callback has run that
  will run: nobody is left to change the flag.
\<close>

definition hvac_client_block :: "'x client_scheme \<Rightarrow> 'x client_scheme outcome" where
  "hvac_client_block p = (if rpc_done p = 1 then Inr p else Inl Blocked_forever)"

definition hvac_read_block :: "'x client_scheme \<Rightarrow> (i64 \<times> 'x client_scheme) outcome" where
  "hvac_read_block p = (if rpc_done p = 1 then Inr (read_ret p, p) else Inl Blocked_forever)"

definition hvac_seek_block :: "'x client_scheme \<Rightarrow> (i64 \<times> 'x client_scheme) outcome" where
  "hvac_seek_block p = (if rpc_done p = 1 then Inr (read_ret p, p) else Inl Blocked_forever)"

end
