(* ===== verification/Client.thy ===== *)
theory Client
  imports Client_Comm
begin

unbundle bit_operations_syntax

text \<open>
  \<open>src/hvac_client.cpp\<close>: start and shutdown of the client library, the decision which opened
  files are tracked, and the remote operations on tracked descriptors. A tracked descriptor
  is a key of \<open>fd_map\<close>, bound to the canonical path of its file.
\<close>

section \<open>Start and shutdown\<close>

text \<open>
  The library's constructor. The pid-suffixed log prefix is built first, then the server
  count is required.
\<close>

definition hvac_client_init :: "('o, 'a, 'w) cenv \<Rightarrow> ('o, 'w) proc \<Rightarrow> ('o, 'w) proc outcome" where
  "hvac_client_init e p = (if g_hvac_initialized p then Inr p
     else and_then (hvac_init_logging HVAC_CLIENT (log4c_notice e) (log4c_rc e) (getenv e) (getpid e)) (\<lambda>_.
       (case getenv e ''HVAC_SERVER_COUNT'' of
           None \<Rightarrow> Inl (Exit_process (-1))
         | Some n \<Rightarrow>
             let p1 = p\<lparr>g_hvac_server_count := atoi n\<rparr>;
                 p2 = (case getenv e ''HVAC_DATA_DIR'' of
                         Some d \<Rightarrow> p1\<lparr>hvac_data_dir := Some d\<rparr> | None \<Rightarrow> p1);
                 p3 = p2\<lparr>g_hvac_initialized := True\<rparr>
             in Inr (p3\<lparr>g_disable_redirect := False\<rparr>))))"

definition hvac_client_shutdown :: "('o, 'a, 'w) cenv \<Rightarrow> ('o, 'w) proc \<Rightarrow> ('o, 'w) proc outcome" where
  "hvac_client_shutdown e p = hvac_shutdown_comm (hgenv e) p"

section \<open>Tracking\<close>

definition hvac_file_tracked :: "'x client_scheme \<Rightarrow> cint \<Rightarrow> bool" where
  "hvac_file_tracked p fd = map_has (fd_map p) fd"

definition hvac_get_path :: "'x client_scheme \<Rightarrow> cint \<Rightarrow> path option" where
  "hvac_get_path p fd = fd_map p fd"

text \<open>
  The \<open>try\<close> block of \<open>hvac_track_file\<close>: \<open>canonical\<close> and \<open>current_path\<close> may throw, and the
  handler only logs. With a data directory the test is that its name occurs somewhere in the
  name of the file's directory.
\<close>

definition track_decision ::
  "('o, 'a, 'w) cenv \<Rightarrow> path \<Rightarrow> cint \<Rightarrow> ('o, 'w) proc \<Rightarrow> bool \<times> ('o, 'w) proc" where
  "track_decision e path fd p = (case canonical e (os p) path of
       None \<Rightarrow> (False, l4c p)
     | Some c \<Rightarrow>
         let ppath = parent_path c in
         (case hvac_data_dir p of
             Some dir \<Rightarrow> (case canonical e (os p) dir of
                 None \<Rightarrow> (False, l4c p)
               | Some test \<Rightarrow>
                   if str_contains ppath test
                   then (let p1 = l4c p in (True, p1\<lparr>fd_map := (fd_map p1)(fd \<mapsto> c)\<rparr>))
                   else (False, p))
           | None \<Rightarrow> (case current_path e (os p) of
                 None \<Rightarrow> (False, l4c p)
               | Some cwd \<Rightarrow>
                   if ppath = cwd
                   then (let p1 = l4c p in (True, p1\<lparr>fd_map := (fd_map p1)(fd \<mapsto> c)\<rparr>))
                   else (False, p))))"

text \<open>
  \<open>std::hash<std::string>{}(path) % g_hvac_server_count\<close>, a 64-bit remainder cut to an
  \<open>int\<close>; the remainder by zero is undefined.
\<close>

definition host_of :: "('o, 'a, 'w) cenv \<Rightarrow> ('o, 'w) proc \<Rightarrow> path \<Rightarrow> cint outcome" where
  "host_of e p path = (if g_hvac_server_count p = 0 then Inl Undefined_behaviour
     else Inr (to_int (strhash e path mod ucast (g_hvac_server_count p))))"

definition ensure_mercury :: "('o, 'a, 'w) cenv \<Rightarrow> ('o, 'w) proc \<Rightarrow> ('o, 'w) proc outcome" where
  "ensure_mercury e p = (if g_mercury_init p then Inr p
     else and_then (hvac_init_comm (hgenv e) (getenv e) False p) (\<lambda>p1.
          and_then (hvac_client_comm_register_rpc (hgenv e) (l4c p1)) (\<lambda>p2.
            Inr (p2\<lparr>g_mercury_init := True\<rparr>))))"

text \<open>The RPC that tells the server to open the file, and the wait for it.\<close>

definition remote_open :: "('o, 'a, 'w) cenv \<Rightarrow> cint \<Rightarrow> ('o, 'w) proc \<Rightarrow> ('o, 'w) proc outcome" where
  "remote_open e fd p =
     and_then (ensure_mercury e p) (\<lambda>p1.
     (let (path, m) = map_index [] (fd_map p1) fd; p2 = p1\<lparr>fd_map := m\<rparr> in
      and_then (host_of e p2 path) (\<lambda>host.
      and_then (hvac_client_comm_gen_open_rpc e host path fd (l4c p2)) (\<lambda>p3.
      and_then (progress e p3) hvac_client_block))))"

definition hvac_track_file ::
  "('o, 'a, 'w) cenv \<Rightarrow> path \<Rightarrow> cint \<Rightarrow> cint \<Rightarrow> ('o, 'w) proc \<Rightarrow> (bool \<times> ('o, 'w) proc) outcome" where
  "hvac_track_file e path flags fd p =
     (if str_contains path ''.ports.cfg.'' then Inr (False, p)
      else if flags AND O_ACCMODE = O_WRONLY then Inr (False, p)
      else if flags AND O_APPEND \<noteq> 0 then Inr (False, p)
      else (case track_decision e path fd p of (tracked, p1) \<Rightarrow>
             if tracked then and_then (remote_open e fd p1) (\<lambda>p2. Inr (True, p2))
             else Inr (False, p1)))"

section \<open>Operations on tracked descriptors\<close>

text \<open>Reading: sequential (offset \<open>-1\<close>) and positioned.\<close>

definition remote_read_at ::
  "('o, 'a, 'w) cenv \<Rightarrow> cint \<Rightarrow> buffer \<Rightarrow> i64 \<Rightarrow> i64 \<Rightarrow> ('o, 'w) proc
    \<Rightarrow> (i64 \<times> buffer \<times> ('o, 'w) proc) outcome" where
  "remote_read_at e fd buf count offset p =
     (if hvac_file_tracked p fd
      then (let (path, m) = map_index [] (fd_map p) fd; p1 = p\<lparr>fd_map := m\<rparr> in
        and_then (host_of e p1 path) (\<lambda>host.
        and_then (hvac_client_comm_gen_read_rpc e host fd buf count offset (l4c p1)) (\<lambda>(buf', p2).
        and_then (progress e p2) (\<lambda>p3.
        and_then (hvac_read_block p3) (\<lambda>(bytes_read, p4). Inr (bytes_read, buf', p4))))))
      else Inr (-1, buf, p))"

definition hvac_remote_read ::
  "('o, 'a, 'w) cenv \<Rightarrow> cint \<Rightarrow> buffer \<Rightarrow> i64 \<Rightarrow> ('o, 'w) proc
    \<Rightarrow> (i64 \<times> buffer \<times> ('o, 'w) proc) outcome" where
  "hvac_remote_read e fd buf count p = remote_read_at e fd buf count (-1) (l4c p)"

definition hvac_remote_pread ::
  "('o, 'a, 'w) cenv \<Rightarrow> cint \<Rightarrow> buffer \<Rightarrow> i64 \<Rightarrow> i64 \<Rightarrow> ('o, 'w) proc
    \<Rightarrow> (i64 \<times> buffer \<times> ('o, 'w) proc) outcome" where
  "hvac_remote_pread e fd buf count offset p = remote_read_at e fd buf count offset (l4c p)"

definition hvac_remote_lseek ::
  "('o, 'a, 'w) cenv \<Rightarrow> cint \<Rightarrow> cint \<Rightarrow> cint \<Rightarrow> ('o, 'w) proc \<Rightarrow> (i64 \<times> ('o, 'w) proc) outcome" where
  "hvac_remote_lseek e fd offset whence p =
     (if hvac_file_tracked p fd
      then (let (path, m) = map_index [] (fd_map p) fd; p1 = p\<lparr>fd_map := m\<rparr> in
        and_then (host_of e p1 path) (\<lambda>host.
        and_then (hvac_client_comm_gen_seek_rpc e host fd offset whence (l4c p1)) (\<lambda>p2.
        and_then (progress e p2) hvac_seek_block)))
      else Inr (-1, p))"

definition hvac_remote_close :: "('o, 'a, 'w) cenv \<Rightarrow> cint \<Rightarrow> ('o, 'w) proc \<Rightarrow> ('o, 'w) proc outcome" where
  "hvac_remote_close e fd p =
     (if hvac_file_tracked p fd
      then (let (path, m) = map_index [] (fd_map p) fd; p1 = p\<lparr>fd_map := m\<rparr> in
        and_then (host_of e p1 path) (\<lambda>host. hvac_client_comm_gen_close_rpc e host fd p1))
      else Inr p)"

definition hvac_remove_fd :: "('o, 'a, 'w) cenv \<Rightarrow> cint \<Rightarrow> ('o, 'w) proc \<Rightarrow> (bool \<times> ('o, 'w) proc) outcome" where
  "hvac_remove_fd e fd p = and_then (hvac_remote_close e fd p) (\<lambda>p1.
     Inr (map_has (fd_map p1) fd, p1\<lparr>fd_map := map_erase fd (fd_map p1)\<rparr>))"

end
