(* ===== verification/Wrappers.thy ===== *)
theory Wrappers
  imports Client
begin

unbundle bit_operations_syntax

text \<open>
  \<open>src/wrappers.c\<close>: the functions that replace those of the C library in a process that
  preloads the client library. Each first resolves the function it replaces
  (\<open>MAP_OR_FAIL\<close> of \<open>hvac_internal.h\<close>, which ends the process when there is none).
\<close>

definition MAP_OR_FAIL :: "('o, 'a, 'w) cenv \<Rightarrow> string \<Rightarrow> 'b outcome \<Rightarrow> 'b outcome" where
  "MAP_OR_FAIL e func r = (if dlsym e func then r else Inl (Exit_process 1))"

definition redirect_off :: "'x client_scheme \<Rightarrow> bool" where
  "redirect_off p \<longleftrightarrow> g_disable_redirect p \<or> tl_disable_redirect p"

section \<open>Opening\<close>

text \<open>What \<open>fopen\<close> and \<open>fopen64\<close> do after the real call.\<close>

definition track_stream ::
  "('o, 'a, 'w) cenv \<Rightarrow> path \<Rightarrow> cint option \<Rightarrow> ('o, 'w) proc \<Rightarrow> (cint option \<times> ('o, 'w) proc) outcome" where
  "track_stream e path ptr p = (case ptr of
       None \<Rightarrow> Inr (None, p)
     | Some fd \<Rightarrow> and_then (hvac_track_file e path O_RDONLY fd p) (\<lambda>(t, p1).
         Inr (Some fd, if t then l4c p1 else p1)))"

definition wrap_fopen ::
  "('o, 'a, 'w) cenv \<Rightarrow> path \<Rightarrow> string \<Rightarrow> ('o, 'w) proc \<Rightarrow> (cint option \<times> ('o, 'w) proc) outcome" where
  "wrap_fopen e path mode p = MAP_OR_FAIL e ''fopen''
     (case real_fopen e path mode (os p) of (ptr, w) \<Rightarrow>
        if redirect_off p then Inr (ptr, p\<lparr>os := w\<rparr>)
        else track_stream e path ptr (p\<lparr>os := w\<rparr>))"

definition wrap_fopen64 ::
  "('o, 'a, 'w) cenv \<Rightarrow> path \<Rightarrow> string \<Rightarrow> ('o, 'w) proc \<Rightarrow> (cint option \<times> ('o, 'w) proc) outcome" where
  "wrap_fopen64 e path mode p = MAP_OR_FAIL e ''fopen64''
     (case real_fopen64 e path mode (os p) of (ptr, w) \<Rightarrow>
        if redirect_off p then Inr (ptr, p\<lparr>os := w\<rparr>)
        else track_stream e path ptr (p\<lparr>os := w\<rparr>))"

definition track_fd ::
  "('o, 'a, 'w) cenv \<Rightarrow> path \<Rightarrow> cint \<Rightarrow> cint \<Rightarrow> ('o, 'w) proc \<Rightarrow> (cint \<times> ('o, 'w) proc) outcome" where
  "track_fd e path flags ret p = (if ret \<noteq> -1
     then and_then (hvac_track_file e path flags ret p) (\<lambda>(t, p1). Inr (ret, if t then l4c p1 else p1))
     else Inr (ret, p))"

text \<open>The mode argument is read only with \<open>O_CREAT\<close>, and is 0 otherwise.\<close>

definition wrap_open ::
  "('o, 'a, 'w) cenv \<Rightarrow> path \<Rightarrow> cint \<Rightarrow> cint \<Rightarrow> ('o, 'w) proc \<Rightarrow> (cint \<times> ('o, 'w) proc) outcome" where
  "wrap_open e pathname flags mode_arg p =
     (let mode = (if flags AND O_CREAT \<noteq> 0 then mode_arg else 0)
      in MAP_OR_FAIL e ''open''
           (case real_open e pathname flags mode (os p) of (ret, w) \<Rightarrow>
              if redirect_off p then Inr (ret, p\<lparr>os := w\<rparr>)
              else track_fd e pathname flags ret (p\<lparr>os := w\<rparr>)))"

definition wrap_open64 ::
  "('o, 'a, 'w) cenv \<Rightarrow> path \<Rightarrow> cint \<Rightarrow> cint \<Rightarrow> ('o, 'w) proc \<Rightarrow> (cint \<times> ('o, 'w) proc) outcome" where
  "wrap_open64 e pathname flags mode_arg p =
     (let mode = (if flags AND O_CREAT \<noteq> 0 then mode_arg else 0)
      in MAP_OR_FAIL e ''open64''
           (if redirect_off p
            then (case real_open64 e pathname flags (Some mode) (os p) of (ret, w) \<Rightarrow>
                    Inr (ret, p\<lparr>os := w\<rparr>))
            else (case real_open64 e pathname flags (if mode \<noteq> 0 then Some mode else None) (os p)
                  of (ret, w) \<Rightarrow> track_fd e pathname flags ret (p\<lparr>os := w\<rparr>))))"

section \<open>Closing\<close>

definition wrap_close :: "('o, 'a, 'w) cenv \<Rightarrow> cint \<Rightarrow> ('o, 'w) proc \<Rightarrow> (cint \<times> ('o, 'w) proc) outcome" where
  "wrap_close e fd p = MAP_OR_FAIL e ''close''
     (if redirect_off p
      then (case real_close e fd (os p) of (r, w) \<Rightarrow> Inr (r, p\<lparr>os := w\<rparr>))
      else and_then
        (case hvac_get_path p fd of
            None \<Rightarrow> Inr p
          | Some path \<Rightarrow> and_then (hvac_remove_fd e fd (l4c p)) (\<lambda>(_, p1). Inr p1))
        (\<lambda>p2. case real_close e fd (os p2) of (ret, w) \<Rightarrow>
           if ret \<noteq> 0 then Inr (ret, l4c (p2\<lparr>os := w\<rparr>)) else Inr (ret, p2\<lparr>os := w\<rparr>)))"

section \<open>Reading and writing\<close>

text \<open>The local variable of \<open>read\<close> is an \<open>int\<close>; it falls back to the real call on \<open>-1\<close>.\<close>

definition wrap_read ::
  "('o, 'a, 'w) cenv \<Rightarrow> cint \<Rightarrow> buffer \<Rightarrow> i64 \<Rightarrow> ('o, 'w) proc
    \<Rightarrow> (i64 \<times> buffer \<times> ('o, 'w) proc) outcome" where
  "wrap_read e fd buf count p = MAP_OR_FAIL e ''read''
     (case hvac_get_path p fd of
         None \<Rightarrow> (case real_read e fd buf count (os p) of (r, buf', w) \<Rightarrow>
             Inr (to_i64 (to_int r), buf', p\<lparr>os := w\<rparr>))
       | Some path \<Rightarrow> and_then (hvac_remote_read e fd buf count p) (\<lambda>(r, buf1, p1).
           let ret = to_int r; p2 = l4c p1
           in if ret = -1
              then (case real_read e fd buf1 count (os p2) of (r', buf2, w) \<Rightarrow>
                     Inr (to_i64 (to_int r'), buf2, p2\<lparr>os := w\<rparr>))
              else Inr (to_i64 ret, buf1, p2)))"

definition wrap_pread ::
  "('o, 'a, 'w) cenv \<Rightarrow> cint \<Rightarrow> buffer \<Rightarrow> i64 \<Rightarrow> i64 \<Rightarrow> ('o, 'w) proc
    \<Rightarrow> (i64 \<times> buffer \<times> ('o, 'w) proc) outcome" where
  "wrap_pread e fd buf count offset p = MAP_OR_FAIL e ''pread''
     (case hvac_get_path p fd of
         Some path \<Rightarrow> hvac_remote_pread e fd buf count offset (l4c p)
       | None \<Rightarrow> (case real_pread e fd buf count offset (os p) of (r, buf', w) \<Rightarrow>
           Inr (r, buf', p\<lparr>os := w\<rparr>)))"

definition wrap_read64 ::
  "('o, 'a, 'w) cenv \<Rightarrow> cint \<Rightarrow> buffer \<Rightarrow> i64 \<Rightarrow> ('o, 'w) proc
    \<Rightarrow> (i64 \<times> buffer \<times> ('o, 'w) proc) outcome" where
  "wrap_read64 e fd buf count p = MAP_OR_FAIL e ''read64''
     (let p1 = (case hvac_get_path p fd of Some _ \<Rightarrow> l4c p | None \<Rightarrow> p)
      in (case real_read64 e fd buf count (os p1) of (r, buf', w) \<Rightarrow> Inr (r, buf', p1\<lparr>os := w\<rparr>)))"

text \<open>The code after the first \<open>return\<close> of \<open>write\<close> is never reached.\<close>

definition wrap_write ::
  "('o, 'a, 'w) cenv \<Rightarrow> cint \<Rightarrow> buffer \<Rightarrow> i64 \<Rightarrow> ('o, 'w) proc \<Rightarrow> (i64 \<times> ('o, 'w) proc) outcome" where
  "wrap_write e fd buf count p = MAP_OR_FAIL e ''write''
     (case real_write e fd buf count (os p) of (r, w) \<Rightarrow> Inr (r, p\<lparr>os := w\<rparr>))"

definition wrap_readv ::
  "('o, 'a, 'w) cenv \<Rightarrow> cint \<Rightarrow> buffer list \<Rightarrow> ('o, 'w) proc
    \<Rightarrow> (i64 \<times> buffer list \<times> ('o, 'w) proc) outcome" where
  "wrap_readv e fd iov p = MAP_OR_FAIL e ''readv''
     (let p1 = (case hvac_get_path p fd of Some _ \<Rightarrow> l4c p | None \<Rightarrow> p)
      in (case real_readv e fd iov (os p1) of (r, iov', w) \<Rightarrow> Inr (r, iov', p1\<lparr>os := w\<rparr>)))"

section \<open>Seeking\<close>

text \<open>The remote call takes an \<open>int\<close>: the offset is cut to 32 bits.\<close>

definition wrap_lseek ::
  "('o, 'a, 'w) cenv \<Rightarrow> cint \<Rightarrow> i64 \<Rightarrow> cint \<Rightarrow> ('o, 'w) proc \<Rightarrow> (i64 \<times> ('o, 'w) proc) outcome" where
  "wrap_lseek e fd offset whence p = MAP_OR_FAIL e ''lseek''
     (if redirect_off p
      then (case real_lseek e fd offset whence (os p) of (r, w) \<Rightarrow> Inr (r, p\<lparr>os := w\<rparr>))
      else if hvac_file_tracked p fd
      then hvac_remote_lseek e fd (to_int offset) whence (l4c p)
      else (case real_lseek e fd offset whence (os p) of (r, w) \<Rightarrow> Inr (r, p\<lparr>os := w\<rparr>)))"

definition wrap_lseek64 ::
  "('o, 'a, 'w) cenv \<Rightarrow> cint \<Rightarrow> i64 \<Rightarrow> cint \<Rightarrow> ('o, 'w) proc \<Rightarrow> (i64 \<times> ('o, 'w) proc) outcome" where
  "wrap_lseek64 e fd offset whence p = MAP_OR_FAIL e ''lseek64''
     (if redirect_off p
      then (case real_lseek64 e fd offset whence (os p) of (r, w) \<Rightarrow> Inr (r, p\<lparr>os := w\<rparr>))
      else if hvac_file_tracked p fd
      then hvac_remote_lseek e fd (to_int offset) whence (l4c p)
      else (case real_lseek64 e fd offset whence (os p) of (r, w) \<Rightarrow> Inr (r, p\<lparr>os := w\<rparr>)))"

end
