(* ===== verification/Client_Facts.thy ===== *)
theory Client_Facts
  imports Wrappers
begin

text \<open>
  What the client's operations do, given how Mercury answers the one RPC each of them makes.
  A tracked descriptor is linked when the server of its path and its remote descriptor are
  known, which is the state a successful open leaves behind.
\<close>

section \<open>Linked descriptors\<close>

definition host_index :: "('o, 'a, 'w) cenv \<Rightarrow> 'x client_scheme \<Rightarrow> path \<Rightarrow> cint" where
  "host_index e p path = to_int (strhash e path mod ucast (g_hvac_server_count p))"

definition server_name :: "('o, 'a, 'w) cenv \<Rightarrow> 'x client_scheme \<Rightarrow> path \<Rightarrow> string option" where
  "server_name e p path = address_cache p (host_index e p path)"

text \<open>The server and the remote descriptor behind a local one, when all links are known.\<close>

definition remote_end :: "('o, 'a, 'w) cenv \<Rightarrow> ('o, 'w) proc \<Rightarrow> cint \<Rightarrow> ('a \<times> cint) option" where
  "remote_end e p fd =
     (if g_hvac_server_count p = 0 \<or> pending p \<noteq> [] \<or> \<not> progress_runs p then None
      else (case fd_map p fd of None \<Rightarrow> None
        | Some path \<Rightarrow> (case server_name e p path of None \<Rightarrow> None
            | Some str \<Rightarrow> (case hg_lookup e str of None \<Rightarrow> None
                | Some a \<Rightarrow> (case fd_redir_map p fd of None \<Rightarrow> None
                    | Some rfd \<Rightarrow> Some (a, rfd))))))"

lemma remote_end_SomeD:
  assumes "remote_end e p fd = Some (a, rfd)"
  shows "g_hvac_server_count p \<noteq> 0 \<and> pending p = [] \<and> progress_runs p \<and> fd_redir_map p fd = Some rfd \<and>
    (\<exists>path str. fd_map p fd = Some path \<and> address_cache p (host_index e p path) = Some str \<and>
       hg_lookup e str = Some a)"
  using assms by (auto simp: remote_end_def server_name_def split: if_splits option.splits)

lemma remote_end_cong:
  "g_hvac_server_count q = g_hvac_server_count p \<Longrightarrow> pending q = pending p \<Longrightarrow>
   progress_runs q = progress_runs p \<Longrightarrow> fd_map q fd = fd_map p fd \<Longrightarrow> address_cache q = address_cache p \<Longrightarrow>
   fd_redir_map q fd = fd_redir_map p fd \<Longrightarrow> remote_end e q fd = remote_end e p fd"
  by (simp add: remote_end_def server_name_def host_index_def cong: option.case_cong)

lemma remote_end_tracked: "remote_end e p fd = Some x \<Longrightarrow> hvac_file_tracked p fd"
  by (auto simp: remote_end_def hvac_file_tracked_def map_has_def split: if_splits option.splits)

lemma host_of_index: "g_hvac_server_count p \<noteq> 0 \<Longrightarrow> host_of e p path = Inr (host_index e p path)"
  by (simp add: host_of_def host_index_def)

lemma host_of_cong [simp]:
  "host_of e (p\<lparr>tl_disable_redirect := b\<rparr>) path = host_of e p path"
  "host_of e (p\<lparr>fd_map := m\<rparr>) path = host_of e p path"
  by (simp_all add: host_of_def)

lemma lookup_addr_cached:
  "address_cache p rank = Some s \<Longrightarrow> hg_lookup e s = Some a \<Longrightarrow>
   hvac_client_comm_lookup_addr e rank p = Inr (a, p)"
  by (simp add: hvac_client_comm_lookup_addr_def)

text \<open>Mercury's local calls on the client succeed.\<close>

definition mercury_ok :: "('o, 'a, 'w) cenv \<Rightarrow> bool" where
  "mercury_ok e \<longleftrightarrow> hg_create_ok e \<and> hg_free_ok e \<and> (\<forall>n. hg_bulk_ok e n)"

lemma forward_rpc_reply:
  "mercury_ok e \<Longrightarrow> hg_forward e a rid inp (net p) = (r, w) \<Longrightarrow> r \<noteq> Forward_failed \<Longrightarrow>
   forward_rpc e a rid inp p = Inr (r, p\<lparr>net := w\<rparr>)"
  by (simp add: forward_rpc_def mercury_ok_def)

section \<open>One RPC, answered\<close>

text \<open>The state after a read or seek that was answered with \<open>out\<close>.\<close>

definition after_read :: "i64 \<Rightarrow> 'w \<Rightarrow> ('o, 'w) proc \<Rightarrow> ('o, 'w) proc" where
  "after_read r w p = p\<lparr>tl_disable_redirect := False, rpc_done := 1, read_ret := r, net := w\<rparr>"

lemma after_read_simps [simp]:
  "net (after_read r w p) = w" "fd_map (after_read r w p) = fd_map p"
  "fd_redir_map (after_read r w p) = fd_redir_map p" "os (after_read r w p) = os p"
  "hvac_client_rpc_id (after_read r w p) = hvac_client_rpc_id p"
  "hvac_client_seek_id (after_read r w p) = hvac_client_seek_id p"
  "hvac_client_close_id (after_read r w p) = hvac_client_close_id p"
  "hvac_client_open_id (after_read r w p) = hvac_client_open_id p"
  "g_disable_redirect (after_read r w p) = g_disable_redirect p"
  by (simp_all add: after_read_def)

lemma remote_end_after_read [simp]: "remote_end e (after_read r w p) fd = remote_end e p fd"
  by (rule remote_end_cong) (simp_all add: after_read_def)

lemma l4c_simps [simp]:
  "fd_map (l4c p) = fd_map p" "fd_redir_map (l4c p) = fd_redir_map p"
  "address_cache (l4c p) = address_cache p" "g_hvac_server_count (l4c p) = g_hvac_server_count p"
  "tl_disable_redirect (l4c p) = False" "g_disable_redirect (l4c p) = g_disable_redirect p"
  "hvac_data_dir (l4c p) = hvac_data_dir p" "g_mercury_init (l4c p) = g_mercury_init p"
  "l4c (l4c p) = l4c p"
  "hvac_client_rpc_id (l4c p) = hvac_client_rpc_id p"
  "hvac_client_open_id (l4c p) = hvac_client_open_id p"
  "hvac_client_close_id (l4c p) = hvac_client_close_id p"
  "hvac_client_seek_id (l4c p) = hvac_client_seek_id p"
  by (simp_all add: l4c_def)

lemma l4c_proc_simps [simp]:
  "os (l4c q) = os q" "net (l4c q) = net q" "pending (l4c q) = pending q"
  "after_read r w (l4c q) = after_read r w q" "l4c (after_read r w q) = after_read r w q"
  for q :: "('o, 'w) proc"
  by (simp_all add: l4c_def after_read_def)

lemma remote_end_l4c [simp]: "remote_end e (l4c p) fd = remote_end e p fd"
  by (rule remote_end_cong) simp_all

text \<open>The request of a read on a linked descriptor, whatever becomes of it.\<close>

lemma gen_read_rpc_linked:
  assumes "remote_end e p fd = Some (a, rfd)" and "mercury_ok e"
    and "hg_forward e a (hvac_client_rpc_id p)
      (Read_in \<lparr>input_val = to_int count, bulk_handle = count, accessfd = rfd, in_offset = off\<rparr>)
      (net p) = (r, w)" and "r \<noteq> Forward_failed" and "fd_map p fd = Some path"
  shows "hvac_client_comm_gen_read_rpc e (host_index e p path) fd (Some mem) count off (l4c p)
    = Inr (Some (case r of Reply _ _ data \<Rightarrow> overlay data mem | _ \<Rightarrow> mem),
        p\<lparr>tl_disable_redirect := False, rpc_done := 0, read_ret := -1, net := w,
          pending := [Cb_read r]\<rparr>)"
proof -
  from remote_end_SomeD [OF assms(1)] assms(5) obtain str where
    l: "pending p = []" "fd_redir_map p fd = Some rfd"
       "address_cache p (host_index e p path) = Some str" "hg_lookup e str = Some a" by auto
  define q where "q = p\<lparr>tl_disable_redirect := False, rpc_done := 0, read_ret := -1\<rparr>"
  have "hvac_client_comm_lookup_addr e (host_index e p path) q = Inr (a, q)"
    by (rule lookup_addr_cached [where s = str]) (simp_all add: q_def l)
  moreover have "forward_rpc e a (hvac_client_rpc_id p) (Read_in \<lparr>input_val = to_int count,
      bulk_handle = count, accessfd = rfd, in_offset = off\<rparr>) q = Inr (r, q\<lparr>net := w\<rparr>)"
    by (rule forward_rpc_reply) (use assms in \<open>simp_all add: q_def\<close>)
  ultimately show ?thesis
    using assms(2)
    by (simp add: hvac_client_comm_gen_read_rpc_def l4c_def q_def mercury_ok_def l)
qed

lemma remote_read_at_linked:
  assumes "remote_end e p fd = Some (a, rfd)" and "mercury_ok e"
    and "hg_forward e a (hvac_client_rpc_id p)
      (Read_in \<lparr>input_val = to_int count, bulk_handle = count, accessfd = rfd, in_offset = off\<rparr>)
      (net p) = (r, w)" and "r \<noteq> Forward_failed"
  shows "remote_read_at e fd (Some mem) count off p
    = and_then (run_callback True (Cb_read r)
        (p\<lparr>tl_disable_redirect := False, rpc_done := 0, read_ret := -1, net := w, pending := []\<rparr>))
      (\<lambda>p3. and_then (hvac_read_block p3) (\<lambda>(n, p4).
        Inr (n, Some (case r of Reply _ _ data \<Rightarrow> overlay data mem | _ \<Rightarrow> mem), p4)))"
proof -
  from remote_end_SomeD [OF assms(1)] obtain path where
    l: "g_hvac_server_count p \<noteq> 0" "fd_map p fd = Some path" "progress_runs p" by blast
  with gen_read_rpc_linked [OF assms l(2)] assms(2) remote_end_tracked [OF assms(1)] show ?thesis
    by (simp add: remote_read_at_def host_of_index progress_def and_then_assoc mercury_ok_def
        split del: if_split)
qed

lemma remote_read_at_reply:
  assumes "remote_end e p fd = Some (a, rfd)" and "mercury_ok e"
    and "hg_forward e a (hvac_client_rpc_id p)
      (Read_in \<lparr>input_val = to_int count, bulk_handle = count, accessfd = rfd, in_offset = off\<rparr>)
      (net p) = (Reply 0 out data, w)"
  shows "remote_read_at e fd (Some mem) count off p
    = Inr (to_i64 out, Some (overlay data mem), after_read (to_i64 out) w p)"
  using remote_read_at_linked [OF assms] remote_end_SomeD [OF assms(1)]
  by (simp add: hvac_read_cb_def hvac_read_block_def after_read_def)

text \<open>A request that nobody answers: the callback never runs, and the wait never ends.\<close>

lemma remote_read_at_unanswered:
  assumes "remote_end e p fd = Some (a, rfd)" and "mercury_ok e"
    and "hg_forward e a (hvac_client_rpc_id p)
      (Read_in \<lparr>input_val = to_int count, bulk_handle = count, accessfd = rfd, in_offset = off\<rparr>)
      (net p) = (No_reply, w)"
  shows "remote_read_at e fd (Some mem) count off p = Inl Blocked_forever"
  using remote_read_at_linked [OF assms] by (simp add: hvac_read_block_def)

text \<open>The read wrapper on a linked descriptor. The switches that turn redirection off play no part.\<close>

lemma wrap_read_reply:
  assumes "remote_end e p fd = Some (a, rfd)" and "mercury_ok e" and "dlsym e ''read''"
    and "hg_forward e a (hvac_client_rpc_id p)
      (Read_in \<lparr>input_val = to_int count, bulk_handle = count, accessfd = rfd, in_offset = -1\<rparr>)
      (net p) = (Reply 0 out data, w)" and "out \<noteq> -1"
  shows "wrap_read e fd (Some mem) count p
    = Inr (to_i64 out, Some (overlay data mem), after_read (to_i64 out) w p)"
proof -
  have "remote_read_at e fd (Some mem) count (-1) (l4c p)
      = Inr (to_i64 out, Some (overlay data mem), after_read (to_i64 out) w p)"
    using remote_read_at_reply [of e "l4c p" fd a rfd count "-1" out data w mem] assms by simp
  with assms(3,5) remote_end_SomeD [OF assms(1)] show ?thesis
    by (auto simp: wrap_read_def MAP_OR_FAIL_def hvac_get_path_def hvac_remote_read_def Let_def)
qed

lemma wrap_read_unanswered:
  assumes "remote_end e p fd = Some (a, rfd)" and "mercury_ok e" and "dlsym e ''read''"
    and "hg_forward e a (hvac_client_rpc_id p)
      (Read_in \<lparr>input_val = to_int count, bulk_handle = count, accessfd = rfd, in_offset = -1\<rparr>)
      (net p) = (No_reply, w)"
  shows "wrap_read e fd (Some mem) count p = Inl Blocked_forever"
proof -
  have "remote_read_at e fd (Some mem) count (-1) (l4c p) = Inl Blocked_forever"
    using remote_read_at_unanswered [of e "l4c p" fd a rfd count "-1" w mem] assms by simp
  with assms(3) remote_end_SomeD [OF assms(1)] show ?thesis
    by (auto simp: wrap_read_def MAP_OR_FAIL_def hvac_get_path_def hvac_remote_read_def)
qed

lemma remote_lseek_linked:
  assumes "remote_end e p fd = Some (a, rfd)" and "mercury_ok e"
    and "hg_forward e a (hvac_client_seek_id p)
      (Seek_in \<lparr>seek_fd = rfd, seek_offset = off, seek_whence = wh\<rparr>) (net p) = (r, w)"
    and "r \<noteq> Forward_failed"
  shows "hvac_remote_lseek e fd off wh p
    = and_then (run_callback True (Cb_seek r)
        (p\<lparr>tl_disable_redirect := False, read_ret := -1, rpc_done := 0, net := w, pending := []\<rparr>))
      hvac_seek_block"
proof -
  from remote_end_SomeD [OF assms(1)] obtain path str where
    l: "g_hvac_server_count p \<noteq> 0" "pending p = []" "fd_redir_map p fd = Some rfd"
       "fd_map p fd = Some path" "address_cache p (host_index e p path) = Some str"
       "hg_lookup e str = Some a" "progress_runs p" by blast
  have t: "hvac_file_tracked p fd" using assms(1) by (rule remote_end_tracked)
  define q where "q = p\<lparr>tl_disable_redirect := False, read_ret := -1, rpc_done := 0\<rparr>"
  have "hvac_client_comm_lookup_addr e (host_index e p path) q = Inr (a, q)"
    by (rule lookup_addr_cached [where s = str]) (simp_all add: q_def l)
  moreover have "forward_rpc e a (hvac_client_seek_id p)
      (Seek_in \<lparr>seek_fd = rfd, seek_offset = off, seek_whence = wh\<rparr>) q = Inr (r, q\<lparr>net := w\<rparr>)"
    by (rule forward_rpc_reply) (use assms in \<open>simp_all add: q_def\<close>)
  ultimately have "hvac_client_comm_gen_seek_rpc e (host_index e p path) fd off wh (l4c p)
      = Inr (q\<lparr>net := w, pending := [Cb_seek r]\<rparr>)"
    by (simp add: hvac_client_comm_gen_seek_rpc_def l4c_def q_def l)
  then show ?thesis using t l assms(2)
    by (simp add: hvac_remote_lseek_def host_of_index q_def progress_def and_then_assoc
        mercury_ok_def)
qed

lemma remote_lseek_reply:
  assumes "remote_end e p fd = Some (a, rfd)" and "mercury_ok e"
    and "hg_forward e a (hvac_client_seek_id p)
      (Seek_in \<lparr>seek_fd = rfd, seek_offset = off, seek_whence = wh\<rparr>) (net p) = (Reply 0 out data, w)"
  shows "hvac_remote_lseek e fd off wh p = Inr (to_i64 out, after_read (to_i64 out) w p)"
  using remote_lseek_linked [OF assms] remote_end_SomeD [OF assms(1)]
  by (simp add: hvac_seek_cb_def hvac_seek_block_def after_read_def)

lemma remove_fd_reply:
  assumes "remote_end e p fd = Some (a, rfd)" and "mercury_ok e"
    and "hg_forward e a (hvac_client_close_id p) (Close_in \<lparr>close_fd = rfd\<rparr>) (net p) = (r, w)"
    and "r \<noteq> Forward_failed"
  shows "hvac_remove_fd e fd p = Inr (True, p\<lparr>net := w,
    fd_redir_map := (fd_redir_map p)(fd := None), fd_map := (fd_map p)(fd := None)\<rparr>)"
proof -
  from remote_end_SomeD [OF assms(1)] obtain path str where
    l: "g_hvac_server_count p \<noteq> 0" "pending p = []" "fd_redir_map p fd = Some rfd"
       "fd_map p fd = Some path" "address_cache p (host_index e p path) = Some str"
       "hg_lookup e str = Some a" "progress_runs p" by blast
  have t: "hvac_file_tracked p fd" using assms(1) by (rule remote_end_tracked)
  have "hvac_client_comm_lookup_addr e (host_index e p path) p = Inr (a, p)"
    by (rule lookup_addr_cached [where s = str]) (simp_all add: l)
  moreover have "forward_rpc e a (hvac_client_close_id p) (Close_in \<lparr>close_fd = rfd\<rparr>) p
      = Inr (r, p\<lparr>net := w\<rparr>)"
    by (rule forward_rpc_reply) (use assms in simp_all)
  ultimately show ?thesis using t l
    by (simp add: hvac_remove_fd_def hvac_remote_close_def hvac_client_comm_gen_close_rpc_def
        host_of_index map_erase_def map_has_def)
qed

text \<open>A lookup that succeeds caches the server's address and changes nothing else.\<close>

lemma lookup_addr_frame:
  assumes "hvac_client_comm_lookup_addr e rank p = Inr (a, q)"
  shows "\<exists>tl c str. q = p\<lparr>tl_disable_redirect := tl, address_cache := c\<rparr> \<and> c rank = Some str \<and>
    hg_lookup e str = Some a \<and> (\<forall>k. k \<noteq> rank \<longrightarrow> c k = address_cache p k)"
proof (cases "address_cache p rank")
  case (Some s)
  with assms have "q = p" and "hg_lookup e s = Some a"
    by (auto simp: hvac_client_comm_lookup_addr_def split: option.splits)
  then have "q = p\<lparr>tl_disable_redirect := tl_disable_redirect p, address_cache := address_cache p\<rparr>"
    by simp
  with Some \<open>hg_lookup e s = Some a\<close> show ?thesis by blast
next
  case None
  with assms obtain s where "q = (l4c p)\<lparr>address_cache := (address_cache p)(rank \<mapsto> s)\<rparr>"
    and "hg_lookup e s = Some a"
    by (auto simp: hvac_client_comm_lookup_addr_def hvac_result Let_def split: option.splits)
  then show ?thesis
    by (intro exI [of _ False] exI [of _ "(address_cache p)(rank \<mapsto> s)"] exI [of _ s])
      (simp add: l4c_def)
qed

text \<open>A second lookup of the same rank reads no file and gives the same address.\<close>

lemma lookup_addr_again:
  assumes "hvac_client_comm_lookup_addr e rank p = Inr (a, q)"
  shows "hvac_client_comm_lookup_addr e rank q = Inr (a, q)"
proof -
  from lookup_addr_frame [OF assms] obtain tl c str
    where q: "q = p\<lparr>tl_disable_redirect := tl, address_cache := c\<rparr>"
      and c: "c rank = Some str" and a: "hg_lookup e str = Some a" by blast
  show ?thesis by (rule lookup_addr_cached [OF _ a]) (simp add: q c)
qed

text \<open>Opening: after the answer the descriptor is linked to the server's descriptor.\<close>

lemma remote_open_reply:
  assumes "ensure_mercury e p = Inr p1" and "mercury_ok e" and "g_hvac_server_count p1 \<noteq> 0"
    and "pending p1 = []" and "fd_map p1 fd = Some path"
    and "hvac_client_comm_lookup_addr e (host_index e p1 path) ((l4c p1)\<lparr>rpc_done := 0\<rparr>) = Inr (a, q)"
    and "hg_forward e a (hvac_client_open_id p1) (Open_in \<lparr>in_path = path\<rparr>) (net p1)
      = (Reply 0 out data, w)" and "progress_runs p1"
  shows "\<exists>p2. remote_open e fd p = Inr p2 \<and> remote_end e p2 fd = Some (a, out) \<and> net p2 = w \<and>
    fd_map p2 = fd_map p1 \<and> fd_redir_map p2 = (fd_redir_map p1)(fd \<mapsto> out) \<and> os p2 = os p1 \<and>
    (\<forall>fd'. fd' \<noteq> fd \<longrightarrow> remote_end e p1 fd' \<noteq> None \<longrightarrow> remote_end e p2 fd' = remote_end e p1 fd')"
proof -
  from lookup_addr_frame [OF assms(6)] obtain tl c str
    where q: "q = (l4c p1)\<lparr>rpc_done := 0, tl_disable_redirect := tl, address_cache := c\<rparr>"
      and c: "c (host_index e p1 path) = Some str" "hg_lookup e str = Some a"
        "\<And>k. k \<noteq> host_index e p1 path \<Longrightarrow> c k = address_cache p1 k" by auto
  have "forward_rpc e a (hvac_client_open_id p1) (Open_in \<lparr>in_path = path\<rparr>) q
      = Inr (Reply 0 out data, q\<lparr>net := w\<rparr>)"
    by (rule forward_rpc_reply) (use assms in \<open>simp_all add: q l4c_def\<close>)
  then have gen: "hvac_client_comm_gen_open_rpc e (host_index e p1 path) path fd (l4c p1)
      = Inr (q\<lparr>net := w, pending := [Cb_open fd (Reply 0 out data)]\<rparr>)"
    using assms(4,6) by (simp add: hvac_client_comm_gen_open_rpc_def q l4c_def)
  define p2 where "p2 = q\<lparr>net := w, fd_redir_map := (fd_redir_map p1)(fd \<mapsto> out), rpc_done := 1\<rparr>"
  have "remote_open e fd p = Inr p2"
    using assms(1,3,4,5,8) gen
    by (simp add: remote_open_def host_of_index progress_def hvac_open_cb_def hvac_client_block_def
        p2_def q l4c_def)
  moreover have "remote_end e p2 fd = Some (a, out)"
    using assms(3,4,5,8) c by (simp add: remote_end_def p2_def q l4c_def server_name_def host_index_def)
  moreover have "remote_end e p2 fd' = remote_end e p1 fd'"
    if other: "fd' \<noteq> fd" and linked: "remote_end e p1 fd' \<noteq> None" for fd'
  proof -
    from linked obtain a' rfd' where r: "remote_end e p1 fd' = Some (a', rfd')" by force
    from remote_end_SomeD [OF r] obtain path' str' where
      l: "fd_redir_map p1 fd' = Some rfd'" "fd_map p1 fd' = Some path'"
        "address_cache p1 (host_index e p1 path') = Some str'" "hg_lookup e str' = Some a'" by blast
    have "\<exists>str''. c (host_index e p1 path') = Some str'' \<and> hg_lookup e str'' = Some a'"
    proof (cases "host_index e p1 path' = host_index e p1 path")
      case True
      with l(3,4) assms(6) c(1,2) show ?thesis
        by (auto simp: hvac_client_comm_lookup_addr_def l4c_def split: option.splits)
    next
      case False
      with c(3) l show ?thesis by simp
    qed
    with r l assms(3,4,8) other show ?thesis
      by (auto simp: remote_end_def p2_def q l4c_def server_name_def host_index_def)
  qed
  ultimately show ?thesis
    by (intro exI [of _ p2]) (simp add: p2_def q l4c_def)
qed

text \<open>No call of the client changes the RPC identifiers or the global switch once Mercury runs.\<close>

definition same_ids :: "'x client_scheme \<Rightarrow> 'y client_scheme \<Rightarrow> bool" where
  "same_ids p q \<longleftrightarrow> hvac_client_open_id q = hvac_client_open_id p \<and>
     hvac_client_rpc_id q = hvac_client_rpc_id p \<and> hvac_client_close_id q = hvac_client_close_id p \<and>
     hvac_client_seek_id q = hvac_client_seek_id p \<and> g_disable_redirect q = g_disable_redirect p \<and>
     hvac_data_dir q = hvac_data_dir p \<and> g_mercury_init q = g_mercury_init p \<and>
     g_hvac_server_count q = g_hvac_server_count p \<and> (progress_runs q \<longleftrightarrow> progress_runs p)"

lemma same_ids_l4c [simp]: "same_ids p (l4c q) = same_ids p q" "same_ids (l4c p) q = same_ids p q"
  by (simp_all add: same_ids_def l4c_def)

lemma same_ids_refl [simp]: "same_ids p p"
  by (simp add: same_ids_def)

lemma same_ids_trans: "same_ids p q \<Longrightarrow> same_ids q r \<Longrightarrow> same_ids p r"
  by (simp add: same_ids_def)

lemma run_callback_same_ids: "run_callback ok c p = Inr q \<Longrightarrow> same_ids p q"
  by (cases "(ok, c, p)" rule: run_callback.cases)
    (auto simp: hvac_open_cb_def hvac_read_cb_def hvac_seek_cb_def same_ids_def hvac_result Let_def
      split: if_splits)

lemma run_callbacks_same_ids: "run_callbacks ok cs p = Inr q \<Longrightarrow> same_ids p q"
proof (induction cs arbitrary: p)
  case Nil
  then show ?case by (simp add: same_ids_def)
next
  case (Cons c cs)
  then obtain r where "run_callback ok c p = Inr r" and "run_callbacks ok cs r = Inr q"
    by (auto simp: and_then_eq_Inr)
  with Cons.IH show ?case by (blast intro: same_ids_trans run_callback_same_ids)
qed

lemma progress_same_ids: "progress e p = Inr q \<Longrightarrow> same_ids p q"
  by (auto simp: progress_def same_ids_def split: if_splits dest!: run_callbacks_same_ids)

lemma forward_rpc_same_ids: "forward_rpc e a rid inp p = Inr (r, q) \<Longrightarrow> same_ids p q"
  by (auto simp: forward_rpc_def same_ids_def hvac_result split: prod.splits)

lemma lookup_addr_same_ids: "hvac_client_comm_lookup_addr e rank p = Inr (a, q) \<Longrightarrow> same_ids p q"
  by (drule lookup_addr_frame) (auto simp: same_ids_def)

lemma gen_open_same_ids:
  "hvac_client_comm_gen_open_rpc e h path fd p = Inr q \<Longrightarrow> same_ids p q"
  by (auto simp: hvac_client_comm_gen_open_rpc_def and_then_eq_Inr same_ids_def
      dest!: lookup_addr_same_ids forward_rpc_same_ids)

lemma remote_open_frame:
  assumes "ensure_mercury e p = Inr p1" and "remote_open e fd p = Inr p2"
  shows "same_ids p1 p2"
proof -
  obtain q r where "hvac_client_comm_gen_open_rpc e
      (case host_of e (p1\<lparr>fd_map := snd (map_index [] (fd_map p1) fd)\<rparr>) (fst (map_index [] (fd_map p1) fd))
       of Inr h \<Rightarrow> h | Inl _ \<Rightarrow> 0) (fst (map_index [] (fd_map p1) fd)) fd
      (l4c (p1\<lparr>fd_map := snd (map_index [] (fd_map p1) fd)\<rparr>)) = Inr q"
    and "progress e q = Inr r" and "hvac_client_block r = Inr p2"
    using assms by (auto simp: remote_open_def and_then_eq_Inr Let_def case_prod_beta)
  then have "same_ids (l4c (p1\<lparr>fd_map := snd (map_index [] (fd_map p1) fd)\<rparr>)) q"
    and "same_ids q r" and "r = p2"
    by (auto dest!: gen_open_same_ids progress_same_ids simp: hvac_client_block_def split: if_splits)
  then show ?thesis by (auto simp: same_ids_def l4c_def)
qed

section \<open>Calls that returned\<close>

text \<open>A call that returned had its request answered without an error.\<close>

lemma remote_read_at_inv:
  assumes "remote_end e p fd = Some (a, rfd)" and "mercury_ok e"
    and "remote_read_at e fd (Some mem) count off p = Inr (n, buf', p')"
    and "fst (hg_forward e a (hvac_client_rpc_id p)
      (Read_in \<lparr>input_val = to_int count, bulk_handle = count, accessfd = rfd, in_offset = off\<rparr>)
      (net p)) \<noteq> Forward_failed"
  shows "\<exists>out data w. hg_forward e a (hvac_client_rpc_id p)
      (Read_in \<lparr>input_val = to_int count, bulk_handle = count, accessfd = rfd, in_offset = off\<rparr>)
      (net p) = (Reply 0 out data, w) \<and> n = to_i64 out \<and> buf' = Some (overlay data mem) \<and>
    p' = after_read (to_i64 out) w p"
proof -
  obtain r w where f: "hg_forward e a (hvac_client_rpc_id p)
      (Read_in \<lparr>input_val = to_int count, bulk_handle = count, accessfd = rfd, in_offset = off\<rparr>)
      (net p) = (r, w)" by fastforce
  with assms(4) have "r \<noteq> Forward_failed" by simp
  with assms(3) f remote_end_SomeD [OF assms(1)] show ?thesis
    unfolding remote_read_at_linked [OF assms(1,2) f \<open>r \<noteq> Forward_failed\<close>]
    by (cases r) (auto simp: hvac_read_cb_def hvac_read_block_def after_read_def hvac_result
      split: if_splits)
qed

lemma remote_lseek_inv:
  assumes "remote_end e p fd = Some (a, rfd)" and "mercury_ok e"
    and "hvac_remote_lseek e fd off wh p = Inr (n, p')"
    and "fst (hg_forward e a (hvac_client_seek_id p)
      (Seek_in \<lparr>seek_fd = rfd, seek_offset = off, seek_whence = wh\<rparr>) (net p)) \<noteq> Forward_failed"
  shows "\<exists>out data w. hg_forward e a (hvac_client_seek_id p)
      (Seek_in \<lparr>seek_fd = rfd, seek_offset = off, seek_whence = wh\<rparr>) (net p) = (Reply 0 out data, w) \<and>
    n = to_i64 out \<and> p' = after_read (to_i64 out) w p"
proof -
  obtain r w where f: "hg_forward e a (hvac_client_seek_id p)
      (Seek_in \<lparr>seek_fd = rfd, seek_offset = off, seek_whence = wh\<rparr>) (net p) = (r, w)" by fastforce
  with assms(4) have "r \<noteq> Forward_failed" by simp
  with assms(3) f remote_end_SomeD [OF assms(1)] show ?thesis
    unfolding remote_lseek_linked [OF assms(1,2) f \<open>r \<noteq> Forward_failed\<close>]
    by (cases r) (auto simp: hvac_seek_cb_def hvac_seek_block_def after_read_def hvac_result
      split: if_splits)
qed

text \<open>Starting Mercury touches neither the tables of descriptors nor the world.\<close>

lemma init_comm_frame:
  "hvac_init_comm env ge l p = Inr q \<Longrightarrow> fd_map q = fd_map p \<and> fd_redir_map q = fd_redir_map p \<and>
     address_cache q = address_cache p \<and> g_hvac_server_count q = g_hvac_server_count p \<and>
     pending q = pending p \<and> net q = net p \<and> os q = os p"
  by (auto simp: hvac_init_comm_def Let_def split: option.splits)

lemma register_frame:
  "hvac_client_comm_register_rpc env p = Inr q \<Longrightarrow> fd_map q = fd_map p \<and> fd_redir_map q = fd_redir_map p \<and>
     address_cache q = address_cache p \<and> g_hvac_server_count q = g_hvac_server_count p \<and>
     pending q = pending p \<and> net q = net p \<and> os q = os p"
  by (auto simp: hvac_client_comm_register_rpc_def register_defs Let_def hvac_result)

lemma ensure_mercury_frame:
  assumes "ensure_mercury e p = Inr q"
  shows "fd_map q = fd_map p \<and> fd_redir_map q = fd_redir_map p \<and> address_cache q = address_cache p \<and>
    g_hvac_server_count q = g_hvac_server_count p \<and> pending q = pending p \<and> net q = net p \<and> os q = os p"
  using assms
  by (auto simp: ensure_mercury_def and_then_eq_Inr split: if_splits
      dest!: init_comm_frame register_frame)

text \<open>A progress thread that runs goes on running.\<close>

lemma ensure_mercury_runs: "ensure_mercury e p = Inr q \<Longrightarrow> progress_runs p \<Longrightarrow> progress_runs q"
  by (auto simp: ensure_mercury_def hvac_init_comm_def hvac_client_comm_register_rpc_def register_defs
      progress_runs_def l4c_def Let_def hvac_result split: if_splits option.splits)

lemma remote_open_inv:
  assumes "remote_open e fd p = Inr p2" and "mercury_ok e" and "pending p = []"
    and "fd_map p fd = Some path"
    and "\<And>a rid req w. fst (hg_forward e a rid req w) \<noteq> Forward_failed"
  shows "\<exists>p1 a q out data w. ensure_mercury e p = Inr p1 \<and> g_hvac_server_count p1 \<noteq> 0 \<and> progress_runs p1 \<and>
    hvac_client_comm_lookup_addr e (host_index e p1 path) ((l4c p1)\<lparr>rpc_done := 0\<rparr>) = Inr (a, q) \<and>
    hg_forward e a (hvac_client_open_id p1) (Open_in \<lparr>in_path = path\<rparr>) (net p1) = (Reply 0 out data, w)"
proof -
  from assms(1) obtain p1 where p1: "ensure_mercury e p = Inr p1"
    by (auto simp: remote_open_def and_then_eq_Inr)
  from ensure_mercury_frame [OF p1] assms(3,4) have f: "fd_map p1 fd = Some path" "pending p1 = []"
    by simp_all
  with assms(1) p1 obtain h p3 p4 where h: "host_of e p1 path = Inr h"
    and g: "hvac_client_comm_gen_open_rpc e h path fd (l4c p1) = Inr p3"
    and pr: "progress e p3 = Inr p4" and bl: "hvac_client_block p4 = Inr p2"
    by (auto simp: remote_open_def and_then_eq_Inr)
  from h have count: "g_hvac_server_count p1 \<noteq> 0" and hi: "h = host_index e p1 path"
    by (auto simp: host_of_def host_index_def split: if_splits)
  from g obtain a q r q' where look: "hvac_client_comm_lookup_addr e h ((l4c p1)\<lparr>rpc_done := 0\<rparr>) = Inr (a, q)"
    and fw: "forward_rpc e a (hvac_client_open_id q) (Open_in \<lparr>in_path = path\<rparr>) q = Inr (r, q')"
    and p3: "p3 = q'\<lparr>pending := pending q' @ [Cb_open fd r]\<rparr>"
    by (auto simp: hvac_client_comm_gen_open_rpc_def and_then_eq_Inr)
  from lookup_addr_frame [OF look] obtain tl c
    where q: "q = (l4c p1)\<lparr>rpc_done := 0, tl_disable_redirect := tl, address_cache := c\<rparr>" by auto
  obtain w where w: "hg_forward e a (hvac_client_open_id p1) (Open_in \<lparr>in_path = path\<rparr>) (net p1) = (r, w)"
    and q': "q' = q\<lparr>net := w\<rparr>" and ok: "hg_free_ok e"
    using fw by (auto simp: forward_rpc_def q l4c_def hvac_result split: prod.splits)
  have runs: "progress_runs p1"
    using pr bl by (auto simp: progress_def p3 q' q hvac_client_block_def split: if_splits)
  have "\<exists>out data. r = Reply 0 out data"
    using pr bl f(2) w runs assms(5) [of a "hvac_client_open_id p1" "Open_in \<lparr>in_path = path\<rparr>" "net p1"]
    by (cases r) (auto simp: progress_def p3 q' q l4c_def hvac_open_cb_def hvac_client_block_def
      hvac_result split: if_splits)
  with p1 count runs look hi w show ?thesis by blast
qed

section \<open>What the wrappers leave alone\<close>

lemma track_decision_cases:
  obtains (no) "track_decision e path fd p = (False, p)" | (log) "track_decision e path fd p = (False, l4c p)"
  | (yes) c where "canonical e (os p) path = Some c"
      and "track_decision e path fd p = (True, (l4c p)\<lparr>fd_map := (fd_map p)(fd \<mapsto> c)\<rparr>)"
proof -
  have "track_decision e path fd p = (False, p) \<or> track_decision e path fd p = (False, l4c p) \<or>
    (\<exists>c. canonical e (os p) path = Some c \<and>
       track_decision e path fd p = (True, (l4c p)\<lparr>fd_map := (fd_map p)(fd \<mapsto> c)\<rparr>))"
    by (auto simp: track_decision_def Let_def split: option.split)
  then show thesis using no log yes by blast
qed

end
