(* ===== verification/File_Reader.thy ===== *)
theory File_Reader
  imports Posix
begin

text \<open>
  The contract of a file opened for reading, as an application sees it: a content, a
  position, sequential reads that advance the position, positioned reads that do not, and
  seeks. The lemmas about reading a file in pieces are proved once from the contract; the
  local descriptors of \<open>Posix\<close> satisfy it here, and the intercepted descriptors served
  by a remote server satisfy it in the theory \<open>Transparency\<close>.
\<close>

section \<open>An application's reads\<close>

text \<open>A sequence of reads of given sizes, and the loop that reads until a read gives no data.\<close>

fun read_chunks :: "('s \<Rightarrow> nat \<Rightarrow> (byte list \<times> 's) option) \<Rightarrow> 's \<Rightarrow> nat list
    \<Rightarrow> (byte list \<times> 's) option" where
  "read_chunks rd s [] = Some ([], s)"
| "read_chunks rd s (n # ns) = (case rd s n of None \<Rightarrow> None
     | Some (d, s') \<Rightarrow> map_option (\<lambda>(ds, s''). (d @ ds, s'')) (read_chunks rd s' ns))"

fun read_to_end :: "('s \<Rightarrow> nat \<Rightarrow> (byte list \<times> 's) option) \<Rightarrow> nat \<Rightarrow> nat \<Rightarrow> 's
    \<Rightarrow> (byte list \<times> 's) option" where
  "read_to_end rd k 0 s = None"
| "read_to_end rd k (Suc fuel) s = (case rd s k of None \<Rightarrow> None
     | Some (d, s') \<Rightarrow> if d = [] then Some ([], s')
         else map_option (\<lambda>(ds, s''). (d @ ds, s'')) (read_to_end rd k fuel s'))"

section \<open>The contract\<close>

locale sequential_file =
  fixes rd :: "'s \<Rightarrow> nat \<Rightarrow> (byte list \<times> 's) option"
    and view :: "'s \<Rightarrow> (byte list \<times> nat) option"
    and bound :: nat
  assumes rd_law: "view s = Some (b, p) \<Longrightarrow> n \<le> bound \<Longrightarrow>
    \<exists>s'. rd s n = Some (take n (drop p b), s') \<and>
      view s' = Some (b, p + length (take n (drop p b)))"
begin

lemma read_chunks_law:
  assumes "view s = Some (b, p)" and "\<forall>n \<in> set ns. n \<le> bound"
  shows "\<exists>s'. read_chunks rd s ns = Some (take (sum_list ns) (drop p b), s') \<and>
    view s' = Some (b, p + length (take (sum_list ns) (drop p b)))"
  using assms
proof (induction ns arbitrary: s p)
  case Nil
  then show ?case by simp
next
  case (Cons n ns)
  define d where "d = take n (drop p b)"
  define e where "e = take (sum_list ns) (drop (p + length d) b)"
  obtain s1 where s1: "rd s n = Some (d, s1)" "view s1 = Some (b, p + length d)"
    using rd_law [OF Cons.prems(1), of n] Cons.prems(2) unfolding d_def by auto
  obtain s2 where s2: "read_chunks rd s1 ns = Some (e, s2)"
      "view s2 = Some (b, p + length d + length e)"
    using Cons.IH [OF s1(2)] Cons.prems(2) unfolding e_def by auto
  have "take (sum_list (n # ns)) (drop p b) = d @ e"
    by (simp only: d_def e_def take_then_take sum_list.Cons)
  with s1 s2 show ?case by (simp add: add.assoc)
qed

lemma read_to_end_law:
  assumes "view s = Some (b, p)" and "0 < k" and "k \<le> bound" and "length b - p < fuel"
  shows "\<exists>s'. read_to_end rd k fuel s = Some (drop p b, s')"
  using assms
proof (induction fuel arbitrary: s p)
  case (Suc fuel)
  define d where "d = take k (drop p b)"
  obtain s1 where s1: "rd s k = Some (d, s1)" "view s1 = Some (b, p + length d)"
    using rd_law [OF Suc.prems(1,3)] unfolding d_def by auto
  have split: "drop p b = d @ drop (p + length d) b"
    by (simp only: d_def take_then_drop)
  show ?case
  proof (cases "d = []")
    case True
    with Suc.prems(2) have "drop p b = []" by (simp add: d_def)
    with True s1 show ?thesis by simp
  next
    case False
    then have "p < length b" and "0 < length d" by (auto simp: d_def)
    with Suc.prems(4) have "length b - (p + length d) < fuel" by linarith
    from Suc.IH [OF s1(2) Suc.prems(2,3) this] obtain s2 where
      "read_to_end rd k fuel s1 = Some (drop (p + length d) b, s2)" by auto
    with False s1 split show ?thesis by simp
  qed
qed simp

end

text \<open>Positioned reads and seeks on top.\<close>

locale seekable_file = sequential_file rd view bound
  for rd :: "'s \<Rightarrow> nat \<Rightarrow> (byte list \<times> 's) option"
    and view :: "'s \<Rightarrow> (byte list \<times> nat) option"
    and bound :: nat +
  fixes prd :: "'s \<Rightarrow> nat \<Rightarrow> nat \<Rightarrow> (byte list \<times> 's) option"
    and seek_set :: "'s \<Rightarrow> nat \<Rightarrow> (nat \<times> 's) option"
  assumes prd_law: "view s = Some (b, p) \<Longrightarrow> n \<le> bound \<Longrightarrow> q \<le> bound \<Longrightarrow>
      \<exists>s'. prd s n q = Some (take n (drop q b), s') \<and> view s' = Some (b, p)"
    and seek_law: "view s = Some (b, p) \<Longrightarrow> q \<le> bound \<Longrightarrow>
      \<exists>s'. seek_set s q = Some (q, s') \<and> view s' = Some (b, q)"
begin

text \<open>A positioned read gives what a seek and a read give, and leaves the position alone.\<close>

lemma pread_is_seek_read:
  assumes "view s = Some (b, p)" and "n \<le> bound" and "q \<le> bound"
  shows "\<exists>s1 s2 s3. seek_set s q = Some (q, s1) \<and> rd s1 n = Some (take n (drop q b), s2) \<and>
    prd s n q = Some (take n (drop q b), s3) \<and> view s3 = Some (b, p)"
proof -
  obtain s1 where s1: "seek_set s q = Some (q, s1)" "view s1 = Some (b, q)"
    using seek_law [OF assms(1,3)] by auto
  obtain s2 where "rd s1 n = Some (take n (drop q b), s2)"
    using rd_law [OF s1(2) assms(2)] by auto
  moreover obtain s3 where "prd s n q = Some (take n (drop q b), s3)" "view s3 = Some (b, p)"
    using prd_law [OF assms] by auto
  ultimately show ?thesis using s1 by auto
qed

end

section \<open>Local descriptors satisfy the contract\<close>

definition local_read :: "cint \<Rightarrow> posix \<Rightarrow> nat \<Rightarrow> (byte list \<times> posix) option" where
  "local_read fd ps n = (case posix_read ps fd (of_nat n) of
     (r, d, ps') \<Rightarrow> if r = -1 then None else Some (d, ps'))"

definition local_pread :: "cint \<Rightarrow> posix \<Rightarrow> nat \<Rightarrow> nat \<Rightarrow> (byte list \<times> posix) option" where
  "local_pread fd ps n q = (case posix_pread ps fd (of_nat n) (of_nat q) of
     (r, d) \<Rightarrow> if r = -1 then None else Some (d, ps))"

definition local_seek :: "cint \<Rightarrow> posix \<Rightarrow> nat \<Rightarrow> (nat \<times> posix) option" where
  "local_seek fd ps q = (case posix_lseek ps fd (of_nat q) SEEK_SET of
     (r, ps') \<Rightarrow> if r = -1 then None else Some (nat (sint r), ps'))"

lemma file_window_small: "n \<le> max_rw \<Longrightarrow> file_window b p (of_nat n) = take n (drop p b)"
  by (simp add: file_window_def unat_of_nat_i64 max_rw_def)

lemma sint_of_nat_max_rw: "n \<le> max_rw \<Longrightarrow> sint (of_nat n :: i64) = int n"
  by (simp add: sint_of_nat_i64 max_rw_def)

interpretation local_file: seekable_file "local_read fd" "\<lambda>ps. fd_view ps fd" max_rw
  "local_pread fd" "local_seek fd" for fd
proof unfold_locales
  fix ps b p n
  assume v: "fd_view ps fd = Some (b, p)" and n: "n \<le> max_rw"
  let ?d = "take n (drop p b)"
  have "(of_nat (length ?d) :: i64) \<noteq> -1"
    using n by (intro of_nat_neq_minus_one) (simp add: max_rw_def)
  then show "\<exists>s'. local_read fd ps n = Some (?d, s') \<and> fd_view s' fd = Some (b, p + length ?d)"
    using posix_read_view [OF v, of "of_nat n"] n
    by (auto simp: local_read_def file_window_small sint_of_nat_max_rw fd_view_def file_bytes_def)
next
  fix ps b p n q
  assume v: "fd_view ps fd = Some (b, p)" and n: "n \<le> max_rw" and q: "q \<le> max_rw"
  have "(of_nat (length (take n (drop q b))) :: i64) \<noteq> -1"
    using n by (intro of_nat_neq_minus_one) (simp add: max_rw_def)
  then show "\<exists>s'. local_pread fd ps n q = Some (take n (drop q b), s') \<and> fd_view s' fd = Some (b, p)"
    using posix_pread_view [OF v, of "of_nat n" "of_nat q"] n q v
    by (simp add: local_pread_def file_window_small sint_of_nat_max_rw)
next
  fix ps b p q
  assume v: "fd_view ps fd = Some (b, p)" and q: "q \<le> max_rw"
  have "(of_nat q :: i64) \<noteq> -1" and q63: "q < 2 ^ 63"
    using of_nat_neq_minus_one [of q] q by (simp_all add: max_rw_def)
  moreover have "seek_base b p SEEK_SET = Some 0" by (simp add: seek_base_def)
  ultimately show "\<exists>s'. local_seek fd ps q = Some (q, s') \<and> fd_view s' fd = Some (b, q)"
    using posix_lseek_view [OF v, of SEEK_SET 0 "of_nat q" q] q
    by (auto simp: local_seek_def sint_of_nat_max_rw fd_view_def)
qed

end
