(* ===== verification/File_Service.thy ===== *)
theory File_Service
  imports Client_Facts File_Reader
begin

text \<open>
  The contract between the client and what answers its RPCs: the service that Mercury and the
  servers provide together. It shows, for each server address and remote descriptor, a
  content and a position, and promises how the read and seek requests act on them. The
  client's operations are proved correct once, from the contract; the theory \<open>Cluster\<close> proves
  that the server's handlers keep it.
\<close>

section \<open>The contract\<close>

text \<open>A request to one descriptor changes no other, and no registration.\<close>

definition undisturbed ::
  "('w \<Rightarrow> 'a \<Rightarrow> cint \<Rightarrow> (byte list \<times> nat) option) \<Rightarrow> ('w \<Rightarrow> 'a \<Rightarrow> i64 \<Rightarrow> rpc_kind \<Rightarrow> bool)
    \<Rightarrow> 'a \<Rightarrow> cint \<Rightarrow> 'w \<Rightarrow> 'w \<Rightarrow> bool" where
  "undisturbed rview serves a rfd w w' \<longleftrightarrow>
     (\<forall>a' fd'. (a', fd') \<noteq> (a, rfd) \<longrightarrow> rview w' a' fd' = rview w a' fd') \<and> serves w' = serves w"

locale file_service =
  fixes fwd :: "'a \<Rightarrow> i64 \<Rightarrow> rpc_in \<Rightarrow> 'w \<Rightarrow> hg_reply \<times> 'w"
    and rview :: "'w \<Rightarrow> 'a \<Rightarrow> cint \<Rightarrow> (byte list \<times> nat) option"
    and serves :: "'w \<Rightarrow> 'a \<Rightarrow> i64 \<Rightarrow> rpc_kind \<Rightarrow> bool"
  assumes read_law: "serves w a rid K_read \<Longrightarrow> rview w a rfd = Some (b, pos) \<Longrightarrow> 0 \<le> sint n \<Longrightarrow>
      \<exists>w'. fwd a rid (Read_in \<lparr>input_val = n, bulk_handle = to_i64 n, accessfd = rfd,
              in_offset = -1\<rparr>) w
           = (Reply 0 (to_int (of_nat (length (file_window b pos (to_i64 n)))))
                (file_window b pos (to_i64 n)), w') \<and>
         rview w' a rfd = Some (b, pos + length (file_window b pos (to_i64 n))) \<and>
         undisturbed rview serves a rfd w w'"
    and pread_law: "serves w a rid K_read \<Longrightarrow> rview w a rfd = Some (b, pos) \<Longrightarrow> 0 \<le> sint n \<Longrightarrow>
      0 \<le> sint off \<Longrightarrow>
      \<exists>w'. fwd a rid (Read_in \<lparr>input_val = n, bulk_handle = to_i64 n, accessfd = rfd,
              in_offset = off\<rparr>) w
           = (Reply 0 (to_int (of_nat (length (file_window b (nat (sint off)) (to_i64 n)))))
                (file_window b (nat (sint off)) (to_i64 n)), w') \<and>
         rview w' a rfd = Some (b, pos) \<and> undisturbed rview serves a rfd w w'"
    and seek_law: "serves w a rid K_seek \<Longrightarrow> rview w a rfd = Some (b, pos) \<Longrightarrow>
      seek_base b pos wh = Some v \<Longrightarrow> 0 \<le> v + sint off32 \<Longrightarrow> v + sint off32 < 2 ^ 31 \<Longrightarrow>
      \<exists>w'. fwd a rid (Seek_in \<lparr>seek_fd = rfd, seek_offset = off32, seek_whence = wh\<rparr>) w
           = (Reply 0 (word_of_int (v + sint off32)) [], w') \<and>
         rview w' a rfd = Some (b, nat (v + sint off32)) \<and> undisturbed rview serves a rfd w w'"

section \<open>What a tracked descriptor shows\<close>

definition remote_view ::
  "('w \<Rightarrow> 'a \<Rightarrow> cint \<Rightarrow> (byte list \<times> nat) option) \<Rightarrow> ('w \<Rightarrow> 'a \<Rightarrow> i64 \<Rightarrow> rpc_kind \<Rightarrow> bool)
    \<Rightarrow> ('o, 'a, 'w) cenv \<Rightarrow> ('o, 'w) proc \<Rightarrow> cint \<Rightarrow> (byte list \<times> nat) option" where
  "remote_view rview serves e p fd = (case remote_end e p fd of None \<Rightarrow> None
     | Some (a, rfd) \<Rightarrow>
         if \<not> redirect_off p \<and> serves (net p) a (hvac_client_rpc_id p) K_read \<and>
            serves (net p) a (hvac_client_seek_id p) K_seek
         then rview (net p) a rfd else None)"

lemma remote_view_SomeD:
  "remote_view rview serves e p fd = Some v \<Longrightarrow> \<exists>a rfd. remote_end e p fd = Some (a, rfd) \<and>
     \<not> redirect_off p \<and> serves (net p) a (hvac_client_rpc_id p) K_read \<and>
     serves (net p) a (hvac_client_seek_id p) K_seek \<and> rview (net p) a rfd = Some v"
  by (auto simp: remote_view_def split: option.splits if_splits)

lemma remote_view_after_read:
  assumes "remote_end e p fd = Some (a, rfd)" and "\<not> redirect_off p"
    and "serves (net p) a (hvac_client_rpc_id p) K_read"
    and "serves (net p) a (hvac_client_seek_id p) K_seek"
    and "undisturbed rview serves a rfd (net p) w"
  shows "remote_view rview serves e (after_read r w p) fd = rview w a rfd"
    and "remote_end e p fd' \<noteq> Some (a, rfd) \<Longrightarrow>
      remote_view rview serves e (after_read r w p) fd' = remote_view rview serves e p fd'"
proof -
  have off: "redirect_off (after_read r w p) = redirect_off p"
    using assms(2) by (simp add: redirect_off_def after_read_def)
  have ser: "serves w = serves (net p)" using assms(5) by (simp add: undisturbed_def)
  show "remote_view rview serves e (after_read r w p) fd = rview w a rfd"
    using assms(1-4) by (simp add: remote_view_def off ser)
  show "remote_view rview serves e (after_read r w p) fd' = remote_view rview serves e p fd'"
    if "remote_end e p fd' \<noteq> Some (a, rfd)"
    using assms(5) that
    by (auto simp: remote_view_def off ser undisturbed_def split: option.splits)
qed

lemma sint_small: "n < 2 ^ 31 \<Longrightarrow> sint (to_int (of_nat n)) = int n"
  by (simp add: sint_to_int sint_of_nat_i64)

lemma to_int_not_minus_one: "n < 2 ^ 31 \<Longrightarrow> to_int (of_nat n) \<noteq> -1"
  using sint_small [of n] by auto

section \<open>The client's operations, from the contract\<close>

context file_service
begin

text \<open>
  Reading up to \<open>n\<close> bytes at the position: the buffer receives them, and every descriptor with
  another remote end, of this client or another, is as before.
\<close>

lemma wrap_read_law:
  assumes "hg_forward e = fwd" and "mercury_ok e" and "dlsym e ''read''"
    and view: "remote_view rview serves e p fd = Some (b, pos)" and n: "n \<le> max_rw"
  shows "\<exists>p'. wrap_read e fd (Some mem) (of_nat n) p
      = Inr (of_nat (length (take n (drop pos b))), Some (overlay (take n (drop pos b)) mem), p') \<and>
    remote_view rview serves e p' fd = Some (b, pos + length (take n (drop pos b))) \<and> os p' = os p \<and>
    (\<forall>fd'. remote_end e p fd' \<noteq> remote_end e p fd \<longrightarrow>
       remote_view rview serves e p' fd' = remote_view rview serves e p fd') \<and>
    (\<exists>a rfd. remote_end e p fd = Some (a, rfd) \<and> undisturbed rview serves a rfd (net p) (net p'))"
proof -
  define d where "d = take n (drop pos b)"
  from remote_view_SomeD [OF view] obtain a rfd where
    r: "remote_end e p fd = Some (a, rfd)" "\<not> redirect_off p"
       "serves (net p) a (hvac_client_rpc_id p) K_read"
       "serves (net p) a (hvac_client_seek_id p) K_seek" "rview (net p) a rfd = Some (b, pos)" by blast
  have n31: "n < 2 ^ 31" using n by (simp add: max_rw_def)
  then have len: "length d < 2 ^ 31" by (simp add: d_def)
  have win: "file_window b pos (to_i64 (to_int (of_nat n))) = d"
    using n n31 by (simp add: to_i64_to_int_of_nat file_window_small d_def)
  obtain w where w: "fwd a (hvac_client_rpc_id p) (Read_in \<lparr>input_val = to_int (of_nat n),
        bulk_handle = of_nat n, accessfd = rfd, in_offset = -1\<rparr>) (net p)
      = (Reply 0 (to_int (of_nat (length d))) d, w)"
    and v: "rview w a rfd = Some (b, pos + length d)" and u: "undisturbed rview serves a rfd (net p) w"
    using read_law [OF r(3) r(5), of "to_int (of_nat n)"] n31
    by (auto simp: win sint_small to_i64_to_int_of_nat)
  let ?q = "after_read (of_nat (length d)) w p"
  have "wrap_read e fd (Some mem) (of_nat n) p = Inr (of_nat (length d), Some (overlay d mem), ?q)"
    using wrap_read_reply [OF r(1) assms(2,3), of "of_nat n" "to_int (of_nat (length d))" d w mem]
      w assms(1) len
    by (simp add: to_i64_to_int_of_nat to_int_not_minus_one)
  then show ?thesis
    using remote_view_after_read [OF r(1-4) u, where r = "of_nat (length d)"] v u r(1)
    by (intro exI [of _ ?q]) (auto simp: d_def)
qed

text \<open>Positioned reading.\<close>

lemma wrap_pread_law:
  assumes "hg_forward e = fwd" and "mercury_ok e" and "dlsym e ''pread''"
    and view: "remote_view rview serves e p fd = Some (b, pos)" and n: "n \<le> max_rw"
    and off: "0 \<le> sint off"
  shows "\<exists>p'. wrap_pread e fd (Some mem) (of_nat n) off p
      = Inr (of_nat (length (take n (drop (nat (sint off)) b))),
          Some (overlay (take n (drop (nat (sint off)) b)) mem), p') \<and>
    remote_view rview serves e p' fd = Some (b, pos) \<and> os p' = os p \<and>
    (\<forall>fd'. remote_end e p fd' \<noteq> remote_end e p fd \<longrightarrow>
       remote_view rview serves e p' fd' = remote_view rview serves e p fd')"
proof -
  define d where "d = take n (drop (nat (sint off)) b)"
  from remote_view_SomeD [OF view] obtain a rfd where
    r: "remote_end e p fd = Some (a, rfd)" "\<not> redirect_off p"
       "serves (net p) a (hvac_client_rpc_id p) K_read"
       "serves (net p) a (hvac_client_seek_id p) K_seek" "rview (net p) a rfd = Some (b, pos)" by blast
  have n31: "n < 2 ^ 31" using n by (simp add: max_rw_def)
  then have len: "length d < 2 ^ 31" by (simp add: d_def)
  have win: "file_window b (nat (sint off)) (to_i64 (to_int (of_nat n))) = d"
    using n n31 by (simp add: to_i64_to_int_of_nat file_window_small d_def)
  obtain w where w: "fwd a (hvac_client_rpc_id p) (Read_in \<lparr>input_val = to_int (of_nat n),
        bulk_handle = of_nat n, accessfd = rfd, in_offset = off\<rparr>) (net p)
      = (Reply 0 (to_int (of_nat (length d))) d, w)"
    and v: "rview w a rfd = Some (b, pos)" and u: "undisturbed rview serves a rfd (net p) w"
    using pread_law [OF r(3) r(5), of "to_int (of_nat n)" off] n31 off
    by (auto simp: win sint_small to_i64_to_int_of_nat)
  let ?q = "after_read (of_nat (length d)) w p"
  have "remote_read_at e fd (Some mem) (of_nat n) off (l4c p)
      = Inr (of_nat (length d), Some (overlay d mem), ?q)"
    using remote_read_at_reply [of e "l4c p" fd a rfd "of_nat n" off "to_int (of_nat (length d))" d w mem]
      r(1) w assms(1,2) len
    by (simp add: to_i64_to_int_of_nat)
  then have "wrap_pread e fd (Some mem) (of_nat n) off p
      = Inr (of_nat (length d), Some (overlay d mem), ?q)"
    using assms(3) remote_end_SomeD [OF r(1)]
    by (auto simp: wrap_pread_def MAP_OR_FAIL_def hvac_get_path_def hvac_remote_pread_def)
  then show ?thesis
    using remote_view_after_read [OF r(1-4) u, where r = "of_nat (length d)"] v r(1)
    by (intro exI [of _ ?q]) (auto simp: d_def)
qed

text \<open>Seeking, as far as the offset and the new position fit an \<open>int\<close>.\<close>

lemma remote_lseek_law:
  assumes "hg_forward e = fwd" and "mercury_ok e"
    and view: "remote_view rview serves e p fd = Some (b, pos)"
    and base: "seek_base b pos wh = Some v"
    and off: "- (2 ^ 31) \<le> sint off" "sint off < 2 ^ 31"
    and new: "0 \<le> v + sint off" "v + sint off < 2 ^ 31"
  shows "\<exists>p'. hvac_remote_lseek e fd (to_int off) wh (l4c p) = Inr (word_of_int (v + sint off), p') \<and>
    remote_view rview serves e p' fd = Some (b, nat (v + sint off)) \<and> os p' = os p \<and>
    (\<forall>fd'. remote_end e p fd' \<noteq> remote_end e p fd \<longrightarrow>
       remote_view rview serves e p' fd' = remote_view rview serves e p fd')"
proof -
  from remote_view_SomeD [OF view] obtain a rfd where
    r: "remote_end e p fd = Some (a, rfd)" "\<not> redirect_off p"
       "serves (net p) a (hvac_client_rpc_id p) K_read"
       "serves (net p) a (hvac_client_seek_id p) K_seek" "rview (net p) a rfd = Some (b, pos)" by blast
  have o: "sint (to_int off) = sint off" using off by (rule sint_to_int)
  define k where "k = nat (v + sint off)"
  have k: "v + sint off = int k" "k < 2 ^ 31" using new by (simp_all add: k_def)
  obtain w where w: "fwd a (hvac_client_seek_id p)
        (Seek_in \<lparr>seek_fd = rfd, seek_offset = to_int off, seek_whence = wh\<rparr>) (net p)
      = (Reply 0 (word_of_int (int k)) [], w)"
    and vw: "rview w a rfd = Some (b, k)" and u: "undisturbed rview serves a rfd (net p) w"
    using seek_law [OF r(4) r(5) base, of "to_int off"] new
    by (auto simp: o k)
  have out: "to_i64 (word_of_int (int k)) = of_nat k"
    using to_i64_to_int_of_nat [OF k(2)] k(2) by (simp add: to_int_of_nat)
  let ?q = "after_read (of_nat k) w p"
  have "hvac_remote_lseek e fd (to_int off) wh (l4c p) = Inr (of_nat k, ?q)"
    using remote_lseek_reply [of e "l4c p" fd a rfd "to_int off" wh "word_of_int (int k)" "[]" w]
      r(1) w assms(1,2) out
    by simp
  then show ?thesis
    using remote_view_after_read [OF r(1-4) u, where r = "of_nat k"] vw r(1)
    by (intro exI [of _ ?q]) (auto simp: k)
qed

end

end
