(* ===== verification/Data_Mover.thy ===== *)
theory Data_Mover
  imports Comm Posix
begin

text \<open>
  \<open>src/hvac_data_mover.cpp\<close>: the thread that copies closed files to the node-local disk and
  records the copies in \<open>path_cache_map\<close>. Its state is the globals of the file, the locals of
  \<open>hvac_data_mover_fn\<close> and the point the thread is at; the node's file system is \<open>disk\<close>.
  What \<open>mkdtemp\<close> returns and whether the system accepts the copy come from outside.
\<close>

section \<open>State\<close>

datatype mover_pc =
    Mover_not_started
  | Mover_looping        \<comment> \<open>at the head of the outer loop, not yet in the wait\<close>
  | Mover_waiting        \<comment> \<open>in \<open>pthread_cond_wait\<close>, the mutex released\<close>
  | Mover_woken          \<comment> \<open>signalled, the mutex not yet reacquired\<close>
  | Mover_copying        \<comment> \<open>in the copy loop, \<open>local_list\<close> not empty\<close>

record data_mover = comm +
  disk :: posix
  fd_to_path :: "cint \<rightharpoonup> path"
  path_cache_map :: "path \<rightharpoonup> path"
  data_queue :: "path list"
  mover :: mover_pc
  nvmepath :: string
  local_list :: "path list"

section \<open>The thread\<close>

text \<open>
  Up to the outer loop. A missing \<open>BBPATH\<close> is logged, and then \<open>string(getenv("BBPATH"))\<close>
  is built from a null pointer.
\<close>

definition mover_start :: "(string \<Rightarrow> string option) \<Rightarrow> 'a data_mover_scheme \<Rightarrow> 'a data_mover_scheme outcome" where
  "mover_start getenv s = (case getenv ''BBPATH'' of
       None \<Rightarrow> Inl Undefined_behaviour
     | Some bb \<Rightarrow> Inr (s\<lparr>nvmepath := bb @ ''/XXXXXX'', local_list := [], mover := Mover_looping\<rparr>))"

text \<open>The mutex taken, and the wait begun, which releases it.\<close>

definition mover_wait :: "'a data_mover_scheme \<Rightarrow> 'a data_mover_scheme" where
  "mover_wait s = (if mover s = Mover_looping then s\<lparr>mover := Mover_waiting\<rparr> else s)"

text \<open>\<open>pthread_cond_signal(&data_cond)\<close>: it wakes a waiting thread and is lost otherwise.\<close>

definition data_cond_signal :: "'a data_mover_scheme \<Rightarrow> 'a data_mover_scheme" where
  "data_cond_signal s = (if mover s = Mover_waiting then s\<lparr>mover := Mover_woken\<rparr> else s)"

text \<open>\<open>while (!data_queue.empty()) { local_list.push(front); data_queue.pop(); }\<close>\<close>

fun drain :: "path list \<Rightarrow> path list \<Rightarrow> path list \<times> path list" where
  "drain [] l = ([], l)"
| "drain (x # q) l = drain q (l @ [x])"

definition mover_wake :: "'a data_mover_scheme \<Rightarrow> 'a data_mover_scheme" where
  "mover_wake s = (if mover s \<noteq> Mover_woken then s
     else (case drain (data_queue s) (local_list s) of (q, l) \<Rightarrow>
       s\<lparr>data_queue := q, local_list := l,
         mover := (if l = [] then Mover_looping else Mover_copying)\<rparr>))"

text \<open>
  One round of the copy loop, for a queued file that is a regular one (see \<open>fs_copy\<close>). \<open>mk\<close> is
  the directory \<open>mkdtemp\<close> created, \<open>None\<close> when it failed; what it then leaves in the template
  is not specified, and is taken to be the template itself, which stands for the name of a
  directory that was not made. \<open>ok\<close> is whether the system accepts the copy.
\<close>

definition mover_copy_one ::
  "string option \<Rightarrow> bool \<Rightarrow> 'a data_mover_scheme \<Rightarrow> 'a data_mover_scheme" where
  "mover_copy_one mk ok s = (case local_list s of
       [] \<Rightarrow> s
     | p # ps \<Rightarrow>
         let dirpath = (case mk of Some d \<Rightarrow> d | None \<Rightarrow> nvmepath s);
             s1 = (case mk of Some d \<Rightarrow> s\<lparr>disk := fs_mkdir (disk s) d\<rparr> | None \<Rightarrow> s);
             fname = dirpath @ ''/'' @ filename p;
             s2 = (case fs_copy (disk s1) ok p fname of
                     Some ps' \<Rightarrow> s1\<lparr>disk := ps', path_cache_map := (path_cache_map s1)(p \<mapsto> fname)\<rparr>
                   | None \<Rightarrow> s1)
         in s2\<lparr>local_list := ps, mover := (if ps = [] then Mover_looping else Mover_copying)\<rparr>)"

fun mover_copy_all ::
  "(string option \<times> bool) list \<Rightarrow> 'a data_mover_scheme \<Rightarrow> 'a data_mover_scheme" where
  "mover_copy_all [] s = s"
| "mover_copy_all ((mk, ok) # os) s =
     (if mover s = Mover_copying then mover_copy_all os (mover_copy_one mk ok s) else s)"

section \<open>Invariants\<close>

text \<open>The bytes a path name leads to.\<close>

definition bytes_at :: "posix \<Rightarrow> path \<Rightarrow> byte list option" where
  "bytes_at ps p = (case canonical_in ps p of None \<Rightarrow> None | Some c \<Rightarrow> file_bytes ps c)"

text \<open>Every recorded copy has the bytes of its original.\<close>

definition cache_coherent :: "'a data_mover_scheme \<Rightarrow> bool" where
  "cache_coherent s \<longleftrightarrow> (\<forall>p q. path_cache_map s p = Some q \<longrightarrow>
     (\<exists>b. bytes_at (disk s) p = Some b \<and> bytes_at (disk s) q = Some b))"

text \<open>The mover is in its copy loop exactly while it holds files to copy.\<close>

definition mover_ok :: "'a data_mover_scheme \<Rightarrow> bool" where
  "mover_ok s \<longleftrightarrow> (mover s = Mover_copying \<longleftrightarrow> local_list s \<noteq> [])"

text \<open>What \<open>mkdtemp\<close> promises: the name it returns was not in use, nor anything below it.\<close>

definition fresh_for :: "posix \<Rightarrow> string option \<Rightarrow> path \<Rightarrow> bool" where
  "fresh_for ps mk p = (case mk of None \<Rightarrow> True
     | Some d \<Rightarrow> nodes ps (resolve ps d) = None)"

section \<open>Facts\<close>

lemma drain_append: "drain q l = ([], l @ q)"
  by (induction q arbitrary: l) simp_all

lemma bytes_at_mono:
  assumes "bytes_at ps p = Some b" and "nodes ps c = None" and "x \<noteq> []"
  shows "bytes_at (ps\<lparr>nodes := (nodes ps)(c \<mapsto> n)\<rparr>) p = Some b"
  using assms by (auto simp: bytes_at_def canonical_in_def file_bytes_def Let_def split: if_splits)

lemma bytes_at_mkdir:
  "bytes_at ps p = Some b \<Longrightarrow> nodes ps (resolve ps d) = None \<Longrightarrow> bytes_at (fs_mkdir ps d) p = Some b"
  unfolding fs_mkdir_def by (rule bytes_at_mono [where x = "''x''"]) simp_all

lemma bytes_at_copy:
  assumes "fs_copy ps ok src dst = Some ps'"
  shows "bytes_at ps p = Some b \<Longrightarrow> bytes_at ps' p = Some b"
    and "\<exists>b. bytes_at ps' src = Some b \<and> bytes_at ps' dst = Some b"
proof -
  from fs_copy_SomeD [OF assms] obtain c b' where
    c: "canonical_in ps src = Some c" "file_bytes ps c = Some b'" "dst \<noteq> []"
       "nodes ps (resolve ps dst) = None"
    and ps': "ps' = ps\<lparr>nodes := (nodes ps)(resolve ps dst \<mapsto> Reg b')\<rparr>" by blast
  show mono: "bytes_at ps p = Some b \<Longrightarrow> bytes_at ps' p = Some b" for p b
    unfolding ps' by (rule bytes_at_mono [OF _ c(4) c(3)])
  have "bytes_at ps src = Some b'" using c by (simp add: bytes_at_def)
  from mono [OF this] have "bytes_at ps' src = Some b'" .
  moreover have "bytes_at ps' dst = Some b'"
    using c(3) by (simp add: ps' bytes_at_def canonical_in_def file_bytes_def)
  ultimately show "\<exists>b. bytes_at ps' src = Some b \<and> bytes_at ps' dst = Some b" by blast
qed

lemma cache_coherent_mkdir:
  "cache_coherent s \<Longrightarrow> nodes (disk s) (resolve (disk s) d) = None \<Longrightarrow>
   cache_coherent (s\<lparr>disk := fs_mkdir (disk s) d\<rparr>)"
  unfolding cache_coherent_def by (fastforce intro: bytes_at_mkdir)

lemma cache_coherent_copy:
  assumes "cache_coherent s" and "fs_copy (disk s) ok p q = Some ps'"
  shows "cache_coherent (s\<lparr>disk := ps', path_cache_map := (path_cache_map s)(p \<mapsto> q)\<rparr>)"
  using assms(1) bytes_at_copy [OF assms(2)] unfolding cache_coherent_def
  by (auto, blast)

lemma bytes_at_cong:
  assumes "nodes ps' = nodes ps" and "resolve ps' = resolve ps"
  shows "bytes_at ps' p = bytes_at ps p"
proof -
  have "canonical_in ps' p = canonical_in ps p"
    by (simp add: canonical_in_def assms)
  moreover have "file_bytes ps' c = file_bytes ps c" for c
    by (simp add: file_bytes_def assms)
  ultimately show ?thesis by (simp add: bytes_at_def split: option.split)
qed

lemma cache_coherent_cong:
  "path_cache_map t = path_cache_map s \<Longrightarrow> nodes (disk t) = nodes (disk s) \<Longrightarrow>
   resolve (disk t) = resolve (disk s) \<Longrightarrow> cache_coherent t = cache_coherent s"
  unfolding cache_coherent_def using bytes_at_cong [of "disk t" "disk s"] by simp

lemma mover_copy_one_coherent:
  assumes "cache_coherent s" and "fresh_for (disk s) mk (hd (local_list s))"
  shows "cache_coherent (mover_copy_one mk ok s)"
proof (cases "local_list s")
  case Nil
  with assms show ?thesis by (simp add: mover_copy_one_def)
next
  case (Cons p ps)
  define s1 where "s1 = (case mk of Some d \<Rightarrow> s\<lparr>disk := fs_mkdir (disk s) d\<rparr> | None \<Rightarrow> s)"
  have s1: "cache_coherent s1"
    using assms by (auto simp: s1_def fresh_for_def intro: cache_coherent_mkdir split: option.splits)
  define dst where "dst = (case mk of Some d \<Rightarrow> d | None \<Rightarrow> nvmepath s) @ ''/'' @ filename p"
  define s2 where "s2 = (case fs_copy (disk s1) ok p dst of
      Some ps' \<Rightarrow> s1\<lparr>disk := ps', path_cache_map := (path_cache_map s1)(p \<mapsto> dst)\<rparr>
    | None \<Rightarrow> s1)"
  have s2: "cache_coherent s2"
    using s1 by (auto simp: s2_def intro: cache_coherent_copy split: option.splits)
  have "mover_copy_one mk ok s = s2\<lparr>local_list := ps, mover := (if ps = [] then Mover_looping else Mover_copying)\<rparr>"
    unfolding mover_copy_one_def Let_def s2_def s1_def dst_def by (simp add: Cons)
  moreover have "cache_coherent (s2\<lparr>local_list := l, mover := m\<rparr>) = cache_coherent s2" for l m
    by (rule cache_coherent_cong) simp_all
  ultimately show ?thesis using s2 by simp
qed

lemma mover_wake_coherent [simp]: "cache_coherent (mover_wake s) = cache_coherent s"
  by (rule cache_coherent_cong) (simp_all add: mover_wake_def drain_append)

lemma mover_wait_coherent [simp]: "cache_coherent (mover_wait s) = cache_coherent s"
  by (rule cache_coherent_cong) (simp_all add: mover_wait_def)

lemma data_cond_signal_coherent [simp]: "cache_coherent (data_cond_signal s) = cache_coherent s"
  by (rule cache_coherent_cong) (simp_all add: data_cond_signal_def)

lemma mover_copy_one_ok: "mover s = Mover_copying \<Longrightarrow> mover_ok s \<Longrightarrow> mover_ok (mover_copy_one mk ok s)"
  by (auto simp: mover_ok_def mover_copy_one_def Let_def split: list.splits)

lemma mover_wake_ok: "mover_ok s \<Longrightarrow> mover_ok (mover_wake s)"
  by (simp add: mover_ok_def mover_wake_def drain_append)

lemma mover_wait_ok: "mover_ok s \<Longrightarrow> mover_ok (mover_wait s)"
  by (auto simp: mover_ok_def mover_wait_def)

lemma data_cond_signal_ok: "mover_ok s \<Longrightarrow> mover_ok (data_cond_signal s)"
  by (auto simp: mover_ok_def data_cond_signal_def)

lemma mover_copy_one_local: "local_list (mover_copy_one mk ok s) = tl (local_list s)"
  by (simp add: mover_copy_one_def Let_def split: list.split)

lemma mover_copy_one_queue [simp]:
  "data_queue (mover_copy_one mk ok s) = data_queue s"
  by (simp add: mover_copy_one_def Let_def split: list.split option.split)

lemma mover_copy_all_terminates:
  "mover_ok s \<Longrightarrow> length (local_list s) \<le> length os \<Longrightarrow>
   local_list (mover_copy_all os s) = [] \<and> mover (mover_copy_all os s) \<noteq> Mover_copying"
proof (induction os arbitrary: s)
  case Nil
  then show ?case by (auto simp: mover_ok_def)
next
  case (Cons o' os)
  obtain mk ok where o': "o' = (mk, ok)" by (cases o')
  show ?case
  proof (cases "mover s = Mover_copying")
    case True
    with Cons.prems have "mover_ok (mover_copy_one mk ok s)"
      by (simp add: mover_copy_one_ok)
    moreover have "length (local_list (mover_copy_one mk ok s)) \<le> length os"
      using Cons.prems True by (simp add: mover_copy_one_local mover_ok_def)
    ultimately show ?thesis using Cons.IH True o' by simp
  next
    case False
    with Cons.prems o' show ?thesis by (auto simp: mover_ok_def)
  qed
qed

text \<open>The rounds leave the queue and the entries of other paths alone.\<close>

lemma mover_copy_all_queue [simp]: "data_queue (mover_copy_all os s) = data_queue s"
  by (induction os s rule: mover_copy_all.induct) simp_all

lemma mover_copy_one_others:
  "p \<notin> set (local_list s) \<Longrightarrow> path_cache_map (mover_copy_one mk ok s) p = path_cache_map s p"
  by (auto simp: mover_copy_one_def Let_def split: list.split option.split)

lemma mover_copy_all_others:
  "p \<notin> set (local_list s) \<Longrightarrow> path_cache_map (mover_copy_all os s) p = path_cache_map s p"
proof (induction os s rule: mover_copy_all.induct)
  case (2 mk ok os s)
  have "p \<notin> set (local_list (mover_copy_one mk ok s))"
    using 2(2) by (cases "local_list s") (auto simp: mover_copy_one_local)
  with 2 show ?case by (simp add: mover_copy_one_others)
qed simp

text \<open>Woken, and after its rounds, the mover is back at the head of its outer loop.\<close>

lemma mover_copy_all_looping:
  assumes "mover s = Mover_woken" and "mover (mover_copy_all os (mover_wake s)) \<noteq> Mover_copying"
  shows "mover (mover_copy_all os (mover_wake s)) = Mover_looping"
proof -
  have copies: "mover t \<in> {Mover_looping, Mover_copying} \<Longrightarrow>
      mover (mover_copy_all os t) \<in> {Mover_looping, Mover_copying}" for os and t :: "'a data_mover_scheme"
  proof (induction os t rule: mover_copy_all.induct)
    case (2 mk ok os t)
    have "mover (mover_copy_one mk ok t) \<in> {Mover_looping, Mover_copying}" if "mover t = Mover_copying"
      using that by (simp add: mover_copy_one_def Let_def split: list.split)
    with 2 show ?case by auto
  qed simp
  have "mover (mover_wake s) \<in> {Mover_looping, Mover_copying}" using assms(1) by (simp add: mover_wake_def drain_append)
  with copies [of "mover_wake s" os] assms(2) show ?thesis by simp
qed

lemma mover_wait_again:
  "mover s = Mover_looping \<Longrightarrow> mover_wait s = s\<lparr>mover := Mover_waiting\<rparr>"
  by (simp add: mover_wait_def)

end
