(* ===== verification/Server.thy ===== *)
theory Server
  imports Data_Mover Logging
begin

text \<open>
  The server half of \<open>src/hvac_comm.cpp\<close> and \<open>src/hvac_server.cpp\<close>: the operation log, the
  four RPC handlers, their dispatch, and the start of the daemon. A handler maps the state of
  the node to the answer it sends and the new state; a failed \<open>assert\<close> ends the daemon.
\<close>

section \<open>State\<close>

record log_entry =
  operation :: string
  time_ns :: i64

record server = data_mover +
  log_buffer :: "log_entry list"
  time_logs :: "string \<Rightarrow> string"     \<comment> \<open>the \<open>operation_times_*.log\<close> files\<close>
  hvac_server_count :: cint

text \<open>
  What surrounds one handler call: the allocator, Mercury's answers, the measured duration,
  and whether the log file can be opened.
\<close>

record rpc_env =
  get_input_ok :: bool                   \<comment> \<open>\<open>HG_Get_input\<close> returns 0\<close>
  calloc_ok :: "i64 \<Rightarrow> bool"
  bulk_create_ok :: "i64 \<Rightarrow> bool"
  bulk_push_ok :: "i64 \<Rightarrow> i64 \<Rightarrow> bool"   \<comment> \<open>size pushed, size of the client's region\<close>
  bulk_done_ok :: bool                   \<comment> \<open>\<open>info->ret == 0\<close> in the bulk callback\<close>
  respond_ok :: bool
  elapsed :: i64
  log_file_ok :: bool

section \<open>The operation log\<close>

definition log_file_name :: "cint \<Rightarrow> string" where
  "log_file_name rank = ''operation_times_'' @ dec_int (sint rank) @ ''.log''"

definition log_line :: "log_entry \<Rightarrow> string" where
  "log_line e = operation e @ '' '' @ dec_int (sint (time_ns e)) @ ''ns'' @ [newline]"

text \<open>A stream that could not be opened ignores what is written to it.\<close>

definition append_to_file :: "rpc_env \<Rightarrow> 'a server_scheme \<Rightarrow> 'a server_scheme" where
  "append_to_file env s =
     (let log_file = log_file_name (server_rank s);
          text = concat (map log_line (log_buffer s));
          logs = (if log_file_ok env
                  then (time_logs s)(log_file := time_logs s log_file @ text) else time_logs s)
      in s\<lparr>time_logs := logs, log_buffer := []\<rparr>)"

definition log_push :: "string \<Rightarrow> i64 \<Rightarrow> 'a server_scheme \<Rightarrow> 'a server_scheme" where
  "log_push oper dur s = s\<lparr>log_buffer := log_buffer s @ [\<lparr>operation = oper, time_ns = dur\<rparr>]\<rparr>"

definition flush_if_full :: "rpc_env \<Rightarrow> 'a server_scheme \<Rightarrow> 'a server_scheme" where
  "flush_if_full env s = (if 10 \<le> length (log_buffer s) then append_to_file env s else s)"

section \<open>Reading\<close>

text \<open>
  \<open>hvac_rpc_handler\<close> up to the transfer: the file call (sequential when the offset is \<open>-1\<close>,
  positioned otherwise), the log entry, and the debug message, whose argument
  \<open>fd_to_path[accessfd]\<close> inserts an empty name for an unknown descriptor.
\<close>

definition server_file_call ::
  "rpc_env \<Rightarrow> hvac_rpc_in_t \<Rightarrow> i64 \<Rightarrow> 'a server_scheme \<Rightarrow> i64 \<times> byte list \<times> 'a server_scheme" where
  "server_file_call env inp nbytes s =
     (if in_offset inp = -1
      then (case posix_read (disk s) (accessfd inp) nbytes of (readbytes, data, ps) \<Rightarrow>
             (readbytes, data, log_push ''read'' (elapsed env) (s\<lparr>disk := ps\<rparr>)))
      else (case posix_pread (disk s) (accessfd inp) nbytes (in_offset inp) of (readbytes, data) \<Rightarrow>
             (readbytes, data, log_push ''pread'' (elapsed env) s)))"

definition note_path :: "cint \<Rightarrow> 'a server_scheme \<Rightarrow> 'a server_scheme" where
  "note_path fd s = s\<lparr>fd_to_path := snd (map_index [] (fd_to_path s) fd)\<rparr>"

text \<open>
  The whole handler with the bulk callback \<open>hvac_rpc_handler_bulk_cb\<close> that ends it: the
  result is the \<open>ret\<close> field of the response and the bytes pushed into the client's memory.
  The size of the transfer is the requested one unless the read succeeded. What \<open>HG_Get_input\<close>
  returns is not looked at: when it fails the handler works on uninitialised memory.
\<close>

definition hvac_rpc_handler_bulk_cb ::
  "rpc_env \<Rightarrow> i64 \<Rightarrow> hvac_rpc_out_t outcome" where
  "hvac_rpc_handler_bulk_cb env xfer =
     (let out = \<lparr>rpc_ret = to_int xfer\<rparr>
      in assert_that (bulk_done_ok env) (assert_that (respond_ok env) (Inr out)))"

definition hvac_rpc_handler ::
  "rpc_env \<Rightarrow> hvac_rpc_in_t \<Rightarrow> 'a server_scheme
    \<Rightarrow> (hvac_rpc_out_t \<times> byte list \<times> 'a server_scheme) outcome" where
  "hvac_rpc_handler env inp s =
     (if \<not> get_input_ok env then Inl Undefined_behaviour
      else let nbytes = to_i64 (input_val inp)
      in assert_that (calloc_ok env nbytes) (assert_that (bulk_create_ok env nbytes)
          (case server_file_call env inp nbytes s of (readbytes, data, s1) \<Rightarrow>
             let buf = overlay data (replicate (unat nbytes) 0);
                 s2 = flush_if_full env (note_path (accessfd inp) s1);
                 xfer = (if readbytes \<noteq> -1 then readbytes else nbytes)
             in assert_that (bulk_push_ok env xfer (bulk_handle inp))
                  (and_then (hvac_rpc_handler_bulk_cb env xfer) (\<lambda>out.
                     Inr (out, take (unat xfer) buf, s2))))))"

section \<open>Opening, seeking, closing\<close>

definition hvac_open_rpc_handler ::
  "rpc_env \<Rightarrow> hvac_open_in_t \<Rightarrow> 'a server_scheme \<Rightarrow> (hvac_open_out_t \<times> 'a server_scheme) outcome" where
  "hvac_open_rpc_handler env inp s = assert_that (get_input_ok env)
     (let s1 = (case path_cache_map s (in_path inp) of
                   Some q \<Rightarrow> log_push ''redirect'' 0 s | None \<Rightarrow> s);
          redir_path = (case path_cache_map s (in_path inp) of
                   Some q \<Rightarrow> q | None \<Rightarrow> in_path inp)
      in (case posix_open (disk s1) redir_path of (fd, ps) \<Rightarrow>
           let s2 = log_push ''open'' (elapsed env) (s1\<lparr>disk := ps\<rparr>);
               s3 = flush_if_full env s2;
               s4 = s3\<lparr>fd_to_path := (fd_to_path s3)(fd \<mapsto> in_path inp)\<rparr>
           in Inr (\<lparr>ret_status = fd\<rparr>, s4)))"

text \<open>
  \<open>hvac_close_rpc_handler\<close>. The signal is sent before the push, both under the mutex, so
  the mover runs after both.
\<close>

definition hvac_close_rpc_handler ::
  "rpc_env \<Rightarrow> hvac_close_in_t \<Rightarrow> 'a server_scheme \<Rightarrow> 'a server_scheme outcome" where
  "hvac_close_rpc_handler env inp s = assert_that (get_input_ok env)
     (case posix_close (disk s) (close_fd inp) of (ret, ps) \<Rightarrow>
        let s1 = log_push ''close'' (elapsed env) (s\<lparr>disk := ps\<rparr>)
        in assert_that (ret = 0)
            (let s2 = flush_if_full env s1;
                 p = fst (map_index [] (fd_to_path s2) (close_fd inp));
                 s3 = s2\<lparr>fd_to_path := snd (map_index [] (fd_to_path s2) (close_fd inp))\<rparr>;
                 s4 = (if \<not> map_has (path_cache_map s3) p
                       then (data_cond_signal s3)\<lparr>data_queue := data_queue s3 @ [p]\<rparr> else s3)
             in Inr (s4\<lparr>fd_to_path := map_erase (close_fd inp) (fd_to_path s4)\<rparr>)))"

definition hvac_seek_rpc_handler ::
  "rpc_env \<Rightarrow> hvac_seek_in_t \<Rightarrow> 'a server_scheme \<Rightarrow> (hvac_seek_out_t \<times> 'a server_scheme) outcome" where
  "hvac_seek_rpc_handler env inp s = assert_that (get_input_ok env)
     (case posix_lseek (disk s) (seek_fd inp) (to_i64 (seek_offset inp)) (seek_whence inp) of
        (r, ps) \<Rightarrow> Inr (\<lparr>seek_ret = to_int r\<rparr>, s\<lparr>disk := ps\<rparr>))"

text \<open>
  Mercury runs the handler registered for the identifier. The answer is the 32-bit field
  of the output structure (none for a close) with the bytes pushed. The handlers of open and
  seek do not look at what \<open>HG_Respond\<close> returns, so the answer can be lost.
\<close>

definition respond :: "rpc_env \<Rightarrow> cint \<Rightarrow> cint option" where
  "respond env out = (if respond_ok env then Some out else None)"

lemma respond_simps [simp]: "respond_ok env \<Longrightarrow> respond env out = Some out"
  "respond env out = Some r \<longleftrightarrow> respond_ok env \<and> r = out"
  by (auto simp: respond_def)

definition run_handler ::
  "rpc_env \<Rightarrow> rpc_in \<Rightarrow> 'a server_scheme \<Rightarrow> (cint option \<times> byte list \<times> 'a server_scheme) outcome" where
  "run_handler env req s = (case req of
       Open_in i \<Rightarrow> and_then (hvac_open_rpc_handler env i s) (\<lambda>(out, s'). Inr (respond env (ret_status out), [], s'))
     | Read_in i \<Rightarrow> and_then (hvac_rpc_handler env i s) (\<lambda>(out, data, s'). Inr (Some (rpc_ret out), data, s'))
     | Seek_in i \<Rightarrow> and_then (hvac_seek_rpc_handler env i s) (\<lambda>(out, s'). Inr (respond env (seek_ret out), [], s'))
     | Close_in i \<Rightarrow> and_then (hvac_close_rpc_handler env i s) (\<lambda>s'. Inr (None, [], s')))"

section \<open>Starting the daemon (hvac_server.cpp)\<close>

definition register_rpcs :: "hg_env \<Rightarrow> 'a comm_scheme \<Rightarrow> 'a comm_scheme outcome" where
  "register_rpcs env c =
     (let c1 = snd (hvac_rpc_register env c);
          c2 = snd (hvac_open_rpc_register env c1)
      in and_then (hvac_close_rpc_register env c2) (\<lambda>(_, c3).
           Inr (snd (hvac_seek_rpc_register env c3))))"

text \<open>
  \<open>hvac_start_comm_server\<close> up to its endless sleep. \<open>cfg\<close> holds the files with the servers'
  addresses; a mover thread that cannot be created is only logged.
\<close>

definition hvac_start_comm_server ::
  "hg_env \<Rightarrow> (string \<Rightarrow> string option) \<Rightarrow> bool \<Rightarrow> bool \<Rightarrow> 'a server_scheme
    \<Rightarrow> (path \<Rightarrow> string) \<Rightarrow> ('a server_scheme \<times> (path \<Rightarrow> string)) outcome" where
  "hvac_start_comm_server env getenv mover_created can_open s cfg =
     and_then (if mover_created then mover_start getenv s else Inr s) (\<lambda>s1.
     and_then (hvac_init_comm env getenv True s1) (\<lambda>s2.
     and_then (hvac_comm_list_addr env getenv can_open s2 cfg) (\<lambda>cfg'.
     and_then (register_rpcs env s2) (\<lambda>s3. Inr (s3, cfg')))))"

text \<open>
  \<open>main\<close>. \<open>notice\<close>, \<open>rc\<close> and \<open>pid\<close> are what log4c and \<open>getpid\<close> give \<open>hvac_init_logging\<close>.
\<close>

definition server_main ::
  "hg_env \<Rightarrow> (string \<Rightarrow> string option) \<Rightarrow> int \<Rightarrow> int \<Rightarrow> cint \<Rightarrow> bool \<Rightarrow> bool \<Rightarrow> string list
    \<Rightarrow> 'a server_scheme \<Rightarrow> (path \<Rightarrow> string) \<Rightarrow> ('a server_scheme \<times> (path \<Rightarrow> string)) outcome" where
  "server_main env getenv notice rc pid mover_created can_open argv s cfg =
     (if length argv < 2 then Inl (Exit_process (-1))
      else let s1 = s\<lparr>hvac_server_count := atoi (argv ! 1)\<rparr>
        in and_then (hvac_init_logging HVAC_SERVER notice rc getenv pid) (\<lambda>_.
             hvac_start_comm_server env getenv mover_created can_open s1 cfg))"

end
