(* ===== verification/Server_Facts.thy ===== *)
theory Server_Facts
  imports Server
begin

text \<open>
  What the handlers of \<open>Server\<close> do, call by call, and the invariant of a server node: the
  operation log is flushed before it reaches ten entries and loses nothing, the recorded
  copies have the bytes of their originals, and an open descriptor leads to the bytes of the
  path it was opened for.
\<close>

section \<open>Frame facts\<close>

lemma log_push_simps [simp]:
  "disk (log_push oper d s) = disk s"
  "fd_to_path (log_push oper d s) = fd_to_path s"
  "path_cache_map (log_push oper d s) = path_cache_map s"
  "data_queue (log_push oper d s) = data_queue s"
  "mover (log_push oper d s) = mover s"
  "local_list (log_push oper d s) = local_list s"
  "server_rank (log_push oper d s) = server_rank s"
  "registry (log_push oper d s) = registry s"
  "time_logs (log_push oper d s) = time_logs s"
  "log_buffer (log_push oper d s) = log_buffer s @ [\<lparr>operation = oper, time_ns = d\<rparr>]"
  by (simp_all add: log_push_def)

lemma flush_if_full_simps [simp]:
  "disk (flush_if_full env s) = disk s"
  "fd_to_path (flush_if_full env s) = fd_to_path s"
  "path_cache_map (flush_if_full env s) = path_cache_map s"
  "data_queue (flush_if_full env s) = data_queue s"
  "mover (flush_if_full env s) = mover s"
  "local_list (flush_if_full env s) = local_list s"
  "server_rank (flush_if_full env s) = server_rank s"
  "registry (flush_if_full env s) = registry s"
  by (simp_all add: flush_if_full_def append_to_file_def Let_def)

lemma note_path_simps [simp]:
  "disk (note_path fd s) = disk s"
  "path_cache_map (note_path fd s) = path_cache_map s"
  "data_queue (note_path fd s) = data_queue s"
  "mover (note_path fd s) = mover s"
  "local_list (note_path fd s) = local_list s"
  "server_rank (note_path fd s) = server_rank s"
  "registry (note_path fd s) = registry s"
  "time_logs (note_path fd s) = time_logs s"
  "log_buffer (note_path fd s) = log_buffer s"
  by (simp_all add: note_path_def)

lemma data_cond_signal_simps [simp]:
  "disk (data_cond_signal s) = disk s"
  "fd_to_path (data_cond_signal s) = fd_to_path s"
  "path_cache_map (data_cond_signal s) = path_cache_map s"
  "data_queue (data_cond_signal s) = data_queue s"
  "local_list (data_cond_signal s) = local_list s"
  "server_rank (data_cond_signal s) = server_rank s"
  "registry (data_cond_signal s) = registry s"
  by (simp_all add: data_cond_signal_def)

lemma data_cond_signal_log [simp]:
  "log_buffer (data_cond_signal s) = log_buffer s"
  "time_logs (data_cond_signal s) = time_logs s"
  by (simp_all add: data_cond_signal_def)

section \<open>The operation log\<close>

text \<open>Everything ever logged, in order: what is in the file and what is still buffered.\<close>

definition log_text :: "'a server_scheme \<Rightarrow> string" where
  "log_text s = time_logs s (log_file_name (server_rank s)) @ concat (map log_line (log_buffer s))"

lemma flush_keeps_text [simp]: "log_file_ok env \<Longrightarrow> log_text (flush_if_full env s) = log_text s"
  by (simp add: log_text_def flush_if_full_def append_to_file_def Let_def)

lemma flush_bound: "length (log_buffer (flush_if_full env s)) < 10"
  by (simp add: flush_if_full_def append_to_file_def Let_def)

lemma push_text [simp]:
  "log_text (log_push oper d s) = log_text s @ log_line \<lparr>operation = oper, time_ns = d\<rparr>"
  by (simp add: log_text_def)

lemma log_text_cong:
  "time_logs t = time_logs s \<Longrightarrow> log_buffer t = log_buffer s \<Longrightarrow> server_rank t = server_rank s \<Longrightarrow>
   log_text t = log_text s"
  by (simp add: log_text_def)

section \<open>Reading\<close>

text \<open>Memory is available, and Mercury moves any transfer that fits the client's region.\<close>

definition rpc_env_ok :: "rpc_env \<Rightarrow> i64 \<Rightarrow> i64 \<Rightarrow> bool" where
  "rpc_env_ok env nbytes region \<longleftrightarrow> get_input_ok env \<and> calloc_ok env nbytes \<and>
     bulk_create_ok env nbytes \<and> bulk_done_ok env \<and> respond_ok env \<and>
     (\<forall>m. unat m \<le> unat region \<longrightarrow> bulk_push_ok env m region)"

lemma take_pushed: "take (unat (of_nat (length d) :: i64)) (overlay d buf) = d" if "length d < 2 ^ 31"
  using that by (simp add: overlay_def unat_of_nat_i64)

lemma server_call_read:
  "in_offset inp = -1 \<Longrightarrow> server_file_call env inp nbytes s =
     (fst (posix_read (disk s) (accessfd inp) nbytes),
      fst (snd (posix_read (disk s) (accessfd inp) nbytes)),
      log_push ''read'' (elapsed env)
        (s\<lparr>disk := snd (snd (posix_read (disk s) (accessfd inp) nbytes))\<rparr>))"
  by (simp add: server_file_call_def split: prod.split)

lemma server_call_pread:
  "in_offset inp \<noteq> -1 \<Longrightarrow> server_file_call env inp nbytes s =
     (fst (posix_pread (disk s) (accessfd inp) nbytes (in_offset inp)),
      snd (posix_pread (disk s) (accessfd inp) nbytes (in_offset inp)),
      log_push ''pread'' (elapsed env) s)"
  by (simp add: server_file_call_def split: prod.split)

text \<open>The handler, given what the file call returned.\<close>

lemma hvac_rpc_handler_success:
  assumes "rpc_env_ok env (to_i64 (input_val inp)) (bulk_handle inp)"
    and "server_file_call env inp (to_i64 (input_val inp)) s = (of_nat (length d), d, s1)"
    and "length d < 2 ^ 31" and "length d \<le> unat (bulk_handle inp)"
  shows "hvac_rpc_handler env inp s = Inr (\<lparr>rpc_ret = to_int (of_nat (length d))\<rparr>, d,
           flush_if_full env (note_path (accessfd inp) s1))"
  using assms
  by (simp add: hvac_rpc_handler_def hvac_rpc_handler_bulk_cb_def rpc_env_ok_def Let_def
      of_nat_neq_minus_one unat_of_nat_i64 overlay_def)

lemma hvac_rpc_handler_failure:
  assumes "rpc_env_ok env (to_i64 (input_val inp)) (bulk_handle inp)"
    and "server_file_call env inp (to_i64 (input_val inp)) s = (-1, [], s1)"
    and "unat (to_i64 (input_val inp)) \<le> unat (bulk_handle inp)"
  shows "hvac_rpc_handler env inp s = Inr (\<lparr>rpc_ret = input_val inp\<rparr>,
           replicate (unat (to_i64 (input_val inp))) 0,
           flush_if_full env (note_path (accessfd inp) s1))"
  using assms
  by (simp add: hvac_rpc_handler_def hvac_rpc_handler_bulk_cb_def rpc_env_ok_def Let_def)

text \<open>Both ways a file call can end.\<close>

lemma server_file_call_cases:
  obtains (fail) "server_file_call env inp n s = (-1, [], snd (snd (server_file_call env inp n s)))"
  | (ok) d where "server_file_call env inp n s
        = (of_nat (length d), d, snd (snd (server_file_call env inp n s)))"
      and "length d < 2 ^ 31" and "length d \<le> unat n"
proof -
  have "fst (server_file_call env inp n s) = -1 \<and> fst (snd (server_file_call env inp n s)) = [] \<or>
    (\<exists>d. fst (server_file_call env inp n s) = of_nat (length d) \<and>
       fst (snd (server_file_call env inp n s)) = d \<and> length d < 2 ^ 31 \<and> length d \<le> unat n)"
    using length_file_window_small length_file_window
    by (auto simp: server_file_call_def posix_read_def posix_pread_def Let_def
        split: option.splits prod.splits if_splits)
  then show thesis using that by (metis prod.collapse)
qed

section \<open>The invariant of a server node\<close>

definition descriptor_ok :: "posix \<Rightarrow> open_file \<Rightarrow> path \<Rightarrow> bool" where
  "descriptor_ok ps f p \<longleftrightarrow> of_path f = resolve ps p \<or>
     (\<exists>b. bytes_at ps p = Some b \<and> file_bytes ps (of_path f) = Some b)"

definition descriptors_ok :: "'a data_mover_scheme \<Rightarrow> bool" where
  "descriptors_ok s \<longleftrightarrow> (\<forall>fd f p. fdtab (disk s) fd = Some f \<longrightarrow> fd_to_path s fd = Some p \<longrightarrow>
     p \<noteq> [] \<longrightarrow> descriptor_ok (disk s) f p)"

definition fds_ok :: "posix \<Rightarrow> bool" where
  "fds_ok ps \<longleftrightarrow> fdtab ps (-1) = None \<and> fd_limit ps \<le> 2 ^ 31"

definition server_ok :: "'a server_scheme \<Rightarrow> bool" where
  "server_ok s \<longleftrightarrow> length (log_buffer s) < 10 \<and> cache_coherent s \<and> mover_ok s \<and>
     descriptors_ok s \<and> fds_ok (disk s)"

text \<open>The steps of the mover thread; a wait may also end without a signal.\<close>

inductive mover_step :: "'a data_mover_scheme \<Rightarrow> 'a data_mover_scheme \<Rightarrow> bool" where
  step_spurious: "mover s = Mover_waiting \<Longrightarrow> mover_step s (s\<lparr>mover := Mover_woken\<rparr>)"
| step_wake: "mover s = Mover_woken \<Longrightarrow> mover_step s (mover_wake s)"
| step_copy: "mover s = Mover_copying \<Longrightarrow> fresh_for (disk s) mk (hd (local_list s)) \<Longrightarrow>
    mover_step s (mover_copy_one mk ok s)"
| step_wait: "mover s = Mover_looping \<Longrightarrow> mover_step s (mover_wait s)"

text \<open>The steps of a node: a request handled, or the mover thread moving.\<close>

inductive server_step :: "rpc_env \<Rightarrow> 'a server_scheme \<Rightarrow> 'a server_scheme \<Rightarrow> bool"
  for env :: rpc_env where
  step_rpc: "run_handler env req s = Inr (out, data, s') \<Longrightarrow> server_step env s s'"
| step_mover: "mover_step s s' \<Longrightarrow> server_step env s s'"

text \<open>A node whose mover thread has come to its first wait and that has served nothing yet.\<close>

definition server_started :: "'a server_scheme \<Rightarrow> bool" where
  "server_started s \<longleftrightarrow> log_buffer s = [] \<and> path_cache_map s = (\<lambda>_. None) \<and>
     fd_to_path s = (\<lambda>_. None) \<and> data_queue s = [] \<and> local_list s = [] \<and>
     mover s \<in> {Mover_looping, Mover_waiting} \<and> fds_ok (disk s)"

lemma server_started_ok: "server_started s \<Longrightarrow> server_ok s"
  by (auto simp: server_started_def server_ok_def cache_coherent_def mover_ok_def descriptors_ok_def)

subsection \<open>The descriptors under the file calls\<close>

lemma descriptor_ok_cong:
  "nodes ps' = nodes ps \<Longrightarrow> resolve ps' = resolve ps \<Longrightarrow> descriptor_ok ps' f p = descriptor_ok ps f p"
  using bytes_at_cong [of ps' ps p] by (simp add: descriptor_ok_def file_bytes_def)

lemma descriptor_ok_fdtab [simp]: "descriptor_ok (ps\<lparr>fdtab := x\<rparr>) f p = descriptor_ok ps f p"
  by (rule descriptor_ok_cong) simp_all

lemma fds_ok_calls [simp]:
  assumes "fds_ok ps"
  shows "fds_ok (snd (posix_open ps p))" and "fds_ok (snd (snd (posix_read ps fd n)))"
    and "fds_ok (snd (posix_lseek ps fd off w))" and "fds_ok (snd (posix_close ps fd))"
proof -
  show "fds_ok (snd (posix_open ps p))"
  proof (cases rule: posix_open_cases [of ps p])
    case (ok c fd)
    with assms have "0 \<le> sint fd" by (auto simp: fds_ok_def intro: alloc_fd_nonneg)
    then have "fd \<noteq> -1" by auto
    with assms ok show ?thesis by (simp add: fds_ok_def)
  qed (use assms in simp)
qed (use assms in \<open>auto simp: fds_ok_def posix_read_def posix_lseek_def posix_close_def Let_def
        split: option.splits\<close>)

text \<open>Calls that open nothing: descriptors keep their files, none is added.\<close>

definition same_files :: "posix \<Rightarrow> posix \<Rightarrow> bool" where
  "same_files ps ps' \<longleftrightarrow> nodes ps' = nodes ps \<and> resolve ps' = resolve ps \<and>
     (\<forall>fd f'. fdtab ps' fd = Some f' \<longrightarrow> (\<exists>f. fdtab ps fd = Some f \<and> of_path f = of_path f'))"

lemma same_files_refl [simp]: "same_files ps ps"
  by (simp add: same_files_def)

lemma same_files_calls:
  "same_files ps (snd (snd (posix_read ps fd n)))"
  "same_files ps (snd (posix_lseek ps fd off w))"
  "same_files ps (snd (posix_close ps fd))"
  by (auto simp: same_files_def posix_read_def posix_lseek_def posix_close_def Let_def
      split: option.splits if_splits)

text \<open>Names recorded in \<open>fd_to_path\<close> after a call were recorded before, or are empty.\<close>

definition names_from :: "'a data_mover_scheme \<Rightarrow> 'b data_mover_scheme \<Rightarrow> bool" where
  "names_from s t \<longleftrightarrow> (\<forall>fd p. fd_to_path t fd = Some p \<longrightarrow> p = [] \<or> fd_to_path s fd = Some p)"

lemma descriptors_ok_same_files:
  assumes "descriptors_ok s" and "same_files (disk s) (disk t)" and "names_from s t"
  shows "descriptors_ok t"
proof -
  have "descriptor_ok (disk t) f p"
    if "fdtab (disk t) fd = Some f" and "fd_to_path t fd = Some p" and "p \<noteq> []" for fd f p
  proof -
    from that assms obtain f' where "fdtab (disk s) fd = Some f'" and eq: "of_path f' = of_path f"
      by (auto simp: same_files_def)
    moreover from that assms(3) have "fd_to_path s fd = Some p" by (auto simp: names_from_def)
    ultimately have "descriptor_ok (disk s) f' p"
      using assms(1) that(3) by (auto simp: descriptors_ok_def)
    then have "descriptor_ok (disk s) f p" using eq by (simp add: descriptor_ok_def)
    then show ?thesis
      using assms(2) descriptor_ok_cong [of "disk t" "disk s"] by (simp add: same_files_def)
  qed
  then show ?thesis by (auto simp: descriptors_ok_def)
qed

lemma names_from_note [simp]: "names_from s (note_path fd s)"
  by (auto simp: names_from_def note_path_def snd_map_index_eq split: if_splits)

lemma names_from_eq: "fd_to_path t = fd_to_path s \<Longrightarrow> names_from s t"
  by (simp add: names_from_def)

lemma names_from_erase: "fd_to_path t = map_erase fd (fd_to_path s) \<Longrightarrow> names_from s t"
  by (simp add: names_from_def map_erase_def)

text \<open>New files leave what the descriptors lead to unchanged.\<close>

lemma descriptor_ok_add_node:
  assumes "descriptor_ok ps f p" and "nodes ps c = None"
  shows "descriptor_ok (ps\<lparr>nodes := (nodes ps)(c \<mapsto> n)\<rparr>) f p"
proof (cases "of_path f = resolve ps p")
  case True
  then show ?thesis by (simp add: descriptor_ok_def)
next
  case False
  with assms(1) obtain b where b: "bytes_at ps p = Some b" "file_bytes ps (of_path f) = Some b"
    by (auto simp: descriptor_ok_def)
  have "of_path f \<noteq> c" using b(2) assms(2) by (auto simp: file_bytes_def)
  with b(2) have "file_bytes (ps\<lparr>nodes := (nodes ps)(c \<mapsto> n)\<rparr>) (of_path f) = Some b"
    by (simp add: file_bytes_def)
  moreover have "bytes_at (ps\<lparr>nodes := (nodes ps)(c \<mapsto> n)\<rparr>) p = Some b"
    by (rule bytes_at_mono [OF b(1) assms(2), where x = "''x''"]) simp
  ultimately show ?thesis by (auto simp: descriptor_ok_def)
qed

text \<open>The file systems a copy round passes through only gain nodes.\<close>

lemma mover_copy_one_disk:
  assumes "fresh_for (disk s) mk (hd (local_list s))"
  shows "\<exists>ps. (ps = disk s \<or> (\<exists>c n. nodes (disk s) c = None \<and> ps = (disk s)\<lparr>nodes := (nodes (disk s))(c \<mapsto> n)\<rparr>)) \<and>
    (disk (mover_copy_one mk ok s) = ps \<or> (\<exists>c n. nodes ps c = None \<and>
       disk (mover_copy_one mk ok s) = ps\<lparr>nodes := (nodes ps)(c \<mapsto> n)\<rparr>))"
proof (cases "local_list s")
  case Nil
  then show ?thesis by (auto simp: mover_copy_one_def)
next
  case (Cons p l)
  define ps where "ps = (case mk of Some d \<Rightarrow> fs_mkdir (disk s) d | None \<Rightarrow> disk s)"
  define q where "q = (case mk of Some d \<Rightarrow> d | None \<Rightarrow> nvmepath s) @ ''/'' @ filename p"
  have "ps = disk s \<or> (\<exists>c n. nodes (disk s) c = None \<and> ps = (disk s)\<lparr>nodes := (nodes (disk s))(c \<mapsto> n)\<rparr>)"
    using assms by (auto simp: ps_def fresh_for_def fs_mkdir_def split: option.splits)
  moreover have "disk (mover_copy_one mk ok s) = (case fs_copy ps ok p q of Some ps' \<Rightarrow> ps' | None \<Rightarrow> ps)"
    unfolding mover_copy_one_def Cons Let_def ps_def q_def by (simp split: option.split)
  ultimately show ?thesis
    by (auto split: option.splits dest!: fs_copy_SomeD)
qed

lemma mover_copy_one_fds [simp]:
  "fdtab (disk (mover_copy_one mk ok s)) = fdtab (disk s)"
  "fd_limit (disk (mover_copy_one mk ok s)) = fd_limit (disk s)"
  "fd_to_path (mover_copy_one mk ok s) = fd_to_path s"
  by (auto simp: mover_copy_one_def Let_def fs_mkdir_def split: list.split option.split
      dest!: fs_copy_SomeD)

lemma mover_copy_one_log [simp]: "log_buffer (mover_copy_one mk ok s) = log_buffer s"
  by (simp add: mover_copy_one_def Let_def split: list.split option.split)

lemma mover_wake_simps [simp]:
  "disk (mover_wake s) = disk s" "fd_to_path (mover_wake s) = fd_to_path s"
  "path_cache_map (mover_wake s) = path_cache_map s"
  by (simp_all add: mover_wake_def drain_append)

lemma mover_wait_simps [simp]:
  "disk (mover_wait s) = disk s" "fd_to_path (mover_wait s) = fd_to_path s"
  "path_cache_map (mover_wait s) = path_cache_map s" "data_queue (mover_wait s) = data_queue s"
  "local_list (mover_wait s) = local_list s" "nvmepath (mover_wait s) = nvmepath s"
  "registry (mover_wait s) = registry s"
  "log_buffer (mover_wait t) = log_buffer t" "time_logs (mover_wait t) = time_logs t"
  by (simp_all add: mover_wait_def)

lemma mover_wake_log [simp]:
  "log_buffer (mover_wake s) = log_buffer s" "time_logs (mover_wake s) = time_logs s"
  by (simp_all add: mover_wake_def drain_append)

lemma descriptors_ok_copy:
  assumes "descriptors_ok s" and "fresh_for (disk s) mk (hd (local_list s))"
  shows "descriptors_ok (mover_copy_one mk ok s)"
proof -
  obtain ps where ps: "ps = disk s \<or> (\<exists>c n. nodes (disk s) c = None \<and> ps = (disk s)\<lparr>nodes := (nodes (disk s))(c \<mapsto> n)\<rparr>)"
    and ps': "disk (mover_copy_one mk ok s) = ps \<or> (\<exists>c n. nodes ps c = None \<and>
       disk (mover_copy_one mk ok s) = ps\<lparr>nodes := (nodes ps)(c \<mapsto> n)\<rparr>)"
    using mover_copy_one_disk [OF assms(2)] by blast
  have h: "descriptor_ok ps f p" if "descriptor_ok (disk s) f p" for f p
    using ps that by (auto intro: descriptor_ok_add_node)
  have "descriptor_ok (disk (mover_copy_one mk ok s)) f p" if "descriptor_ok (disk s) f p" for f p
    using ps' h [OF that] by (auto intro: descriptor_ok_add_node)
  then show ?thesis using assms(1) by (auto simp: descriptors_ok_def)
qed

subsection \<open>The handlers keep the invariant\<close>

text \<open>
  What a handler can change: no file and no recorded copy, and of the descriptors either
  positions and closed ones, or one descriptor opened for a path through its recorded copy.
\<close>

definition keeps_node :: "'a server_scheme \<Rightarrow> 'a server_scheme \<Rightarrow> bool" where
  "keeps_node s t \<longleftrightarrow> nodes (disk t) = nodes (disk s) \<and> resolve (disk t) = resolve (disk s) \<and>
     path_cache_map t = path_cache_map s \<and> local_list t = local_list s \<and>
     (mover s = Mover_copying \<longleftrightarrow> mover t = Mover_copying) \<and> (fds_ok (disk s) \<longrightarrow> fds_ok (disk t)) \<and>
     (length (log_buffer s) < 10 \<longrightarrow> length (log_buffer t) < 10)"

inductive node_effect :: "rpc_in \<Rightarrow> 'a server_scheme \<Rightarrow> 'a server_scheme \<Rightarrow> bool" for req :: rpc_in where
  ne_use: "kind_of req \<noteq> K_open \<Longrightarrow> keeps_node s t \<Longrightarrow> same_files (disk s) (disk t) \<Longrightarrow> names_from s t \<Longrightarrow>
    node_effect req s t"
| ne_open: "req = Open_in i \<Longrightarrow> keeps_node s t \<Longrightarrow>
    q = (case path_cache_map s (in_path i) of Some q \<Rightarrow> q | None \<Rightarrow> in_path i) \<Longrightarrow>
    disk t = snd (posix_open (disk s) q) \<Longrightarrow>
    fd_to_path t = (fd_to_path s)(fst (posix_open (disk s) q) \<mapsto> in_path i) \<Longrightarrow> node_effect req s t"

lemma effect_read:
  assumes "hvac_rpc_handler env inp s = Inr (out, data, s')"
  shows "node_effect (Read_in inp) s s'"
proof -
  define n where "n = to_i64 (input_val inp)"
  define s1 where "s1 = snd (snd (server_file_call env inp n s))"
  have s': "s' = flush_if_full env (note_path (accessfd inp) s1)"
    using assms
    by (auto simp: hvac_rpc_handler_def Let_def s1_def n_def hvac_result split: prod.splits)
  have d1: "same_files (disk s) (disk s1)" "fds_ok (disk s) \<longrightarrow> fds_ok (disk s1)" "fd_to_path s1 = fd_to_path s"
    "path_cache_map s1 = path_cache_map s" "mover s1 = mover s" "local_list s1 = local_list s"
    using same_files_calls(1)
    by (auto simp: s1_def server_file_call_def split: prod.splits)
      (metis same_files_calls(1) fds_ok_calls(2) snd_conv)+
  show ?thesis
  proof (rule ne_use)
    show "names_from s s'"
      using names_from_note [of s1 "accessfd inp"] d1(3) by (simp add: s' names_from_def)
    show "keeps_node s s'" using d1 by (simp add: keeps_node_def s' flush_bound same_files_def)
  qed (use d1 in \<open>simp_all add: s'\<close>)
qed

lemma effect_open:
  assumes "hvac_open_rpc_handler env inp s = Inr (out, s')"
  shows "node_effect (Open_in inp) s s'"
proof -
  let ?p = "in_path inp"
  define q where "q = (case path_cache_map s ?p of Some q \<Rightarrow> q | None \<Rightarrow> ?p)"
  define s1 where "s1 = (case path_cache_map s ?p of Some _ \<Rightarrow> log_push ''redirect'' 0 s | None \<Rightarrow> s)"
  have s1: "disk s1 = disk s" "fd_to_path s1 = fd_to_path s" "path_cache_map s1 = path_cache_map s"
    "mover s1 = mover s" "local_list s1 = local_list s"
    by (simp_all add: s1_def split: option.split)
  obtain fd ps where o: "posix_open (disk s) q = (fd, ps)" by (cases "posix_open (disk s) q")
  define s3 where "s3 = flush_if_full env (log_push ''open'' (elapsed env) (s1\<lparr>disk := ps\<rparr>))"
  have s': "s' = s3\<lparr>fd_to_path := (fd_to_path s3)(fd \<mapsto> ?p)\<rparr>"
    using assms o
    unfolding hvac_open_rpc_handler_def Let_def s1_def [symmetric] q_def [symmetric]
    by (simp add: s1 s3_def hvac_result)
  have s3: "disk s3 = ps" "fd_to_path s3 = fd_to_path s" "path_cache_map s3 = path_cache_map s"
    "mover s3 = mover s" "local_list s3 = local_list s" "length (log_buffer s3) < 10"
    by (simp_all add: s3_def s1 flush_bound)
  have "keeps_node s s'"
    using posix_calls_keep_nodes(1) [of "disk s" q] posix_calls_keep_resolve(1) [of "disk s" q]
      fds_ok_calls(1) [of "disk s" q]
    by (simp add: keeps_node_def s' s3 o)
  then show ?thesis by (rule ne_open [OF refl _ q_def]) (simp_all add: s' s3 o)
qed

lemma effect_close:
  assumes "hvac_close_rpc_handler env inp s = Inr s'"
  shows "node_effect (Close_in inp) s s'"
proof -
  let ?fd = "close_fd inp"
  define s2 where "s2 = flush_if_full env
    (log_push ''close'' (elapsed env) (s\<lparr>disk := snd (posix_close (disk s) ?fd)\<rparr>))"
  define p where "p = fst (map_index [] (fd_to_path s2) ?fd)"
  define s3 where "s3 = s2\<lparr>fd_to_path := snd (map_index [] (fd_to_path s2) ?fd)\<rparr>"
  define s4 where "s4 = (if \<not> map_has (path_cache_map s3) p
      then (data_cond_signal s3)\<lparr>data_queue := data_queue s3 @ [p]\<rparr> else s3)"
  have s': "s' = s4\<lparr>fd_to_path := map_erase ?fd (fd_to_path s4)\<rparr>"
  proof -
    have "hvac_close_rpc_handler env inp s = assert_that (get_input_ok env)
      (assert_that (fst (posix_close (disk s) ?fd) = 0)
        (Inr (s4\<lparr>fd_to_path := map_erase ?fd (fd_to_path s4)\<rparr>)))"
      unfolding hvac_close_rpc_handler_def Let_def s4_def s3_def p_def s2_def
      by (simp add: case_prod_beta)
    with assms show ?thesis by (simp add: assert_that_eq_Inr)
  qed
  have s4: "disk s4 = snd (posix_close (disk s) ?fd)" "path_cache_map s4 = path_cache_map s"
    "local_list s4 = local_list s" "length (log_buffer s4) < 10"
    "map_erase ?fd (fd_to_path s4) = map_erase ?fd (fd_to_path s)"
    by (simp_all add: s4_def s3_def s2_def flush_bound map_index_then_erase)
  have m: "mover s = Mover_copying \<longleftrightarrow> mover s4 = Mover_copying"
    by (simp add: s4_def s3_def s2_def data_cond_signal_def)
  show ?thesis
  proof (rule ne_use)
    show "keeps_node s s'"
      using m s4 same_files_calls(3) [of "disk s" ?fd] by (simp add: keeps_node_def s' same_files_def)
  qed (use same_files_calls(3) in \<open>simp_all add: s' s4 names_from_erase\<close>)
qed

lemma effect_seek:
  assumes "hvac_seek_rpc_handler env inp s = Inr (out, s')"
  shows "node_effect (Seek_in inp) s s'"
proof -
  let ?ps = "snd (posix_lseek (disk s) (seek_fd inp) (to_i64 (seek_offset inp)) (seek_whence inp))"
  have s': "s' = s\<lparr>disk := ?ps\<rparr>"
    using assms by (simp add: hvac_seek_rpc_handler_def hvac_result split: prod.splits)
  have "same_files (disk s) ?ps" by (rule same_files_calls)
  then show ?thesis by (intro ne_use) (simp_all add: s' keeps_node_def names_from_eq same_files_def)
qed

lemma handler_effect: "run_handler env req s = Inr (out, data, s') \<Longrightarrow> node_effect req s s'"
  by (cases req)
    (auto simp: run_handler_def and_then_eq_Inr intro: effect_read effect_open effect_close effect_seek)

text \<open>
  The node with the files \<open>N\<close> in the place of those it has. The invariant of what is seen
  this way is kept by every handler, whatever files the handler itself works on.
\<close>

definition seen :: "(path \<rightharpoonup> node) \<Rightarrow> 'a server_scheme \<Rightarrow> 'a server_scheme" where
  "seen N s = s\<lparr>disk := (disk s)\<lparr>nodes := N\<rparr>\<rparr>"

lemma seen_simps [simp]:
  "nodes (disk (seen N s)) = N" "resolve (disk (seen N s)) = resolve (disk s)"
  "fdtab (disk (seen N s)) = fdtab (disk s)" "fd_limit (disk (seen N s)) = fd_limit (disk s)"
  "openable (disk (seen N s)) = openable (disk s)"
  "path_cache_map (seen N s) = path_cache_map s" "fd_to_path (seen N s) = fd_to_path s"
  "local_list (seen N s) = local_list s" "mover (seen N s) = mover s" "log_buffer (seen N s) = log_buffer s"
  "mover_ok (seen N s) = mover_ok s" "fds_ok (disk (seen N s)) = fds_ok (disk s)"
  by (simp_all add: seen_def mover_ok_def fds_ok_def)

lemma seen_own [simp]: "seen (nodes (disk s)) s = s"
  by (simp add: seen_def)

text \<open>Opening: the descriptor leads to the file itself or to a recorded copy of it.\<close>

lemma descriptors_ok_open:
  assumes "descriptors_ok (seen N s)" and "fds_ok (disk s)" and "cache_coherent (seen N s)"
    and "q = (case path_cache_map s p of Some q \<Rightarrow> q | None \<Rightarrow> p)"
    and "disk t = snd (posix_open (disk s) q)"
    and "fd_to_path t = (fd_to_path s)(fst (posix_open (disk s) q) \<mapsto> p)"
  shows "descriptors_ok (seen N t)"
proof -
  let ?ps = "disk (seen N s)"
  have view: "descriptor_ok (disk (seen N t)) f x = descriptor_ok ?ps f x" for f x
    using posix_calls_keep_resolve(1) [of "disk s" q] assms(5) by (intro descriptor_ok_cong) simp_all
  show ?thesis
  proof (cases rule: posix_open_cases [of "disk s" q])
    case fail
    with assms(1,2,5,6) view show ?thesis
      by (auto simp: descriptors_ok_def fds_ok_def)
  next
    case (ok c fd)
    have new: "descriptor_ok ?ps \<lparr>of_path = c, of_pos = 0\<rparr> p"
    proof (cases "path_cache_map s p")
      case None
      with ok(1) assms(4) show ?thesis by (simp add: descriptor_ok_def canonical_in_Some)
    next
      case (Some q')
      with assms(3,4) obtain b where "bytes_at ?ps p = Some b" "bytes_at ?ps q = Some b"
        by (auto simp: cache_coherent_def)
      moreover have "c = resolve (disk s) q" using ok(1) by (simp add: canonical_in_Some)
      ultimately show ?thesis
        by (auto simp: descriptor_ok_def bytes_at_def canonical_in_def Let_def split: if_splits)
    qed
    show ?thesis
      using assms(1,5,6) ok(4) new view by (auto simp: descriptors_ok_def)
  qed
qed

lemma server_ok_effect:
  assumes "server_ok (seen N s)" and "node_effect req s t"
  shows "server_ok (seen N t)"
proof -
  have k: "keeps_node s t" using assms(2) by (cases rule: node_effect.cases)
  have "descriptors_ok (seen N t)"
    using assms(2)
  proof (cases rule: node_effect.cases)
    case ne_use
    then have "same_files (disk (seen N s)) (disk (seen N t))" "names_from (seen N s) (seen N t)"
      by (simp_all add: same_files_def names_from_def)
    with assms(1) show ?thesis by (auto simp: server_ok_def intro: descriptors_ok_same_files)
  next
    case (ne_open i q)
    with assms(1) show ?thesis by (auto simp: server_ok_def intro: descriptors_ok_open)
  qed
  moreover have "cache_coherent (seen N t) = cache_coherent (seen N s)"
    using k by (intro cache_coherent_cong) (simp_all add: keeps_node_def)
  ultimately show ?thesis using assms(1) k by (simp add: server_ok_def keeps_node_def mover_ok_def)
qed

lemma server_ok_handler:
  assumes "server_ok s" and "run_handler env req s = Inr (out, data, s')"
  shows "server_ok s'"
proof -
  note e = handler_effect [OF assms(2)]
  then have "nodes (disk s') = nodes (disk s)" by (cases rule: node_effect.cases) (simp_all add: keeps_node_def)
  with server_ok_effect [of "nodes (disk s)" s req s'] assms(1) e seen_own [of s'] show ?thesis by simp
qed

text \<open>A file that appears under a name not in use disturbs nothing.\<close>

lemma server_ok_add_node:
  assumes "server_ok (seen N s)" and "N c = None"
  shows "server_ok (seen (N(c \<mapsto> n)) s)"
proof -
  let ?s = "seen N s"
  let ?t = "seen (N(c \<mapsto> n)) s"
  have seen: "disk ?t = (disk ?s)\<lparr>nodes := (nodes (disk ?s))(c \<mapsto> n)\<rparr>" by (simp add: seen_def)
  have old: "nodes (disk ?s) c = None" using assms(2) by simp
  have bytes: "bytes_at (disk ?t) p = Some b" if "bytes_at (disk ?s) p = Some b" for p b
    using bytes_at_mono [OF that old, of "''x''" n] unfolding seen by simp
  have desc: "descriptor_ok (disk ?t) f p" if "descriptor_ok (disk ?s) f p" for f p
    unfolding seen by (rule descriptor_ok_add_node [OF that old])
  have "cache_coherent ?t" unfolding cache_coherent_def
  proof (intro allI impI)
    fix p q
    assume "path_cache_map ?t p = Some q"
    then have "\<exists>b. bytes_at (disk ?s) p = Some b \<and> bytes_at (disk ?s) q = Some b"
      using assms(1) by (simp add: server_ok_def cache_coherent_def)
    with bytes show "\<exists>b. bytes_at (disk ?t) p = Some b \<and> bytes_at (disk ?t) q = Some b" by blast
  qed
  moreover have "descriptors_ok ?t"
    using assms(1) desc by (simp add: descriptors_ok_def server_ok_def)
  ultimately show ?thesis using assms(1) by (simp add: server_ok_def)
qed

lemma server_ok_mover:
  assumes "mover_step s t" and "server_ok s"
  shows "server_ok t"
  using assms(1)
proof (cases rule: mover_step.cases)
  case step_spurious
  have "cache_coherent t = cache_coherent s"
    by (rule cache_coherent_cong) (simp_all add: step_spurious)
  with assms(2) step_spurious show ?thesis
    by (simp add: server_ok_def mover_ok_def descriptors_ok_def)
next
  case step_wake
  with assms(2) show ?thesis
    by (simp add: server_ok_def mover_wake_ok descriptors_ok_def)
next
  case (step_copy mk ok)
  with assms(2) show ?thesis
    by (simp add: server_ok_def mover_copy_one_coherent mover_copy_one_ok descriptors_ok_copy fds_ok_def)
next
  case step_wait
  with assms(2) show ?thesis
    by (simp add: server_ok_def mover_wait_ok descriptors_ok_def)
qed

lemma server_ok_step:
  assumes "server_step env s t" and "server_ok s"
  shows "server_ok t"
  using assms by (cases rule: server_step.cases) (auto intro: server_ok_handler server_ok_mover)

text \<open>The mover opens and closes nothing.\<close>

lemma mover_step_descriptors:
  assumes "mover_step s t"
  shows "fdtab (disk t) = fdtab (disk s) \<and> fd_to_path t = fd_to_path s"
  using assms by (cases rule: mover_step.cases) simp_all

interpretation server_node: inductive_invariant server_started "server_step env" server_ok for env
  by unfold_locales (auto intro: server_started_ok server_ok_step)

lemma server_reachable_ok:
  assumes "reach server_started (server_step env) s"
  shows "length (log_buffer s) < 10 \<and> cache_coherent s \<and> descriptors_ok s \<and>
    (mover s = Mover_copying \<longleftrightarrow> local_list s \<noteq> [])"
  using server_node.reach_inv [OF assms] by (simp add: server_ok_def mover_ok_def)

end
