(* ===== verification/Cluster.thy ===== *)
theory Cluster
  imports File_Service Server_Facts
begin

text \<open>
  Client and servers put together: the world behind the client's Mercury is a set of server
  nodes, found by their published addresses, whose handlers are those of \<open>Server\<close>. The nodes
  are shown to provide the service the client relies on, so that an intercepted descriptor
  satisfies the same contract as a local one.
\<close>

section \<open>Servers behind addresses\<close>

type_synonym cluster = "string \<Rightarrow> server option"

text \<open>A handler call around which nothing fails.\<close>

definition fault_free :: "i64 \<Rightarrow> bool \<Rightarrow> rpc_env" where
  "fault_free dt lf = \<lparr>get_input_ok = True, calloc_ok = (\<lambda>_. True), bulk_create_ok = (\<lambda>_. True),
     bulk_push_ok = (\<lambda>m region. unat m \<le> unat region), bulk_done_ok = True, respond_ok = True,
     elapsed = dt, log_file_ok = lf\<rparr>"

text \<open>
  A request is handled by the node at the address, by the handler registered for its
  identifier. A daemon that stops in a handler is gone, and its requests stay unanswered: this
  is what a lost answer is to the client. A transport that notices that its peer is gone can
  instead report an error to the callback, and those of \<open>open\<close> and \<open>read\<close> assert that there is
  none and so end the client (\<open>Reply\<close> with a nonzero status, which \<open>Client_Comm\<close> models, and which
  no daemon here gives to a registered request). An unregistered identifier is answered with an error status.
\<close>

definition cluster_forward :: "rpc_env \<Rightarrow> string \<Rightarrow> i64 \<Rightarrow> rpc_in \<Rightarrow> cluster \<Rightarrow> hg_reply \<times> cluster" where
  "cluster_forward env addr rid req w = (case w addr of
       None \<Rightarrow> (No_reply, w)
     | Some s \<Rightarrow>
         if registry s rid \<noteq> Some (kind_of req) then (Reply (-1) 0 [], w)
         else (case run_handler env req s of
             Inl _ \<Rightarrow> (No_reply, w(addr := None))
           | Inr (out, data, s') \<Rightarrow>
               ((case out of Some r \<Rightarrow> Reply 0 r data | None \<Rightarrow> No_reply), w(addr \<mapsto> s'))))"

definition cluster_view :: "cluster \<Rightarrow> string \<Rightarrow> cint \<Rightarrow> (byte list \<times> nat) option" where
  "cluster_view w addr rfd = (case w addr of None \<Rightarrow> None | Some s \<Rightarrow> fd_view (disk s) rfd)"

definition cluster_serves :: "cluster \<Rightarrow> string \<Rightarrow> i64 \<Rightarrow> rpc_kind \<Rightarrow> bool" where
  "cluster_serves w addr rid k \<longleftrightarrow> (case w addr of None \<Rightarrow> False | Some s \<Rightarrow> registry s rid = Some k)"

section \<open>The nodes provide the file service\<close>

lemma fd_view_other: "fd' \<noteq> fd \<Longrightarrow> fd_view (ps\<lparr>fdtab := (fdtab ps)(fd \<mapsto> f)\<rparr>) fd' = fd_view ps fd'"
  by (simp add: fd_view_def split: option.split)

lemma fd_view_update:
  "file_bytes ps (of_path f) = Some b \<Longrightarrow>
   fd_view (ps\<lparr>fdtab := (fdtab ps)(fd \<mapsto> f)\<rparr>) fd = Some (b, of_pos f)"
  by (simp add: fd_view_def)

lemma undisturbed_update:
  assumes "w addr = Some s" and "registry s' = registry s"
    and "\<And>fd. fd \<noteq> rfd \<Longrightarrow> fd_view (disk s') fd = fd_view (disk s) fd"
  shows "undisturbed cluster_view cluster_serves addr rfd w (w(addr \<mapsto> s'))"
  using assms by (auto simp: undisturbed_def cluster_view_def cluster_serves_def fun_eq_iff)

lemma fault_free_simps [simp]:
  "elapsed (fault_free dt lf) = dt" "log_file_ok (fault_free dt lf) = lf"
  "get_input_ok (fault_free dt lf)" "respond_ok (fault_free dt lf)"
  by (simp_all add: fault_free_def)

lemma fault_free_ok: "rpc_env_ok (fault_free dt lf) n region"
  by (simp add: rpc_env_ok_def fault_free_def)

lemma server_call_simps [simp]:
  "registry (snd (snd (server_file_call env inp n s))) = registry s"
  by (simp add: server_file_call_def split: prod.split)

lemma unat_to_i64: "0 \<le> sint n \<Longrightarrow> unat (to_i64 n) = nat (sint n)"
  by (simp add: unat_nonneg)

text \<open>A sequential read, a positioned read and a seek on a node.\<close>

lemma server_read_view:
  assumes "fd_view (disk s) rfd = Some (b, pos)" and "0 \<le> sint n" and "unat (to_i64 n) \<le> unat region"
  defines "d \<equiv> file_window b pos (to_i64 n)"
  shows "\<exists>s'. run_handler (fault_free dt lf) (Read_in \<lparr>input_val = n, bulk_handle = region,
        accessfd = rfd, in_offset = -1\<rparr>) s = Inr (Some (to_int (of_nat (length d))), d, s') \<and>
      fd_view (disk s') rfd = Some (b, pos + length d) \<and> registry s' = registry s \<and>
      (\<forall>fd. fd \<noteq> rfd \<longrightarrow> fd_view (disk s') fd = fd_view (disk s) fd)"
proof -
  let ?inp = "\<lparr>input_val = n, bulk_handle = region, accessfd = rfd, in_offset = -1\<rparr>"
  obtain f where f: "fdtab (disk s) rfd = Some f" "file_bytes (disk s) (of_path f) = Some b"
    and r: "posix_read (disk s) rfd (to_i64 n) = (of_nat (length d), d,
      (disk s)\<lparr>fdtab := (fdtab (disk s))(rfd \<mapsto> f\<lparr>of_pos := pos + length d\<rparr>)\<rparr>)"
    using posix_read_view [OF assms(1), of "to_i64 n"] assms(2) by (auto simp: d_def)
  define s1 where "s1 = log_push ''read'' dt
    (s\<lparr>disk := (disk s)\<lparr>fdtab := (fdtab (disk s))(rfd \<mapsto> f\<lparr>of_pos := pos + length d\<rparr>)\<rparr>\<rparr>)"
  let ?s' = "flush_if_full (fault_free dt lf) (note_path rfd s1)"
  have call: "server_file_call (fault_free dt lf) ?inp (to_i64 (input_val ?inp)) s
      = (of_nat (length d), d, s1)"
    by (simp add: server_call_read r s1_def)
  have "length d < 2 ^ 31" and "length d \<le> unat region"
    using length_file_window_small [of b pos "to_i64 n"] length_file_window [of b pos "to_i64 n"] assms(3)
    unfolding d_def by linarith+
  then have "hvac_rpc_handler (fault_free dt lf) ?inp s
      = Inr (\<lparr>rpc_ret = to_int (of_nat (length d))\<rparr>, d, ?s')"
    using hvac_rpc_handler_success [OF fault_free_ok call] by simp
  moreover have "disk ?s' = (disk s)\<lparr>fdtab := (fdtab (disk s))(rfd \<mapsto> f\<lparr>of_pos := pos + length d\<rparr>)\<rparr>"
    by (simp add: s1_def)
  ultimately show ?thesis using f
    by (intro exI [of _ ?s']) (simp add: run_handler_def fd_view_other fd_view_update s1_def)
qed

lemma server_pread_view:
  assumes "fd_view (disk s) rfd = Some (b, pos)" and "0 \<le> sint n" and "0 \<le> sint off"
  defines "d \<equiv> file_window b (nat (sint off)) (to_i64 n)"
  shows "\<exists>s'. run_handler (fault_free dt lf) (Read_in \<lparr>input_val = n, bulk_handle = to_i64 n,
        accessfd = rfd, in_offset = off\<rparr>) s = Inr (Some (to_int (of_nat (length d))), d, s') \<and>
      fd_view (disk s') rfd = Some (b, pos) \<and> registry s' = registry s \<and>
      (\<forall>fd. fd \<noteq> rfd \<longrightarrow> fd_view (disk s') fd = fd_view (disk s) fd)"
proof -
  let ?inp = "\<lparr>input_val = n, bulk_handle = to_i64 n, accessfd = rfd, in_offset = off\<rparr>"
  have off: "off \<noteq> -1" using assms(3) by auto
  have r: "posix_pread (disk s) rfd (to_i64 n) off = (of_nat (length d), d)"
    using posix_pread_view [OF assms(1), of "to_i64 n" off] assms(2,3) by (simp add: d_def)
  let ?s' = "flush_if_full (fault_free dt lf) (note_path rfd (log_push ''pread'' dt s))"
  have call: "server_file_call (fault_free dt lf) ?inp (to_i64 (input_val ?inp)) s
      = (of_nat (length d), d, log_push ''pread'' dt s)"
    by (simp add: server_call_pread r off)
  have "length d < 2 ^ 31" and "length d \<le> unat (to_i64 n)"
    unfolding d_def using length_file_window_small length_file_window by blast+
  then have "hvac_rpc_handler (fault_free dt lf) ?inp s
      = Inr (\<lparr>rpc_ret = to_int (of_nat (length d))\<rparr>, d, ?s')"
    using hvac_rpc_handler_success [OF fault_free_ok call] by simp
  then show ?thesis using assms(1) by (intro exI [of _ ?s']) (simp add: run_handler_def)
qed

lemma server_seek_view:
  assumes "fd_view (disk s) rfd = Some (b, pos)" and "seek_base b pos wh = Some v"
    and "0 \<le> v + sint off" and "v + sint off < 2 ^ 31"
  shows "\<exists>s'. run_handler (fault_free dt lf) (Seek_in \<lparr>seek_fd = rfd, seek_offset = off,
        seek_whence = wh\<rparr>) s = Inr (Some (word_of_int (v + sint off)), [], s') \<and>
      fd_view (disk s') rfd = Some (b, nat (v + sint off)) \<and> registry s' = registry s \<and>
      (\<forall>fd. fd \<noteq> rfd \<longrightarrow> fd_view (disk s') fd = fd_view (disk s) fd)"
proof -
  define k where "k = nat (v + sint off)"
  have k: "v + sint off = int k" "k < 2 ^ 31" using assms(3,4) by (simp_all add: k_def)
  then obtain f where f: "fdtab (disk s) rfd = Some f" "file_bytes (disk s) (of_path f) = Some b"
    and r: "posix_lseek (disk s) rfd (to_i64 off) wh
      = (of_nat k, (disk s)\<lparr>fdtab := (fdtab (disk s))(rfd \<mapsto> f\<lparr>of_pos := k\<rparr>)\<rparr>)"
    using posix_lseek_view [OF assms(1,2), of "to_i64 off" k] by auto
  let ?ps = "(disk s)\<lparr>fdtab := (fdtab (disk s))(rfd \<mapsto> f\<lparr>of_pos := k\<rparr>)\<rparr>"
  show ?thesis using f r k(2) unfolding k(1)
    by (intro exI [of _ "s\<lparr>disk := ?ps\<rparr>"])
      (simp add: run_handler_def hvac_seek_rpc_handler_def fd_view_other fd_view_update to_int_of_nat)
qed

text \<open>
  A request that a node answers, seen from the client: it goes to the node at the address, which
  changes the one descriptor.
\<close>

lemma cluster_answers:
  assumes "cluster_serves w addr rid (kind_of req)" and "cluster_view w addr rfd = Some v"
    and "\<And>s :: server. fd_view (disk s) rfd = Some v \<Longrightarrow>
      \<exists>s'. run_handler env req s = Inr (Some r, d, s') \<and> fd_view (disk s') rfd = Some v' \<and>
        registry s' = registry s \<and> (\<forall>fd. fd \<noteq> rfd \<longrightarrow> fd_view (disk s') fd = fd_view (disk s) fd)"
  shows "\<exists>w'. cluster_forward env addr rid req w = (Reply 0 r d, w') \<and> cluster_view w' addr rfd = Some v' \<and>
    undisturbed cluster_view cluster_serves addr rfd w w'"
proof -
  obtain s where s: "w addr = Some s" "registry s rid = Some (kind_of req)" "fd_view (disk s) rfd = Some v"
    using assms(1,2) by (auto simp: cluster_serves_def cluster_view_def split: option.splits)
  from assms(3) [OF s(3)] obtain s' where
    s': "run_handler env req s = Inr (Some r, d, s')" "fd_view (disk s') rfd = Some v'" "registry s' = registry s"
      "\<forall>fd. fd \<noteq> rfd \<longrightarrow> fd_view (disk s') fd = fd_view (disk s) fd" by blast
  have "undisturbed cluster_view cluster_serves addr rfd w (w(addr \<mapsto> s'))"
    by (rule undisturbed_update [where s = s]) (use s s' in auto)
  with s s' show ?thesis
    by (intro exI [of _ "w(addr \<mapsto> s')"]) (simp add: cluster_forward_def cluster_view_def)
qed

interpretation cluster: file_service "cluster_forward (fault_free dt lf)" cluster_view cluster_serves
  for dt lf
proof (unfold_locales, goal_cases)
  case (1 w a rid rfd b pos n)
  show ?case by (rule cluster_answers [OF _ 1(2) server_read_view [OF _ 1(3) order_refl]]) (use 1(1) in simp)
next
  case (2 w a rid rfd b pos n off)
  show ?case by (rule cluster_answers [OF _ 2(2) server_pread_view [OF _ 2(3,4)]]) (use 2(1) in simp)
next
  case (3 w a rid rfd b pos wh v off)
  show ?case by (rule cluster_answers [OF _ 3(2) server_seek_view [OF _ 3(3-5)]]) (use 3(1) in simp)
qed

end
