(* ===== verification/Transparency.thy ===== *)
theory Transparency
  imports Cluster
begin

unbundle bit_operations_syntax

text \<open>
  An intercepted descriptor behaves as a local one: the read, \<open>pread\<close> and \<open>lseek\<close> wrappers
  over the servers satisfy the contract of \<open>File_Reader\<close>, and opening and closing through the
  wrappers establish and end it.
\<close>

section \<open>A deployment without faults\<close>

text \<open>Mercury delivers to the cluster, and every function to intercept is found.\<close>

definition deployed ::
  "('o, string, cluster) cenv \<Rightarrow> i64 \<Rightarrow> bool \<Rightarrow> ('o, string, cluster) cenv" where
  "deployed e dt lf = e\<lparr>hg_forward := cluster_forward (fault_free dt lf), hg_create_ok := True,
     hg_free_ok := True, hg_bulk_ok := (\<lambda>_. True), dlsym := (\<lambda>_. True)\<rparr>"

lemma deployed_simps [simp]:
  "hg_forward (deployed e dt lf) = cluster_forward (fault_free dt lf)"
  "mercury_ok (deployed e dt lf)" "dlsym (deployed e dt lf) f"
  by (simp_all add: deployed_def mercury_ok_def)

abbreviation tracked_view ::
  "('o, string, cluster) cenv \<Rightarrow> ('o, cluster) proc \<Rightarrow> cint \<Rightarrow> (byte list \<times> nat) option" where
  "tracked_view \<equiv> remote_view cluster_view cluster_serves"

section \<open>The application's reads through the wrappers\<close>

definition hvac_read :: "('o, 'a, 'w) cenv \<Rightarrow> cint \<Rightarrow> ('o, 'w) proc \<Rightarrow> nat \<Rightarrow> (byte list \<times> ('o, 'w) proc) option" where
  "hvac_read e fd p n = (case wrap_read e fd (Some (replicate n 0)) (of_nat n) p of
       Inr (r, Some mem, p') \<Rightarrow> if r = -1 then None else Some (take (unat r) mem, p')
     | _ \<Rightarrow> None)"

definition hvac_pread ::
  "('o, 'a, 'w) cenv \<Rightarrow> cint \<Rightarrow> ('o, 'w) proc \<Rightarrow> nat \<Rightarrow> nat \<Rightarrow> (byte list \<times> ('o, 'w) proc) option" where
  "hvac_pread e fd p n q = (case wrap_pread e fd (Some (replicate n 0)) (of_nat n) (of_nat q) p of
       Inr (r, Some mem, p') \<Rightarrow> if r = -1 then None else Some (take (unat r) mem, p')
     | _ \<Rightarrow> None)"

definition hvac_seek :: "('o, 'a, 'w) cenv \<Rightarrow> cint \<Rightarrow> ('o, 'w) proc \<Rightarrow> nat \<Rightarrow> (nat \<times> ('o, 'w) proc) option" where
  "hvac_seek e fd p q = (case wrap_lseek e fd (of_nat q) SEEK_SET p of
       Inr (r, p') \<Rightarrow> if r = -1 then None else Some (nat (sint r), p')
     | _ \<Rightarrow> None)"

text \<open>The seek wrapper on a tracked descriptor.\<close>

lemma wrap_lseek_tracked:
  assumes "tracked_view (deployed e dt lf) p fd = Some (b, pos)"
    and "seek_base b pos wh = Some v" and "- (2 ^ 31) \<le> sint off" and "sint off < 2 ^ 31"
    and "0 \<le> v + sint off" and "v + sint off < 2 ^ 31"
  shows "\<exists>p'. wrap_lseek (deployed e dt lf) fd off wh p = Inr (word_of_int (v + sint off), p') \<and>
    tracked_view (deployed e dt lf) p' fd = Some (b, nat (v + sint off)) \<and> os p' = os p"
proof -
  obtain a rfd where r: "remote_end (deployed e dt lf) p fd = Some (a, rfd)" "\<not> redirect_off p"
    using remote_view_SomeD [OF assms(1)] by blast
  then have "wrap_lseek (deployed e dt lf) fd off wh p
      = hvac_remote_lseek (deployed e dt lf) fd (to_int off) wh (l4c p)"
    using remote_end_tracked [OF r(1)] by (simp add: wrap_lseek_def MAP_OR_FAIL_def)
  then show ?thesis
    using cluster.remote_lseek_law [OF _ _ assms, of dt lf] by auto
qed

text \<open>A positioned read carries its offset at full width.\<close>

lemma hvac_pread_view:
  assumes "tracked_view (deployed e dt lf) p fd = Some (b, pos)" and "n \<le> max_rw" and "q < 2 ^ 63"
  shows "\<exists>p'. hvac_pread (deployed e dt lf) fd p n q = Some (take n (drop q b), p') \<and>
    tracked_view (deployed e dt lf) p' fd = Some (b, pos)"
proof -
  have len: "length (take n (drop q b)) < 2 ^ 31" using assms(2) by (simp add: max_rw_def)
  have sq: "sint (of_nat q :: i64) = int q" by (rule sint_of_nat_i64 [OF assms(3)])
  then have "0 \<le> sint (of_nat q :: i64)" by simp
  from cluster.wrap_pread_law [OF deployed_simps(1,2,3) assms(1,2) this, of "replicate n 0"]
  show ?thesis
    using take_pushed [OF len] of_nat_neq_minus_one [OF len]
    by (auto simp: hvac_pread_def sq simp del: of_int_of_nat_eq)
qed

interpretation hvac_file: seekable_file "hvac_read (deployed e dt lf) fd"
  "\<lambda>p. tracked_view (deployed e dt lf) p fd" max_rw "hvac_pread (deployed e dt lf) fd"
  "hvac_seek (deployed e dt lf) fd" for e dt lf fd
proof unfold_locales
  fix p b pos n
  assume v: "tracked_view (deployed e dt lf) p fd = Some (b, pos)" and n: "n \<le> max_rw"
  have len: "length (take n (drop pos b)) < 2 ^ 31" using n by (simp add: max_rw_def)
  show "\<exists>p'. hvac_read (deployed e dt lf) fd p n = Some (take n (drop pos b), p') \<and>
    tracked_view (deployed e dt lf) p' fd = Some (b, pos + length (take n (drop pos b)))"
    using cluster.wrap_read_law [OF deployed_simps(1,2,3) v n, of "replicate n 0"]
      take_pushed [OF len] of_nat_neq_minus_one [OF len]
    by (auto simp: hvac_read_def)
next
  fix p b pos n q
  assume v: "tracked_view (deployed e dt lf) p fd = Some (b, pos)" and n: "n \<le> max_rw"
    and q: "q \<le> max_rw"
  have "q < 2 ^ 63" using q by (simp add: max_rw_def)
  from hvac_pread_view [OF v n this] show "\<exists>p'. hvac_pread (deployed e dt lf) fd p n q = Some (take n (drop q b), p') \<and>
    tracked_view (deployed e dt lf) p' fd = Some (b, pos)" .
next
  fix p b pos q
  assume v: "tracked_view (deployed e dt lf) p fd = Some (b, pos)" and q: "q \<le> max_rw"
  have sq: "sint (of_nat q :: i64) = int q" by (rule sint_of_nat_max_rw [OF q])
  have q31: "q < 2 ^ 31" using q by (simp add: max_rw_def)
  show "\<exists>p'. hvac_seek (deployed e dt lf) fd p q = Some (q, p') \<and>
    tracked_view (deployed e dt lf) p' fd = Some (b, q)"
    using wrap_lseek_tracked [OF v, of SEEK_SET 0 "of_nat q"] q31 of_nat_neq_minus_one [OF q31]
    by (auto simp: hvac_seek_def sq seek_base_def)
qed

section \<open>Opening\<close>

text \<open>Where a server looks for a path: at the recorded copy, if there is one.\<close>

definition redirected :: "'a data_mover_scheme \<Rightarrow> path \<Rightarrow> path" where
  "redirected s c = (case path_cache_map s c of Some q \<Rightarrow> q | None \<Rightarrow> c)"

text \<open>What an open that got the descriptor \<open>rfd\<close> on the disk \<open>ps\<close> leaves of a server.\<close>

definition opened_by :: "path \<Rightarrow> cint \<Rightarrow> posix \<Rightarrow> 'a server_scheme \<Rightarrow> 'a server_scheme \<Rightarrow> bool" where
  "opened_by c rfd ps s s' \<longleftrightarrow> disk s' = ps \<and> fd_to_path s' = (fd_to_path s)(rfd \<mapsto> c) \<and>
     registry s' = registry s \<and> path_cache_map s' = path_cache_map s \<and> data_queue s' = data_queue s \<and>
     mover s' = mover s \<and> local_list s' = local_list s \<and> server_ok s'"

lemma server_open_view:
  assumes "server_ok s" and "bytes_at (disk s) c = Some b"
    and "posix_open (disk s) (redirected s c) = (rfd, ps)" and "rfd \<noteq> -1" and "get_input_ok env" and "respond_ok env"
  shows "\<exists>s'. run_handler env (Open_in \<lparr>in_path = c\<rparr>) s = Inr (Some rfd, [], s') \<and>
    fd_view (disk s') rfd = Some (b, 0) \<and> fd_to_path s' rfd = Some c \<and> registry s' = registry s \<and>
    fdtab (disk s) rfd = None \<and> (\<forall>fd. fd \<noteq> rfd \<longrightarrow> fd_view (disk s') fd = fd_view (disk s) fd) \<and>
    opened_by c rfd ps s s'"
proof -
  let ?q = "redirected s c"
  have q: "bytes_at (disk s) ?q = Some b"
    using assms(1,2) by (cases "path_cache_map s c")
      (fastforce simp: redirected_def server_ok_def cache_coherent_def)+
  obtain c' where c': "canonical_in (disk s) ?q = Some c'" "alloc_fd (disk s) = Some rfd"
    and ps: "ps = (disk s)\<lparr>fdtab := (fdtab (disk s))(rfd \<mapsto> \<lparr>of_path = c', of_pos = 0\<rparr>)\<rparr>"
    using assms(3,4) by (cases rule: posix_open_cases [of "disk s" ?q]) auto
  have b: "file_bytes (disk s) c' = Some b" using q c'(1) by (simp add: bytes_at_def)
  define s1 where "s1 = (case path_cache_map s c of Some _ \<Rightarrow> log_push ''redirect'' 0 s | None \<Rightarrow> s)"
  have s1: "disk s1 = disk s" "registry s1 = registry s" "fd_to_path s1 = fd_to_path s"
    "path_cache_map s1 = path_cache_map s" "data_queue s1 = data_queue s" "mover s1 = mover s"
    "local_list s1 = local_list s"
    by (simp_all add: s1_def split: option.split)
  let ?s3 = "flush_if_full env (log_push ''open'' (elapsed env) (s1\<lparr>disk := ps\<rparr>))"
  let ?s' = "?s3\<lparr>fd_to_path := (fd_to_path ?s3)(rfd \<mapsto> c)\<rparr>"
  have "hvac_open_rpc_handler env \<lparr>in_path = c\<rparr> s = Inr (\<lparr>ret_status = rfd\<rparr>, ?s')"
    using assms(3,5)
    unfolding hvac_open_rpc_handler_def Let_def hvac_open_in_t.select_convs
      s1_def [symmetric] redirected_def [symmetric]
    by (simp add: s1)
  then have run: "run_handler env (Open_in \<lparr>in_path = c\<rparr>) s = Inr (Some rfd, [], ?s')"
    using assms(6) by (simp add: run_handler_def)
  then have "server_ok ?s'" by (rule server_ok_handler [OF assms(1)])
  with run show ?thesis using b alloc_fd_free [OF c'(2)]
    by (intro exI [of _ ?s']) (simp add: ps fd_view_other fd_view_update s1 opened_by_def)
qed

text \<open>The address the client would use for a path: cached, or published by the servers.\<close>

definition server_of :: "('o, 'a, 'w) cenv \<Rightarrow> ('o, 'w) proc \<Rightarrow> path \<Rightarrow> 'a option" where
  "server_of e p path = (case hvac_client_comm_lookup_addr e (host_index e p path) p of
     Inr (a, _) \<Rightarrow> Some a | Inl _ \<Rightarrow> None)"

lemma lookup_addr_same:
  assumes "hvac_client_comm_lookup_addr e rank p = Inr (a, q)"
    and "address_cache p' = address_cache p" and "os p' = os p"
  shows "\<exists>q'. hvac_client_comm_lookup_addr e rank p' = Inr (a, q')"
  using assms by (auto simp: hvac_client_comm_lookup_addr_def Let_def split: option.splits)

text \<open>When a file is tracked: the conditions of the code, with a data directory set.\<close>

definition in_data_dir :: "('o, 'a, 'w) cenv \<Rightarrow> 'o \<Rightarrow> string option \<Rightarrow> path \<Rightarrow> path \<Rightarrow> bool" where
  "in_data_dir e w dir path c \<longleftrightarrow> canonical e w path = Some c \<and> \<not> str_contains path ''.ports.cfg.'' \<and>
     (case dir of None \<Rightarrow> current_path e w = Some (parent_path c)
      | Some d \<Rightarrow> (case canonical e w d of None \<Rightarrow> False | Some t \<Rightarrow> str_contains (parent_path c) t))"

definition readable_flags :: "cint \<Rightarrow> bool" where
  "readable_flags flags \<longleftrightarrow> flags AND O_ACCMODE \<noteq> O_WRONLY \<and> flags AND O_APPEND = 0"

lemma track_decision_yes:
  "in_data_dir e (os p) (hvac_data_dir p) path c \<Longrightarrow>
   track_decision e path fd p = (True, (l4c p)\<lparr>fd_map := (fd_map p)(fd \<mapsto> c)\<rparr>)"
  by (auto simp: in_data_dir_def track_decision_def Let_def split: option.splits)

text \<open>
  A client that has started Mercury and is not inside a log message, about to open a file
  that its library tracks, on a server that takes open requests.
\<close>

definition open_ready ::
  "('o, string, cluster) cenv \<Rightarrow> ('o, cluster) proc \<Rightarrow> 'o \<Rightarrow> path \<Rightarrow> path \<Rightarrow> string \<Rightarrow> server \<Rightarrow> bool" where
  "open_ready E p w path c a s \<longleftrightarrow> \<not> redirect_off p \<and> g_mercury_init p \<and> pending p = [] \<and> progress_runs p \<and>
     g_hvac_server_count p \<noteq> 0 \<and> in_data_dir E w (hvac_data_dir p) path c \<and>
     server_of E (p\<lparr>os := w\<rparr>) c = Some a \<and> net p a = Some s \<and>
     registry s (hvac_client_open_id p) = Some K_open"

lemma track_file_reply:
  fixes e :: "('o, string, cluster) cenv" and p :: "('o, cluster) proc" and dt :: i64 and lf :: bool
  defines "E \<equiv> deployed e dt lf"
  assumes ready: "open_ready E p w path c a s" and flags: "readable_flags flags"
    and reply: "run_handler (fault_free dt lf) (Open_in \<lparr>in_path = c\<rparr>) s = Inr (Some rfd, [], s')"
  shows "\<exists>p'. hvac_track_file E path flags fd (p\<lparr>os := w\<rparr>) = Inr (True, p') \<and> same_ids p p' \<and>
    fd_map p' = (fd_map p)(fd \<mapsto> c) \<and> remote_end E p' fd = Some (a, rfd) \<and> os p' = w \<and>
    net p' = (net p)(a \<mapsto> s')"
proof -
  define p0 where "p0 = (l4c (p\<lparr>os := w\<rparr>))\<lparr>fd_map := (fd_map p)(fd \<mapsto> c)\<rparr>"
  have dec: "track_decision E path fd (p\<lparr>os := w\<rparr>) = (True, p0)"
    using track_decision_yes [of E "p\<lparr>os := w\<rparr>" path c fd] ready by (simp add: p0_def open_ready_def)
  have p0: "g_mercury_init p0" "pending p0 = []" "g_hvac_server_count p0 \<noteq> 0" "fd_map p0 fd = Some c"
    "net p0 = net p" "os p0 = w" "hvac_client_open_id p0 = hvac_client_open_id p" "same_ids p p0"
    "progress_runs p0"
    using ready by (simp_all add: p0_def l4c_def open_ready_def same_ids_def)
  have host: "host_index E p0 c = host_index E (p\<lparr>os := w\<rparr>) c"
    by (simp add: host_index_def p0_def l4c_def)
  obtain q0 where "hvac_client_comm_lookup_addr E (host_index E p0 c) (p\<lparr>os := w\<rparr>) = Inr (a, q0)"
    using ready unfolding open_ready_def server_of_def host by (auto split: sum.splits)
  from lookup_addr_same [OF this, of "(l4c p0)\<lparr>rpc_done := 0\<rparr>"] obtain q where
    look: "hvac_client_comm_lookup_addr E (host_index E p0 c) ((l4c p0)\<lparr>rpc_done := 0\<rparr>) = Inr (a, q)"
    by (auto simp: p0_def l4c_def)
  have fwd: "hg_forward E a (hvac_client_open_id p0) (Open_in \<lparr>in_path = c\<rparr>) (net p0)
      = (Reply 0 rfd [], (net p)(a \<mapsto> s'))"
    using ready reply by (simp add: E_def cluster_forward_def p0 open_ready_def)
  have init: "ensure_mercury E p0 = Inr p0" using p0 by (simp add: ensure_mercury_def)
  from remote_open_reply [OF this _ p0(3,2,4) look fwd p0(9)] obtain p2 where
    p2: "remote_open E fd p0 = Inr p2" "remote_end E p2 fd = Some (a, rfd)" "net p2 = (net p)(a \<mapsto> s')"
      "fd_map p2 = fd_map p0" "os p2 = os p0" by (auto simp: E_def)
  have "same_ids p p2" using remote_open_frame [OF init p2(1)] p0(8) by (rule same_ids_trans [rotated])
  moreover have "hvac_track_file E path flags fd (p\<lparr>os := w\<rparr>) = Inr (True, p2)"
    using dec p2(1) flags ready
    by (simp add: hvac_track_file_def readable_flags_def in_data_dir_def open_ready_def)
  ultimately show ?thesis using p2 p0(6) by (intro exI [of _ p2]) (simp add: p0_def)
qed

text \<open>The four ways to open a file come down to \<open>hvac_track_file\<close>.\<close>

lemma wrap_opens_track:
  assumes "\<not> redirect_off p" and "dlsym E ''open''" and "dlsym E ''open64''" and "dlsym E ''fopen''"
    and "dlsym E ''fopen64''" and "hvac_track_file E path flags fd (p\<lparr>os := w\<rparr>) = Inr (True, p')"
    and "fd \<noteq> -1"
  shows "real_open E path flags (if flags AND O_CREAT \<noteq> 0 then md else 0) (os p) = (fd, w) \<Longrightarrow>
      wrap_open E path flags md p = Inr (fd, l4c p')"
    and "real_open64 E path flags (let m = if flags AND O_CREAT \<noteq> 0 then md else 0 in
        if m \<noteq> 0 then Some m else None) (os p) = (fd, w) \<Longrightarrow>
      wrap_open64 E path flags md p = Inr (fd, l4c p')"
    and "flags = O_RDONLY \<Longrightarrow> real_fopen E path mode (os p) = (Some fd, w) \<Longrightarrow>
      wrap_fopen E path mode p = Inr (Some fd, l4c p')"
    and "flags = O_RDONLY \<Longrightarrow> real_fopen64 E path mode (os p) = (Some fd, w) \<Longrightarrow>
      wrap_fopen64 E path mode p = Inr (Some fd, l4c p')"
  using assms
  by (simp_all add: wrap_open_def wrap_open64_def wrap_fopen_def wrap_fopen64_def track_fd_def
      track_stream_def MAP_OR_FAIL_def Let_def split: if_splits)

lemma tracked_view_l4c [simp]:
  "\<not> redirect_off p \<Longrightarrow> tracked_view E (l4c p) fd = tracked_view E p fd"
  by (auto simp: remote_view_def redirect_off_def split: option.split)

lemma tracked_view_os [simp]: "tracked_view E (p\<lparr>os := w\<rparr>) fd = tracked_view E p fd"
proof -
  have "remote_end E (p\<lparr>os := w\<rparr>) fd = remote_end E p fd" by (rule remote_end_cong) simp_all
  then show ?thesis by (auto simp: remote_view_def redirect_off_def split: option.split)
qed

lemma readable_rdonly [simp]: "readable_flags O_RDONLY"
  by (simp add: readable_flags_def open_flag_defs)

text \<open>What opening establishes: the descriptor shows the file's bytes, from the start.\<close>

lemma track_file_view:
  fixes e :: "('o, string, cluster) cenv" and p :: "('o, cluster) proc" and dt :: i64 and lf :: bool
  defines "E \<equiv> deployed e dt lf"
  assumes ready: "open_ready E p w path c a s" and flags: "readable_flags flags"
    and server: "server_ok s" "registry s (hvac_client_rpc_id p) = Some K_read"
      "registry s (hvac_client_seek_id p) = Some K_seek"
    and data: "bytes_at (disk s) c = Some b" "posix_open (disk s) (redirected s c) = (rfd, ps)" "rfd \<noteq> -1"
  shows "\<exists>p' s'. hvac_track_file E path flags fd (p\<lparr>os := w\<rparr>) = Inr (True, p') \<and> same_ids p p' \<and>
    tracked_view E (l4c p') fd = Some (b, 0) \<and> fd_map p' fd = Some c \<and>
    remote_end E p' fd = Some (a, rfd) \<and> os p' = w \<and> net p' = (net p)(a \<mapsto> s') \<and>
    fd_to_path s' rfd = Some c \<and> fdtab (disk s') rfd \<noteq> None \<and> registry s' = registry s \<and>
    opened_by c rfd ps s s'"
proof -
  obtain s' where s': "run_handler (fault_free dt lf) (Open_in \<lparr>in_path = c\<rparr>) s = Inr (Some rfd, [], s')"
      "fd_view (disk s') rfd = Some (b, 0)" "fd_to_path s' rfd = Some c" "registry s' = registry s"
      "opened_by c rfd ps s s'"
    using server_open_view [OF server(1) data, of "fault_free dt lf"] by auto
  obtain p' where p': "hvac_track_file E path flags fd (p\<lparr>os := w\<rparr>) = Inr (True, p')" "same_ids p p'"
    "fd_map p' = (fd_map p)(fd \<mapsto> c)" "remote_end E p' fd = Some (a, rfd)" "os p' = w"
    "net p' = (net p)(a \<mapsto> s')"
    using track_file_reply [OF ready [unfolded E_def] flags s'(1)] unfolding E_def by blast
  have "tracked_view E (l4c p') fd = Some (b, 0)"
    using p' s' server ready
    by (simp add: remote_view_def redirect_off_def cluster_view_def cluster_serves_def same_ids_def
        open_ready_def)
  then show ?thesis using p' s' by (auto simp: fd_view_def split: option.splits)
qed

lemma wrap_open_tracked:
  fixes e :: "('o, string, cluster) cenv" and p :: "('o, cluster) proc" and dt :: i64 and lf :: bool
  defines "E \<equiv> deployed e dt lf"
  assumes ready: "open_ready E p w path c a s" and flags: "readable_flags flags"
    and real: "real_open E path flags (if flags AND O_CREAT \<noteq> 0 then md else 0) (os p) = (fd, w)" "fd \<noteq> -1"
    and server: "server_ok s" "registry s (hvac_client_rpc_id p) = Some K_read"
      "registry s (hvac_client_seek_id p) = Some K_seek"
    and data: "bytes_at (disk s) c = Some b" "posix_open (disk s) (redirected s c) = (rfd, ps)" "rfd \<noteq> -1"
  shows "\<exists>p' s'. wrap_open E path flags md p = Inr (fd, p') \<and> tracked_view E p' fd = Some (b, 0) \<and>
    fd_map p' fd = Some c \<and> remote_end E p' fd = Some (a, rfd) \<and> os p' = w \<and> same_ids p p' \<and>
    net p' = (net p)(a \<mapsto> s') \<and> fd_to_path s' rfd = Some c \<and> fdtab (disk s') rfd \<noteq> None \<and>
    registry s' = registry s \<and> opened_by c rfd ps s s' \<and> \<not> redirect_off p'"
proof -
  obtain p' s' where p': "hvac_track_file E path flags fd (p\<lparr>os := w\<rparr>) = Inr (True, p')"
    "same_ids p p'" "tracked_view E (l4c p') fd = Some (b, 0)" "fd_map p' fd = Some c"
    "remote_end E p' fd = Some (a, rfd)" "os p' = w" "net p' = (net p)(a \<mapsto> s')"
    "fd_to_path s' rfd = Some c" "fdtab (disk s') rfd \<noteq> None" "registry s' = registry s"
    "opened_by c rfd ps s s'"
    using track_file_view [OF ready [unfolded E_def] flags server data, of fd] unfolding E_def by blast
  have "wrap_open E path flags md p = Inr (fd, l4c p')"
    by (rule wrap_opens_track(1) [OF _ _ _ _ _ p'(1) real(2,1)])
      (use ready in \<open>simp_all add: open_ready_def E_def\<close>)
  moreover have "\<not> redirect_off (l4c p')" using p'(2) ready
    by (simp add: redirect_off_def same_ids_def open_ready_def)
  ultimately show ?thesis using p'
    by (intro exI [of _ "l4c p'"] exI [of _ s']) simp
qed

section \<open>Closing\<close>

lemma server_close_effect:
  assumes "fdtab (disk s) rfd \<noteq> None" and "fd_to_path s rfd = Some c" and "get_input_ok env"
  shows "\<exists>s'. run_handler env (Close_in \<lparr>close_fd = rfd\<rparr>) s = Inr (None, [], s') \<and>
    disk s' = (disk s)\<lparr>fdtab := (fdtab (disk s))(rfd := None)\<rparr> \<and>
    fd_to_path s' = (fd_to_path s)(rfd := None) \<and> path_cache_map s' = path_cache_map s \<and>
    data_queue s' = data_queue s @ (if path_cache_map s c = None then [c] else []) \<and>
    mover s' = (if path_cache_map s c = None \<and> mover s = Mover_waiting then Mover_woken else mover s) \<and>
    local_list s' = local_list s \<and> registry s' = registry s"
proof -
  let ?ps = "(disk s)\<lparr>fdtab := (fdtab (disk s))(rfd := None)\<rparr>"
  define s2 where "s2 = flush_if_full env (log_push ''close'' (elapsed env) (s\<lparr>disk := ?ps\<rparr>))"
  define s4 where "s4 = (if path_cache_map s c = None
      then (data_cond_signal s2)\<lparr>data_queue := data_queue s2 @ [c]\<rparr> else s2)"
  have s2: "disk s2 = ?ps" "fd_to_path s2 = fd_to_path s" "path_cache_map s2 = path_cache_map s"
    "data_queue s2 = data_queue s" "mover s2 = mover s" "local_list s2 = local_list s"
    "registry s2 = registry s" by (simp_all add: s2_def)
  have close: "posix_close (disk s) rfd = (0, ?ps)" using assms(1) by (simp add: posix_close_def)
  have "hvac_close_rpc_handler env \<lparr>close_fd = rfd\<rparr> s
      = Inr (s4\<lparr>fd_to_path := map_erase rfd (fd_to_path s4)\<rparr>)"
    using assms(2,3) s2(2,3)
    unfolding hvac_close_rpc_handler_def hvac_close_in_t.select_convs close prod.case Let_def
      s2_def [symmetric] s4_def
    by (simp add: map_has_def data_cond_signal_def)
  then show ?thesis
    by (intro exI [of _ "s4\<lparr>fd_to_path := map_erase rfd (fd_to_path s4)\<rparr>"])
      (simp add: run_handler_def s4_def s2 map_erase_def data_cond_signal_def)
qed

lemma wrap_close_tracked:
  fixes e :: "('o, string, cluster) cenv" and p :: "('o, cluster) proc" and dt :: i64 and lf :: bool
  defines "E \<equiv> deployed e dt lf"
  assumes "\<not> redirect_off p" and r: "remote_end E p fd = Some (a, rfd)"
    and s: "net p a = Some s" "registry s (hvac_client_close_id p) = Some K_close"
      "fdtab (disk s) rfd \<noteq> None" "fd_to_path s rfd = Some c"
    and real: "real_close E fd (os p) = (ret, w)"
  shows "\<exists>p' s'. wrap_close E fd p = Inr (ret, p') \<and> os p' = w \<and> net p' = (net p)(a \<mapsto> s') \<and>
    \<not> hvac_file_tracked p' fd \<and> fd_redir_map p' fd = None \<and>
    (\<forall>fd'. fd' \<noteq> fd \<longrightarrow> fd_map p' fd' = fd_map p fd' \<and> fd_redir_map p' fd' = fd_redir_map p fd') \<and>
    fdtab (disk s') rfd = None \<and> fd_to_path s' rfd = None \<and> path_cache_map s' = path_cache_map s \<and>
    data_queue s' = data_queue s @ (if path_cache_map s c = None then [c] else []) \<and>
    mover s' = (if path_cache_map s c = None \<and> mover s = Mover_waiting then Mover_woken else mover s) \<and>
    disk s' = (disk s)\<lparr>fdtab := (fdtab (disk s))(rfd := None)\<rparr> \<and> local_list s' = local_list s \<and>
    registry s' = registry s \<and> (server_ok s \<longrightarrow> server_ok s') \<and> same_ids p p' \<and> pending p' = pending p \<and>
    address_cache p' = address_cache p \<and> \<not> redirect_off p'"
proof -
  obtain s' where s': "run_handler (fault_free dt lf) (Close_in \<lparr>close_fd = rfd\<rparr>) s = Inr (None, [], s')"
    "disk s' = (disk s)\<lparr>fdtab := (fdtab (disk s))(rfd := None)\<rparr>"
    "fd_to_path s' = (fd_to_path s)(rfd := None)" "path_cache_map s' = path_cache_map s"
    "data_queue s' = data_queue s @ (if path_cache_map s c = None then [c] else [])"
    "mover s' = (if path_cache_map s c = None \<and> mover s = Mover_waiting then Mover_woken else mover s)"
    "local_list s' = local_list s" "registry s' = registry s"
    using server_close_effect [OF s(3,4), of "fault_free dt lf"] by auto
  have "hg_forward E a (hvac_client_close_id (l4c p)) (Close_in \<lparr>close_fd = rfd\<rparr>) (net (l4c p))
      = (No_reply, (net p)(a \<mapsto> s'))"
    by (simp add: E_def cluster_forward_def s s')
  from remove_fd_reply [OF _ _ this] r have
    "hvac_remove_fd E fd (l4c p) = Inr (True, (l4c p)\<lparr>net := (net p)(a \<mapsto> s'),
      fd_redir_map := (fd_redir_map p)(fd := None), fd_map := (fd_map p)(fd := None)\<rparr>)"
    by (simp add: E_def)
  moreover obtain path where "fd_map p fd = Some path" using remote_end_SomeD [OF r] by blast
  moreover define p2 where "p2 = (l4c p)\<lparr>net := (net p)(a \<mapsto> s'),
      fd_redir_map := (fd_redir_map p)(fd := None), fd_map := (fd_map p)(fd := None), os := w\<rparr>"
  ultimately have "wrap_close E fd p = Inr (ret, if ret \<noteq> 0 then l4c p2 else p2)"
    using assms(2) real
    by (simp add: wrap_close_def MAP_OR_FAIL_def hvac_get_path_def E_def [symmetric])
      (simp add: E_def l4c_def)
  moreover have "server_ok s \<longrightarrow> server_ok s'" using server_ok_handler [OF _ s'(1)] by blast
  ultimately show ?thesis using s' assms(2)
    by (intro exI [of _ "if ret \<noteq> 0 then l4c p2 else p2"] exI [of _ s'])
      (simp add: p2_def l4c_def hvac_file_tracked_def map_has_def same_ids_def redirect_off_def)
qed

end
