(* ===== verification/Hazards.thy ===== *)
theory Hazards
  imports Transparency
begin

unbundle bit_operations_syntax

text \<open>
  The paths on which the code leaves the good case: files the server cannot open, servers that
  have stopped, descriptors the library has not seen closed, offsets beyond 32 bits, and a process
  without a progress thread.
\<close>

section \<open>Requests a server cannot serve\<close>

text \<open>
  A read on a descriptor the server does not have: the transfer keeps the requested size, so
  the answer counts all bytes and the bytes are the zeros of the fresh buffer.
\<close>

lemma server_read_bad_fd:
  assumes "fdtab (disk s) rfd = None"
  shows "\<exists>s'. run_handler (fault_free dt lf) (Read_in \<lparr>input_val = n, bulk_handle = to_i64 n,
        accessfd = rfd, in_offset = off\<rparr>) s = Inr (Some n, replicate (unat (to_i64 n)) 0, s') \<and>
      disk s' = disk s \<and> registry s' = registry s"
proof -
  let ?inp = "\<lparr>input_val = n, bulk_handle = to_i64 n, accessfd = rfd, in_offset = off\<rparr>"
  obtain s1 where call: "server_file_call (fault_free dt lf) ?inp (to_i64 (input_val ?inp)) s = (-1, [], s1)"
    and s1: "disk s1 = disk s" "registry s1 = registry s"
    using assms by (cases "off = -1") (simp_all add: server_call_read server_call_pread)
  let ?s' = "flush_if_full (fault_free dt lf) (note_path rfd s1)"
  have "hvac_rpc_handler (fault_free dt lf) ?inp s
      = Inr (\<lparr>rpc_ret = n\<rparr>, replicate (unat (to_i64 n)) 0, ?s')"
    using hvac_rpc_handler_failure [OF fault_free_ok call] by simp
  then show ?thesis using s1 by (intro exI [of _ ?s']) (simp add: run_handler_def)
qed

lemma server_close_bad_fd:
  assumes "fdtab (disk s) rfd = None" and "get_input_ok env"
  shows "run_handler env (Close_in \<lparr>close_fd = rfd\<rparr>) s = Inl Assert_failed"
  using assms by (simp add: run_handler_def hvac_close_rpc_handler_def)

lemma server_open_fails:
  assumes "posix_open (disk s) (redirected s c) = (-1, disk s)" and "get_input_ok env" and "respond_ok env"
  shows "\<exists>s'. run_handler env (Open_in \<lparr>in_path = c\<rparr>) s = Inr (Some (-1), [], s') \<and>
    disk s' = disk s \<and> registry s' = registry s \<and> fd_to_path s' (-1) = Some c"
proof -
  define s1 where "s1 = (case path_cache_map s c of Some _ \<Rightarrow> log_push ''redirect'' 0 s | None \<Rightarrow> s)"
  have s1: "disk s1 = disk s" "registry s1 = registry s"
    by (simp_all add: s1_def split: option.split)
  let ?s3 = "flush_if_full env (log_push ''open'' (elapsed env) (s1\<lparr>disk := disk s\<rparr>))"
  let ?s' = "?s3\<lparr>fd_to_path := (fd_to_path ?s3)(-1 \<mapsto> c)\<rparr>"
  have "hvac_open_rpc_handler env \<lparr>in_path = c\<rparr> s = Inr (\<lparr>ret_status = -1\<rparr>, ?s')"
    using assms(1,2)
    unfolding hvac_open_rpc_handler_def Let_def hvac_open_in_t.select_convs
      s1_def [symmetric] redirected_def [symmetric]
    by (simp add: s1)
  with assms(3) show ?thesis by (intro exI [of _ ?s']) (simp add: run_handler_def s1)
qed

section \<open>What the application sees\<close>

text \<open>A tracked descriptor whose server has no such descriptor reads zeros.\<close>

lemma wrap_read_zeros:
  fixes e :: "('o, string, cluster) cenv" and p :: "('o, cluster) proc" and dt :: i64 and lf :: bool
  defines "E \<equiv> deployed e dt lf"
  assumes r: "remote_end E p fd = Some (a, rfd)" and s: "net p a = Some s"
    "registry s (hvac_client_rpc_id p) = Some K_read" "fdtab (disk s) rfd = None"
    and n: "n < 2 ^ 31"
  shows "\<exists>p' s'. wrap_read E fd (Some mem) (of_nat n) p
      = Inr (of_nat n, Some (overlay (replicate n 0) mem), p') \<and>
    remote_end E p' fd = Some (a, rfd) \<and> net p' = (net p)(a \<mapsto> s') \<and> disk s' = disk s \<and>
    registry s' = registry s \<and> same_ids p p' \<and> os p' = os p \<and> \<not> tl_disable_redirect p'"
proof -
  let ?n = "to_int (of_nat n)"
  have n64: "to_i64 ?n = of_nat n" using n by (rule to_i64_to_int_of_nat)
  have u: "unat (of_nat n :: i64) = n" using n by (simp add: unat_of_nat_i64)
  obtain s' where s': "run_handler (fault_free dt lf) (Read_in \<lparr>input_val = ?n,
        bulk_handle = of_nat n, accessfd = rfd, in_offset = -1\<rparr>) s = Inr (Some ?n, replicate n 0, s')"
      "disk s' = disk s" "registry s' = registry s"
    using server_read_bad_fd [OF s(3), of dt lf ?n "-1"] by (auto simp: n64 u)
  have "hg_forward E a (hvac_client_rpc_id p) (Read_in \<lparr>input_val = ?n, bulk_handle = of_nat n,
      accessfd = rfd, in_offset = -1\<rparr>) (net p) = (Reply 0 ?n (replicate n 0), (net p)(a \<mapsto> s'))"
    using s s'(1) by (simp add: E_def cluster_forward_def)
  from wrap_read_reply [OF r _ _ this to_int_not_minus_one [OF n], of mem]
  have "wrap_read E fd (Some mem) (of_nat n) p
      = Inr (of_nat n, Some (overlay (replicate n 0) mem), after_read (of_nat n) ((net p)(a \<mapsto> s')) p)"
    by (simp add: E_def n64)
  then show ?thesis using s' r
    by (intro exI [of _ "after_read (of_nat n) ((net p)(a \<mapsto> s')) p"] exI [of _ s'])
      (simp add: same_ids_def after_read_def remote_end_after_read [unfolded after_read_def])
qed

text \<open>A server that has stopped answers nothing: the read never returns.\<close>

lemma wrap_read_blocks:
  fixes e :: "('o, string, cluster) cenv"
  assumes "remote_end (deployed e dt lf) p fd = Some (a, rfd)" and "net p a = None"
  shows "wrap_read (deployed e dt lf) fd (Some mem) n p = Inl Blocked_forever"
  by (rule wrap_read_unanswered [OF assms(1), where w = "net p"])
    (use assms in \<open>simp_all add: cluster_forward_def\<close>)

text \<open>Closing such a descriptor stops the server; the application's own close is unaffected.\<close>

lemma wrap_close_stops_server:
  fixes e :: "('o, string, cluster) cenv" and p :: "('o, cluster) proc" and dt :: i64 and lf :: bool
  defines "E \<equiv> deployed e dt lf"
  assumes "\<not> redirect_off p" and r: "remote_end E p fd = Some (a, rfd)"
    and s: "net p a = Some s" "registry s (hvac_client_close_id p) = Some K_close"
      "fdtab (disk s) rfd = None"
    and real: "real_close E fd (os p) = (ret, w)"
  shows "\<exists>p'. wrap_close E fd p = Inr (ret, p') \<and> os p' = w \<and> net p' = (net p)(a := None) \<and>
    \<not> hvac_file_tracked p' fd"
proof -
  have "hg_forward E a (hvac_client_close_id (l4c p)) (Close_in \<lparr>close_fd = rfd\<rparr>) (net (l4c p))
      = (No_reply, (net p)(a := None))"
    using s server_close_bad_fd [OF s(3), of "fault_free dt lf"]
    by (simp add: E_def cluster_forward_def)
  from remove_fd_reply [OF _ _ this] r have
    "hvac_remove_fd E fd (l4c p) = Inr (True, (l4c p)\<lparr>net := (net p)(a := None),
      fd_redir_map := (fd_redir_map p)(fd := None), fd_map := (fd_map p)(fd := None)\<rparr>)"
    by (simp add: E_def)
  moreover obtain path where "fd_map p fd = Some path" using remote_end_SomeD [OF r] by blast
  moreover define p2 where "p2 = (l4c p)\<lparr>net := (net p)(a := None),
      fd_redir_map := (fd_redir_map p)(fd := None), fd_map := (fd_map p)(fd := None), os := w\<rparr>"
  ultimately have "wrap_close E fd p = Inr (ret, if ret \<noteq> 0 then l4c p2 else p2)"
    using assms(2) real
    by (simp add: wrap_close_def MAP_OR_FAIL_def hvac_get_path_def E_def [symmetric])
      (simp add: E_def l4c_def)
  then show ?thesis
    by (intro exI [of _ "if ret \<noteq> 0 then l4c p2 else p2"])
      (simp add: p2_def l4c_def hvac_file_tracked_def map_has_def)
qed

text \<open>Opening a file that the client can open and the server cannot.\<close>

lemma wrap_open_server_fails:
  fixes e :: "('o, string, cluster) cenv" and p :: "('o, cluster) proc" and dt :: i64 and lf :: bool
  defines "E \<equiv> deployed e dt lf"
  assumes ready: "open_ready E p w path c a s" and flags: "readable_flags flags"
    and real: "real_open E path flags (if flags AND O_CREAT \<noteq> 0 then md else 0) (os p) = (fd, w)" "fd \<noteq> -1"
    and fails: "posix_open (disk s) (redirected s c) = (-1, disk s)"
  shows "\<exists>p' s'. wrap_open E path flags md p = Inr (fd, p') \<and> remote_end E p' fd = Some (a, -1) \<and>
    same_ids p p' \<and> \<not> redirect_off p' \<and> os p' = w \<and> net p' = (net p)(a \<mapsto> s') \<and>
    disk s' = disk s \<and> registry s' = registry s"
proof -
  obtain s' where s': "run_handler (fault_free dt lf) (Open_in \<lparr>in_path = c\<rparr>) s = Inr (Some (-1), [], s')"
      "disk s' = disk s" "registry s' = registry s"
    using server_open_fails [OF fails, of "fault_free dt lf"] by auto
  obtain p' where p': "hvac_track_file E path flags fd (p\<lparr>os := w\<rparr>) = Inr (True, p')" "same_ids p p'"
    "remote_end E p' fd = Some (a, -1)" "os p' = w" "net p' = (net p)(a \<mapsto> s')"
    using track_file_reply [OF ready [unfolded E_def] flags s'(1)] unfolding E_def by blast
  have "wrap_open E path flags md p = Inr (fd, l4c p')"
    by (rule wrap_opens_track(1) [OF _ _ _ _ _ p'(1) real(2,1)])
      (use ready in \<open>simp_all add: open_ready_def E_def\<close>)
  then show ?thesis using p' s' ready
    by (intro exI [of _ "l4c p'"] exI [of _ s'])
      (simp add: redirect_off_def open_ready_def same_ids_def)
qed

text \<open>
  The whole life of such a descriptor: the open succeeds, a read of \<open>n\<close> bytes gives \<open>n\<close>
  zeros, and the close succeeds and stops the server.
\<close>

lemma unreadable_file:
  fixes e :: "('o, string, cluster) cenv" and p :: "('o, cluster) proc" and dt :: i64 and lf :: bool
  defines "E \<equiv> deployed e dt lf"
  assumes ready: "open_ready E p w path c a s" and flags: "readable_flags flags"
    and real: "real_open E path flags (if flags AND O_CREAT \<noteq> 0 then md else 0) (os p) = (fd, w)" "fd \<noteq> -1"
      "real_close E fd w = (ret, w')"
    and server: "fds_ok (disk s)" "registry s (hvac_client_rpc_id p) = Some K_read"
      "registry s (hvac_client_close_id p) = Some K_close"
    and fails: "posix_open (disk s) (redirected s c) = (-1, disk s)" and n: "n < 2 ^ 31"
  shows "\<exists>p1 p2 p3. wrap_open E path flags md p = Inr (fd, p1) \<and>
    wrap_read E fd (Some (replicate n 7)) (of_nat n) p1 = Inr (of_nat n, Some (replicate n 0), p2) \<and>
    wrap_close E fd p2 = Inr (ret, p3) \<and> net p3 a = None"
proof -
  obtain p1 s1 where p1: "wrap_open E path flags md p = Inr (fd, p1)" "remote_end E p1 fd = Some (a, -1)"
    "same_ids p p1" "\<not> redirect_off p1" "os p1 = w" "net p1 = (net p)(a \<mapsto> s1)" "disk s1 = disk s"
    "registry s1 = registry s"
    using wrap_open_server_fails [OF ready [unfolded E_def] flags real(1)[unfolded E_def] real(2) fails]
    unfolding E_def by blast
  have bad: "fdtab (disk s1) (-1) = None" using server(1) p1(7) by (simp add: fds_ok_def)
  have "registry s1 (hvac_client_rpc_id p1) = Some K_read"
    using p1(3,8) server(2) by (simp add: same_ids_def)
  from wrap_read_zeros [OF p1(2)[unfolded E_def] _ this bad n, of "replicate n 7"] p1(6)
  obtain p2 s2 where p2: "wrap_read E fd (Some (replicate n 7)) (of_nat n) p1
      = Inr (of_nat n, Some (replicate n 0), p2)" "remote_end E p2 fd = Some (a, -1)"
      "net p2 a = Some s2" "disk s2 = disk s1" "registry s2 = registry s1" "same_ids p1 p2"
      "os p2 = os p1" "\<not> tl_disable_redirect p2"
    by (auto simp: E_def overlay_def)
  have "\<not> redirect_off p2"
    using p1(3) p2(6,8) ready by (simp add: redirect_off_def open_ready_def same_ids_def)
  moreover have "registry s2 (hvac_client_close_id p2) = Some K_close"
    using p1(3,8) p2(5,6) server(3) by (simp add: same_ids_def)
  moreover have "fdtab (disk s2) (-1) = None" using bad p2(4) by simp
  moreover have "real_close E fd (os p2) = (ret, w')" using real(3) p1(5) p2(7) by simp
  ultimately obtain p3 where "wrap_close E fd p2 = Inr (ret, p3)" "net p3 = (net p2)(a := None)"
    using wrap_close_stops_server [OF _ p2(2)[unfolded E_def] p2(3)] unfolding E_def by blast
  with p1(1) p2(1) show ?thesis by auto
qed

section \<open>Descriptors the library has not seen closed\<close>

text \<open>
  \<open>fclose\<close> is not intercepted, nor is any close while redirection is off, so an entry of
  \<open>fd_map\<close> can outlive its descriptor. When the system gives the number to a file that is
  not tracked, the entry stays, and the reads go to the old file.
\<close>

definition not_tracked :: "('o, 'a, 'w) cenv \<Rightarrow> 'o \<Rightarrow> string option \<Rightarrow> path \<Rightarrow> bool" where
  "not_tracked e w dir path \<longleftrightarrow> (\<nexists>c. in_data_dir e w dir path c)"

lemma track_decision_no:
  assumes "not_tracked e (os p) (hvac_data_dir p) path" and "\<not> str_contains path ''.ports.cfg.''"
  shows "track_decision e path fd p = (False, p) \<or> track_decision e path fd p = (False, l4c p)"
  using assms
  by (auto simp: not_tracked_def in_data_dir_def track_decision_def Let_def split: option.splits)

lemma wrap_open_untracked:
  assumes "\<not> redirect_off p" and "dlsym e ''open''"
    and "real_open e path flags (if flags AND O_CREAT \<noteq> 0 then md else 0) (os p) = (fd, w)"
    and "not_tracked e w (hvac_data_dir p) path \<or> str_contains path ''.ports.cfg.'' \<or>
      \<not> readable_flags flags"
  shows "\<exists>q. wrap_open e path flags md p = Inr (fd, q) \<and> (q = p\<lparr>os := w\<rparr> \<or> q = l4c (p\<lparr>os := w\<rparr>))"
proof -
  consider (plain) "fd = -1 \<or> str_contains path ''.ports.cfg.'' \<or> \<not> readable_flags flags"
    | (dec) "not_tracked e w (hvac_data_dir p) path" "\<not> str_contains path ''.ports.cfg.''"
        "readable_flags flags" "fd \<noteq> -1"
    using assms(4) by blast
  then show ?thesis
  proof cases
    case plain
    with assms(1-3) show ?thesis
      by (auto simp: wrap_open_def MAP_OR_FAIL_def track_fd_def hvac_track_file_def readable_flags_def)
  next
    case dec
    with track_decision_no [of e "p\<lparr>os := w\<rparr>" path fd] assms(1-3) show ?thesis
      by (auto simp: wrap_open_def MAP_OR_FAIL_def track_fd_def hvac_track_file_def readable_flags_def)
  qed
qed

lemma stale_descriptor:
  fixes e :: "('o, string, cluster) cenv" and p :: "('o, cluster) proc" and dt :: i64 and lf :: bool
  defines "E \<equiv> deployed e dt lf"
  assumes view: "tracked_view E p fd = Some (b, pos)"
    and real: "real_open E path flags (if flags AND O_CREAT \<noteq> 0 then md else 0) (os p) = (fd, w)"
    and new: "not_tracked E w (hvac_data_dir p) path" and n: "n \<le> max_rw"
  shows "\<exists>p1 p2. wrap_open E path flags md p = Inr (fd, p1) \<and> os p1 = w \<and>
    hvac_read E fd p1 n = Some (take n (drop pos b), p2)"
proof -
  have off: "\<not> redirect_off p" using remote_view_SomeD [OF view] by blast
  obtain q where q: "wrap_open E path flags md p = Inr (fd, q)" "q = p\<lparr>os := w\<rparr> \<or> q = l4c (p\<lparr>os := w\<rparr>)"
    using wrap_open_untracked [OF off _ real] new by (auto simp: E_def)
  have r: "remote_end E (p\<lparr>os := w\<rparr>) fd = remote_end E p fd" by (rule remote_end_cong) simp_all
  have "tracked_view E q fd = Some (b, pos)"
    using q(2) view off by (auto simp: remote_view_def r redirect_off_def split: option.splits if_splits)
  from hvac_file.rd_law [OF this [unfolded E_def] n] q show ?thesis by (auto simp: E_def)
qed

section \<open>Offsets\<close>

text \<open>The seek wrappers see only the low 32 bits of the offset of a tracked descriptor.\<close>

lemma wrap_lseek_truncates:
  assumes "hvac_file_tracked p fd" and "\<not> redirect_off p"
  shows "wrap_lseek e fd off wh p = wrap_lseek e fd (to_i64 (to_int off)) wh p"
    and "wrap_lseek64 e fd off wh p = wrap_lseek64 e fd (to_i64 (to_int off)) wh p"
  using assms by (simp_all add: wrap_lseek_def wrap_lseek64_def)

section \<open>Counts beyond 32 bits\<close>

text \<open>
  The request carries the low 32 bits of the count. When they are not negative as an \<open>int\<close>,
  the read is one of that many bytes.
\<close>

lemma unat_low_bits:
  assumes "0 \<le> sint (to_int n)"
  shows "unat (to_i64 (to_int n)) \<le> unat n"
proof -
  have "unat (to_i64 (to_int n)) = nat (sint (to_int n))" using unat_nonneg [of "to_i64 (to_int n)"] assms by simp
  also have "sint (to_int n) = uint (to_int n)"
    unfolding uint_sint using assms sint_lt [of "to_int n"] by (simp add: take_bit_int_eq_self)
  also have "nat (uint (to_int n)) = unat n mod 2 ^ 32"
    by (simp add: to_int_def unsigned_ucast_eq take_bit_eq_mod nat_mod_distrib)
  also have "\<dots> \<le> unat n" by simp
  finally show ?thesis .
qed

lemma wrap_read_low_bits:
  fixes e :: "('o, string, cluster) cenv" and p :: "('o, cluster) proc" and dt :: i64 and lf :: bool
  defines "E \<equiv> deployed e dt lf"
  assumes v: "tracked_view E p fd = Some (b, pos)" and n: "0 \<le> sint (to_int n)"
  defines "d \<equiv> file_window b pos (to_i64 (to_int n))"
  shows "\<exists>p'. wrap_read E fd (Some mem) n p = Inr (of_nat (length d), Some (overlay d mem), p') \<and>
    tracked_view E p' fd = Some (b, pos + length d)"
proof -
  from remote_view_SomeD [OF v] obtain a rfd where
    r: "remote_end E p fd = Some (a, rfd)" "\<not> redirect_off p"
       "cluster_serves (net p) a (hvac_client_rpc_id p) K_read"
       "cluster_serves (net p) a (hvac_client_seek_id p) K_seek" "cluster_view (net p) a rfd = Some (b, pos)" by blast
  then obtain s where s: "net p a = Some s" "registry s (hvac_client_rpc_id p) = Some K_read"
    "fd_view (disk s) rfd = Some (b, pos)"
    by (auto simp: cluster_serves_def cluster_view_def split: option.splits)
  have len: "length d < 2 ^ 31" unfolding d_def by (rule length_file_window_small)
  obtain s' where s': "run_handler (fault_free dt lf) (Read_in \<lparr>input_val = to_int n, bulk_handle = n,
        accessfd = rfd, in_offset = -1\<rparr>) s = Inr (Some (to_int (of_nat (length d))), d, s')"
    "fd_view (disk s') rfd = Some (b, pos + length d)" "registry s' = registry s"
    "\<forall>fd. fd \<noteq> rfd \<longrightarrow> fd_view (disk s') fd = fd_view (disk s) fd"
    using server_read_view [OF s(3) n unat_low_bits [OF n]] unfolding d_def by blast
  have "undisturbed cluster_view cluster_serves a rfd (net p) ((net p)(a \<mapsto> s'))"
    by (rule undisturbed_update [where s = s]) (use s s' in auto)
  from remote_view_after_read(1) [OF r(1-4) this] s'(2)
  have "tracked_view E (after_read (of_nat (length d)) ((net p)(a \<mapsto> s')) p) fd = Some (b, pos + length d)"
    by (simp add: cluster_view_def)
  moreover have "wrap_read E fd (Some mem) n p = Inr (of_nat (length d), Some (overlay d mem),
      after_read (of_nat (length d)) ((net p)(a \<mapsto> s')) p)"
    using wrap_read_reply [OF r(1), of n "to_int (of_nat (length d))" d "(net p)(a \<mapsto> s')" mem] s s' len
    by (simp add: E_def cluster_forward_def to_i64_to_int_of_nat to_int_not_minus_one)
  ultimately show ?thesis by blast
qed

text \<open>
  When they are negative, \<open>calloc\<close> is asked for more than half the address space; the failed
  assertion ends the daemon, and the client waits for ever.
\<close>

lemma wrap_read_stops_server:
  fixes e :: "('o, string, cluster) cenv"
  assumes "hg_forward e = cluster_forward env" and "mercury_ok e" and "dlsym e ''read''"
    and r: "remote_end e p fd = Some (a, rfd)" and s: "net p a = Some s"
    and "registry s (hvac_client_rpc_id p) = Some K_read" and c: "\<not> calloc_ok env (to_i64 (to_int n))"
  shows "wrap_read e fd (Some mem) n p = Inl Blocked_forever \<and>
    cluster_forward env a (hvac_client_rpc_id p) (Read_in \<lparr>input_val = to_int n, bulk_handle = n,
      accessfd = rfd, in_offset = -1\<rparr>) (net p) = (No_reply, (net p)(a := None))"
proof -
  have "\<exists>h. run_handler env (Read_in \<lparr>input_val = to_int n, bulk_handle = n, accessfd = rfd, in_offset = -1\<rparr>) s
      = Inl h"
    using c by (cases "get_input_ok env") (simp_all add: run_handler_def hvac_rpc_handler_def)
  then have f: "cluster_forward env a (hvac_client_rpc_id p) (Read_in \<lparr>input_val = to_int n, bulk_handle = n,
      accessfd = rfd, in_offset = -1\<rparr>) (net p) = (No_reply, (net p)(a := None))"
    using assms(5,6) by (auto simp: cluster_forward_def)
  with wrap_read_unanswered [OF r assms(2,3)] assms(1) show ?thesis by simp
qed

text \<open>
  The test for the data directory is a substring test: a file is tracked whenever the
  canonical name of the data directory occurs anywhere in the canonical name of the file's
  directory, under it or not.
\<close>

lemma data_dir_is_substring:
  assumes "canonical e (os p) path = Some c" and "parent_path c = before @ t @ after"
    and "hvac_data_dir p = Some d" and "canonical e (os p) d = Some t"
  shows "track_decision e path fd p = (True, (l4c p)\<lparr>fd_map := (fd_map p)(fd \<mapsto> c)\<rparr>)"
  using assms by (simp add: track_decision_def Let_def str_contains_append)

text \<open>
  \<open>fopen\<close> tracks a file of the data directory whatever the mode, as if it had been opened for
  reading: the writer's stream is linked to a server that shows the file as it was.
\<close>

lemma fopen_tracks_any_mode:
  assumes "open_ready (deployed e dt lf) p w path c a s"
    and "real_fopen (deployed e dt lf) path mode (os p) = (Some fd, w)" and "fd \<noteq> -1"
    and "server_ok s" and "registry s (hvac_client_rpc_id p) = Some K_read"
    and "registry s (hvac_client_seek_id p) = Some K_seek"
    and "bytes_at (disk s) c = Some b" and "posix_open (disk s) (redirected s c) = (rfd, ps)" and "rfd \<noteq> -1"
  shows "\<exists>p'. wrap_fopen (deployed e dt lf) path mode p = Inr (Some fd, p') \<and>
    tracked_view (deployed e dt lf) p' fd = Some (b, 0)"
proof -
  obtain p' where p': "hvac_track_file (deployed e dt lf) path O_RDONLY fd (p\<lparr>os := w\<rparr>) = Inr (True, p')"
    "tracked_view (deployed e dt lf) (l4c p') fd = Some (b, 0)"
    using track_file_view [OF assms(1) _ assms(4-9), of O_RDONLY fd] by auto
  have "wrap_fopen (deployed e dt lf) path mode p = Inr (Some fd, l4c p')"
    by (rule wrap_opens_track(3) [OF _ _ _ _ _ p'(1) assms(3) refl assms(2)])
      (use assms(1) in \<open>simp_all add: open_ready_def\<close>)
  with p'(2) show ?thesis by blast
qed

section \<open>Without a progress thread\<close>

text \<open>
  A process in which no thread runs \<open>hvac_progress_fn\<close>: \<open>pthread_create\<close> failed and was only
  logged, or the process is the child of a \<open>fork\<close>, which has the memory of its parent but of
  its threads only the one that called. Each request resets the flag, and nobody sets it.
\<close>

lemma progress_none: "progress_threads p = 0 \<Longrightarrow> progress e p = Inr p"
  by (simp add: progress_def progress_runs_def)

lemma lookup_addr_waits:
  "hvac_client_comm_lookup_addr e rank p = Inr (a, q) \<Longrightarrow> rpc_done q = rpc_done p \<and> progress_threads q = progress_threads p"
  by (drule lookup_addr_frame) auto

lemma forward_rpc_waits:
  "forward_rpc e a rid inp p = Inr (r, q) \<Longrightarrow> rpc_done q = rpc_done p \<and> progress_threads q = progress_threads p"
  by (auto simp: forward_rpc_def hvac_result split: prod.splits)

lemma gen_rpc_waits:
  "hvac_client_comm_gen_read_rpc e h fd buf n off p = Inr (buf', q) \<Longrightarrow> rpc_done q = 0 \<and> progress_threads q = progress_threads p"
  "hvac_client_comm_gen_seek_rpc e h fd off' wh p = Inr q \<Longrightarrow> rpc_done q = 0 \<and> progress_threads q = progress_threads p"
  "hvac_client_comm_gen_open_rpc e h path fd p = Inr q \<Longrightarrow> rpc_done q = 0 \<and> progress_threads q = progress_threads p"
  by (auto simp: hvac_client_comm_gen_read_rpc_def hvac_client_comm_gen_seek_rpc_def
      hvac_client_comm_gen_open_rpc_def and_then_eq_Inr hvac_result Let_def case_prod_beta
      split: option.splits dest!: lookup_addr_waits forward_rpc_waits)

lemma remote_read_at_no_progress:
  assumes "progress_threads p = 0" and "hvac_file_tracked p fd"
  shows "remote_read_at e fd buf n off p \<noteq> Inr r"
proof
  assume "remote_read_at e fd buf n off p = Inr r"
  with assms(2) obtain path m h buf' q q' where
    q: "hvac_client_comm_gen_read_rpc e h fd buf n off (l4c (p\<lparr>fd_map := m\<rparr>)) = Inr (buf', q)"
    "progress e q = Inr q'" "hvac_read_block q' \<noteq> Inl Blocked_forever"
    by (auto simp: remote_read_at_def and_then_eq_Inr Let_def case_prod_beta)
  from gen_rpc_waits(1) [OF q(1)] assms(1) have "rpc_done q = 0" "progress_threads q = 0"
    by (simp_all add: l4c_def)
  with q(2,3) show False by (simp add: progress_none hvac_read_block_def)
qed

lemma remote_lseek_no_progress:
  assumes "progress_threads p = 0" and "hvac_file_tracked p fd"
  shows "hvac_remote_lseek e fd off wh p \<noteq> Inr r"
proof
  assume "hvac_remote_lseek e fd off wh p = Inr r"
  with assms(2) obtain m h q q' where
    q: "hvac_client_comm_gen_seek_rpc e h fd off wh (l4c (p\<lparr>fd_map := m\<rparr>)) = Inr q"
    "progress e q = Inr q'" "hvac_seek_block q' \<noteq> Inl Blocked_forever"
    by (auto simp: hvac_remote_lseek_def and_then_eq_Inr Let_def case_prod_beta)
  from gen_rpc_waits(2) [OF q(1)] assms(1) have "rpc_done q = 0" "progress_threads q = 0"
    by (simp_all add: l4c_def)
  with q(2,3) show False by (simp add: progress_none hvac_seek_block_def)
qed

lemma ensure_mercury_no_thread:
  "ensure_mercury e p = Inr q \<Longrightarrow> g_mercury_init p \<or> \<not> hg_thread_create (hgenv e) \<Longrightarrow>
   progress_threads q = progress_threads p"
  by (auto simp: ensure_mercury_def hvac_init_comm_def hvac_client_comm_register_rpc_def register_defs
      l4c_def Let_def hvac_result split: if_splits option.splits)

lemma remote_open_no_progress:
  assumes "progress_threads p = 0" and "g_mercury_init p \<or> \<not> hg_thread_create (hgenv e)"
  shows "remote_open e fd p \<noteq> Inr r"
proof
  assume "remote_open e fd p = Inr r"
  then obtain p1 path m h q q' where p1: "ensure_mercury e p = Inr p1" and
    q: "hvac_client_comm_gen_open_rpc e h path fd (l4c (p1\<lparr>fd_map := m\<rparr>)) = Inr q"
    "progress e q = Inr q'" "hvac_client_block q' \<noteq> Inl Blocked_forever"
    by (auto simp: remote_open_def and_then_eq_Inr Let_def case_prod_beta)
  from gen_rpc_waits(3) [OF q(1)] ensure_mercury_no_thread [OF p1 assms(2)] assms(1)
  have "rpc_done q = 0" "progress_threads q = 0" by (simp_all add: l4c_def)
  with q(2,3) show False by (simp add: progress_none hvac_client_block_def)
qed

text \<open>A descriptor that was linked before the threads were lost: the read asks, and waits.\<close>

lemma wrap_read_no_progress:
  assumes "remote_end e (p\<lparr>progress_threads := k\<rparr>) fd = Some (a, rfd)" and "progress_threads p = 0"
    and "mercury_ok e" and "dlsym e ''read''" and "\<And>a rid req w. fst (hg_forward e a rid req w) \<noteq> Forward_failed"
  shows "wrap_read e fd (Some mem) n p = Inl Blocked_forever"
proof -
  let ?p = "p\<lparr>progress_threads := k\<rparr>"
  from remote_end_SomeD [OF assms(1)] obtain path str where
    l: "g_hvac_server_count p \<noteq> 0" "fd_redir_map p fd = Some rfd" "fd_map p fd = Some path"
      "address_cache p (host_index e ?p path) = Some str" "hg_lookup e str = Some a" by auto
  have h: "host_of e (l4c p) path = Inr (host_index e ?p path)" using l(1) by (simp add: host_of_def host_index_def)
  have same: "(l4c p)\<lparr>fd_map := fd_map p\<rparr> = l4c p" by (simp add: l4c_def)
  define q where "q = p\<lparr>tl_disable_redirect := False, rpc_done := 0, read_ret := -1\<rparr>"
  have look: "hvac_client_comm_lookup_addr e (host_index e ?p path) q = Inr (a, q)"
    by (rule lookup_addr_cached [where s = str]) (simp_all add: q_def l)
  obtain r w where f: "hg_forward e a (hvac_client_rpc_id p) (Read_in \<lparr>input_val = to_int n, bulk_handle = n,
      accessfd = rfd, in_offset = -1\<rparr>) (net p) = (r, w)" by fastforce
  then have "r \<noteq> Forward_failed" using assms(5) by (metis fst_conv)
  with f have "forward_rpc e a (hvac_client_rpc_id p) (Read_in \<lparr>input_val = to_int n, bulk_handle = n,
      accessfd = rfd, in_offset = -1\<rparr>) q = Inr (r, q\<lparr>net := w\<rparr>)"
    by (intro forward_rpc_reply [OF assms(3)]) (simp_all add: q_def)
  with look have "\<exists>b. hvac_client_comm_gen_read_rpc e (host_index e ?p path) fd (Some mem) n (-1) (l4c p)
      = Inr (b, q\<lparr>net := w, pending := pending p @ [Cb_read r]\<rparr>)"
    using assms(3) by (simp add: hvac_client_comm_gen_read_rpc_def l4c_def q_def mercury_ok_def l)
  then obtain b where "hvac_client_comm_gen_read_rpc e (host_index e ?p path) fd (Some mem) n (-1) (l4c p)
      = Inr (b, q\<lparr>net := w, pending := pending p @ [Cb_read r]\<rparr>)" ..
  moreover have "progress_threads (q\<lparr>net := w, pending := pending p @ [Cb_read r]\<rparr>) = 0" "rpc_done q = 0"
    using assms(2) by (simp_all add: q_def)
  ultimately show ?thesis
    using l(3) h assms(4)
    by (simp add: same wrap_read_def MAP_OR_FAIL_def hvac_get_path_def hvac_remote_read_def remote_read_at_def
        hvac_file_tracked_def map_has_def progress_none hvac_read_block_def)
qed

end
