(* ===== verification/System.thy ===== *)
theory System
  imports Transparency
begin

unbundle bit_operations_syntax

text \<open>
  The system of one client process, its servers and everybody else: any sequence of wrapper
  calls of the process, steps of the servers' mover threads, requests of other clients, and
  actions of the process that the library does not see. Each wrapper call has one of four
  abstract effects (\<open>client_effect\<close>), and the invariants are proved over the effects: every
  reachable state keeps the servers' invariant and the link between a tracked descriptor and
  the file the server holds open for it.
\<close>

section \<open>The link\<close>

definition servers_ok :: "cluster \<Rightarrow> bool" where
  "servers_ok w \<longleftrightarrow> (\<forall>a s. w a = Some s \<longrightarrow> server_ok s)"

text \<open>The server at \<open>a\<close>, if it still runs, has \<open>rfd\<close> open for the path \<open>c\<close>.\<close>

definition holds :: "cluster \<Rightarrow> string \<Rightarrow> cint \<Rightarrow> path \<Rightarrow> bool" where
  "holds w a rfd c \<longleftrightarrow> (\<forall>s. w a = Some s \<longrightarrow>
     fdtab (disk s) rfd \<noteq> None \<and> fd_to_path s rfd = Some c)"

definition linked :: "('o, string, cluster) cenv \<Rightarrow> ('o, cluster) proc \<Rightarrow> bool" where
  "linked e p \<longleftrightarrow> servers_ok (net p) \<and> pending p = [] \<and>
     (\<forall>fd c. fd_map p fd = Some c \<longrightarrow>
       (\<exists>a rfd. remote_end e p fd = Some (a, rfd) \<and> (rfd = -1 \<or> holds (net p) a rfd c))) \<and>
     (\<forall>fd fd' a rfd. fd \<noteq> fd' \<longrightarrow> remote_end e p fd = Some (a, rfd) \<longrightarrow>
       remote_end e p fd' = Some (a, rfd) \<longrightarrow> rfd = -1 \<or> net p a = None)"

lemma linked_parts:
  assumes "linked e p"
  shows "servers_ok (net p)" and "pending p = []"
    and "fd_map p fd = Some c \<Longrightarrow> \<exists>a rfd. remote_end e p fd = Some (a, rfd)"
    and "fd_map p fd = Some c \<Longrightarrow> remote_end e p fd = Some (a, rfd) \<Longrightarrow> rfd \<noteq> -1 \<Longrightarrow>
      holds (net p) a rfd c"
    and "fd \<noteq> fd' \<Longrightarrow> remote_end e p fd = Some (a, rfd) \<Longrightarrow> remote_end e p fd' = Some (a, rfd) \<Longrightarrow>
      rfd = -1 \<or> net p a = None"
  using assms by (fastforce simp: linked_def)+

text \<open>The link depends on the tables and the world only.\<close>

definition same_tables :: "('o, 'w) proc \<Rightarrow> ('o, 'w) proc \<Rightarrow> bool" where
  "same_tables p q \<longleftrightarrow> fd_map q = fd_map p \<and> fd_redir_map q = fd_redir_map p \<and>
     address_cache q = address_cache p \<and> g_hvac_server_count q = g_hvac_server_count p \<and>
     pending q = pending p \<and> (progress_runs q \<longleftrightarrow> progress_runs p)"

lemma same_tables_remote_end: "same_tables p q \<Longrightarrow> remote_end e q fd = remote_end e p fd"
  by (rule remote_end_cong) (simp_all add: same_tables_def)

lemma linked_same_tables:
  "same_tables p q \<Longrightarrow> net q = net p \<Longrightarrow> linked e p \<Longrightarrow> linked e q"
  using same_tables_remote_end [of p q e] by (simp add: linked_def same_tables_def)

lemma linked_quiet [simp]:
  "linked e (l4c p) \<longleftrightarrow> linked e p" "linked e (p\<lparr>os := w\<rparr>) \<longleftrightarrow> linked e p"
  by (rule iffI; erule linked_same_tables [rotated 2]; simp add: same_tables_def l4c_def)+

section \<open>What a request does to the links\<close>

text \<open>The descriptor that a request is about.\<close>

definition req_fd :: "rpc_in \<Rightarrow> cint option" where
  "req_fd req = (case req of Open_in _ \<Rightarrow> None | Read_in i \<Rightarrow> Some (accessfd i)
     | Seek_in i \<Rightarrow> Some (seek_fd i) | Close_in i \<Rightarrow> Some (close_fd i))"

lemma fdtab_calls:
  "fdtab (snd (snd (posix_read ps fd n))) x = None \<longleftrightarrow> fdtab ps x = None"
  "fdtab (snd (posix_lseek ps fd off wh)) x = None \<longleftrightarrow> fdtab ps x = None"
  by (auto simp: posix_read_def posix_lseek_def Let_def split: option.split)

text \<open>A handler other than the close of \<open>rfd\<close> leaves \<open>rfd\<close> open, for the same path.\<close>

lemma run_handler_keeps:
  assumes "fds_ok (disk s)" and "fdtab (disk s) rfd \<noteq> None" and "fd_to_path s rfd = Some c"
    and "run_handler env req s = Inr (out, data, s')" and "\<And>i. req = Close_in i \<Longrightarrow> close_fd i \<noteq> rfd"
  shows "fdtab (disk s') rfd \<noteq> None \<and> fd_to_path s' rfd = Some c"
proof (cases req)
  case (Open_in i)
  define q where "q = (case path_cache_map s (in_path i) of Some q \<Rightarrow> q | None \<Rightarrow> in_path i)"
  have s': "disk s' = snd (posix_open (disk s) q) \<and>
      fd_to_path s' = (fd_to_path s)(fst (posix_open (disk s) q) \<mapsto> in_path i)"
    using assms(4) unfolding Open_in q_def
    by (cases "path_cache_map s (in_path i)")
      (auto simp: run_handler_def hvac_open_rpc_handler_def hvac_result Let_def split: prod.splits)
  have "fst (posix_open (disk s) q) \<noteq> rfd \<and> fdtab (snd (posix_open (disk s) q)) rfd \<noteq> None"
    using assms(1,2)
    by (cases rule: posix_open_cases [of "disk s" q]) (auto simp: fds_ok_def dest: alloc_fd_free)
  with s' assms(3) show ?thesis by auto
next
  case (Read_in i)
  define s1 where "s1 = snd (snd (server_file_call env i (to_i64 (input_val i)) s))"
  have "s' = flush_if_full env (note_path (accessfd i) s1)"
    using assms(4) by (auto simp: Read_in run_handler_def hvac_rpc_handler_def Let_def s1_def
        hvac_result split: prod.splits)
  moreover have "fdtab (disk s1) rfd \<noteq> None \<and> fd_to_path s1 = fd_to_path s"
    using assms(2)
    by (simp add: s1_def server_file_call_def case_prod_beta fdtab_calls del: not_None_eq)
  ultimately show ?thesis using assms(3) by (auto simp: note_path_def snd_map_index_eq)
next
  case (Seek_in i)
  with assms(2-4) show ?thesis
    using fdtab_calls(2) [of "disk s" "seek_fd i" "to_i64 (seek_offset i)" "seek_whence i" rfd]
    by (auto simp: run_handler_def hvac_seek_rpc_handler_def hvac_result split: prod.splits)
next
  case (Close_in i)
  with assms(5) have ne: "close_fd i \<noteq> rfd" by simp
  with assms(2-4) show ?thesis
    by (auto simp: Close_in run_handler_def hvac_close_rpc_handler_def hvac_result Let_def
        posix_close_def map_erase_def snd_map_index_eq split: prod.splits if_splits)
qed

lemma run_handler_opens:
  assumes "run_handler env (Open_in \<lparr>in_path = c\<rparr>) s = Inr (Some rfd, data, s')" and "rfd \<noteq> -1"
  shows "fdtab (disk s) rfd = None \<and> fdtab (disk s') rfd \<noteq> None \<and> fd_to_path s' rfd = Some c"
proof -
  define q where "q = (case path_cache_map s c of Some q \<Rightarrow> q | None \<Rightarrow> c)"
  have s': "rfd = fst (posix_open (disk s) q) \<and> disk s' = snd (posix_open (disk s) q) \<and>
      fd_to_path s' = (fd_to_path s)(fst (posix_open (disk s) q) \<mapsto> c)"
    using assms(1) unfolding q_def
    by (cases "path_cache_map s c")
      (auto simp: run_handler_def hvac_open_rpc_handler_def hvac_result Let_def split: prod.splits)
  with assms(2) show ?thesis
    by (cases rule: posix_open_cases [of "disk s" q]) (auto dest: alloc_fd_free)
qed

abbreviation request :: "rpc_env \<Rightarrow> string \<Rightarrow> i64 \<Rightarrow> rpc_in \<Rightarrow> cluster \<Rightarrow> cluster" where
  "request env a rid req w \<equiv> snd (cluster_forward env a rid req w)"

lemma cluster_forward_cases:
  obtains (same) "request env a rid req w = w"
  | (stops) s where "w a = Some s" and "request env a rid req w = w(a := None)"
  | (handled) s out data s' where "w a = Some s" and "run_handler env req s = Inr (out, data, s')"
      and "request env a rid req w = w(a \<mapsto> s')"
  by (cases "w a"; cases "registry (the (w a)) rid = Some (kind_of req)";
      cases "run_handler env req (the (w a))")
    (auto simp: cluster_forward_def split: prod.splits)

lemma servers_ok_request: "servers_ok w \<Longrightarrow> servers_ok (request env a rid req w)"
  by (cases rule: cluster_forward_cases [of env a rid req w])
    (auto simp: servers_ok_def intro: server_ok_handler split: if_splits)

lemma dead_stays_dead: "w a' = None \<Longrightarrow> request env a rid req w a' = None"
  by (cases rule: cluster_forward_cases [of env a rid req w]) auto

lemma holds_request:
  assumes "servers_ok w" and "holds w a' rfd c"
    and "\<And>i. req = Close_in i \<Longrightarrow> (a, close_fd i) \<noteq> (a', rfd)"
  shows "holds (request env a rid req w) a' rfd c"
proof (cases rule: cluster_forward_cases [of env a rid req w])
  case (handled s out data s')
  have "fdtab (disk s') rfd \<noteq> None \<and> fd_to_path s' rfd = Some c" if "a = a'"
    by (rule run_handler_keeps [OF _ _ _ handled(2)])
      (use assms handled(1) that in \<open>auto simp: servers_ok_def server_ok_def holds_def\<close>)
  with assms(2) handled show ?thesis by (auto simp: holds_def)
qed (use assms(2) in \<open>auto simp: holds_def\<close>)

lemma cluster_forward_not_failed [simp]: "fst (cluster_forward env a rid req w) \<noteq> Forward_failed"
  by (auto simp: cluster_forward_def split: option.split sum.split prod.split)

lemma cluster_forward_reply:
  assumes "cluster_forward env a rid req w = (Reply 0 out data, w')"
  shows "\<exists>s s'. w a = Some s \<and> run_handler env req s = Inr (Some out, data, s') \<and> w' = w(a \<mapsto> s')"
  using assms
  by (auto simp: cluster_forward_def split: option.splits sum.splits prod.splits if_splits)

text \<open>A request that closes no open remote end of the client keeps the link.\<close>

lemma linked_request:
  assumes "linked e p" and "same_tables p q" and "net q = request env a rid req (net p)"
    and "\<And>fd i. req = Close_in i \<Longrightarrow> remote_end e p fd = Some (a, close_fd i) \<Longrightarrow>
      close_fd i = -1 \<or> net p a = None"
  shows "linked e q"
proof -
  have r: "remote_end e q fd = remote_end e p fd" for fd
    using assms(2) by (rule same_tables_remote_end)
  have "servers_ok (net q)" using linked_parts(1) [OF assms(1)] by (simp add: assms(3) servers_ok_request)
  moreover have "\<exists>a' rfd. remote_end e q fd = Some (a', rfd) \<and> (rfd = -1 \<or> holds (net q) a' rfd c)"
    if "fd_map q fd = Some c" for fd c
  proof -
    from that assms(2) have m: "fd_map p fd = Some c" by (simp add: same_tables_def)
    obtain a' rfd where e: "remote_end e p fd = Some (a', rfd)"
      using linked_parts(3) [OF assms(1) m] by blast
    have "holds (net q) a' rfd c" if ne: "rfd \<noteq> -1"
    proof (cases "net p a' = None")
      case True
      then show ?thesis by (simp add: assms(3) dead_stays_dead holds_def)
    next
      case False
      show ?thesis unfolding assms(3)
        by (rule holds_request [OF linked_parts(1) [OF assms(1)] linked_parts(4) [OF assms(1) m e ne]])
          (use assms(4) e ne False in auto)
    qed
    with e show ?thesis by (auto simp: r)
  qed
  moreover have "rfd = -1 \<or> net q a' = None"
    if "fd \<noteq> fd'" "remote_end e q fd = Some (a', rfd)" "remote_end e q fd' = Some (a', rfd)" for fd fd' a' rfd
    using linked_parts(5) [OF assms(1) that(1)] that(2,3) dead_stays_dead
    by (fastforce simp: r assms(3))
  ultimately show ?thesis
    using assms(2) linked_parts(2) [OF assms(1)] unfolding linked_def same_tables_def by simp
qed


section \<open>What a call does\<close>

text \<open>
  The four effects that a returning call of a client can have on its tables and on the
  servers: none, a request about the remote end of one of its descriptors, the close of one,
  and the opening of a new one. Tables and world are all that the effects speak of.
\<close>

definition same_view :: "('o, 'w) proc \<Rightarrow> ('o, 'w) proc \<Rightarrow> bool" where
  "same_view p q \<longleftrightarrow> same_tables p q \<and> net q = net p"

lemma same_view_quiet [simp]:
  "same_view p p" "same_view p (l4c p)" "same_view (l4c p) p" "same_view p (p\<lparr>os := w\<rparr>)"
  "same_view (p\<lparr>os := w\<rparr>) p"
  "same_view p (l4c (p\<lparr>os := w\<rparr>))" "same_view p ((l4c p)\<lparr>os := w\<rparr>)"
  by (simp_all add: same_view_def same_tables_def l4c_def)

lemma same_view_trans: "same_view p q \<Longrightarrow> same_view q r \<Longrightarrow> same_view p r"
  by (simp add: same_view_def same_tables_def)

inductive client_effect ::
  "('o, string, cluster) cenv \<Rightarrow> rpc_env \<Rightarrow> ('o, cluster) proc \<Rightarrow> ('o, cluster) proc \<Rightarrow> bool"
  for e :: "('o, string, cluster) cenv" and env :: rpc_env where
  eff_none: "same_view p q \<Longrightarrow> client_effect e env p q"
| eff_use: "remote_end e p fd = Some (a, rfd) \<Longrightarrow> req_fd req = Some rfd \<Longrightarrow> kind_of req \<noteq> K_close \<Longrightarrow>
    same_tables p q \<Longrightarrow> net q = request env a rid req (net p) \<Longrightarrow> client_effect e env p q"
| eff_close: "remote_end e p fd = Some (a, rfd) \<Longrightarrow>
    net q = request env a rid (Close_in \<lparr>close_fd = rfd\<rparr>) (net p) \<Longrightarrow>
    fd_map q = (fd_map p)(fd := None) \<Longrightarrow> fd_redir_map q = (fd_redir_map p)(fd := None) \<Longrightarrow>
    address_cache q = address_cache p \<Longrightarrow> g_hvac_server_count q = g_hvac_server_count p \<Longrightarrow>
    pending q = pending p \<Longrightarrow> (progress_runs q \<longleftrightarrow> progress_runs p) \<Longrightarrow> client_effect e env p q"
| eff_open: "net p a = Some s \<Longrightarrow>
    run_handler env (Open_in \<lparr>in_path = c\<rparr>) s = Inr (Some out, data, s') \<Longrightarrow>
    net q = request env a rid (Open_in \<lparr>in_path = c\<rparr>) (net p) \<Longrightarrow> net q = (net p)(a \<mapsto> s') \<Longrightarrow>
    remote_end e q fd = Some (a, out) \<Longrightarrow> fd_map q = (fd_map p)(fd \<mapsto> c) \<Longrightarrow>
    fd_redir_map q = (fd_redir_map p)(fd \<mapsto> out) \<Longrightarrow>
    \<forall>fd'. fd' \<noteq> fd \<longrightarrow> remote_end e p fd' \<noteq> None \<longrightarrow> remote_end e q fd' = remote_end e p fd' \<Longrightarrow>
    client_effect e env p q"

lemma same_view_remote_end: "same_view p q \<Longrightarrow> remote_end e q fd = remote_end e p fd"
  by (simp add: same_view_def same_tables_remote_end)

text \<open>What a call does to the rest of the process, before and after, plays no part.\<close>

lemma effect_around:
  assumes "client_effect e env p q" and "same_view p0 p" and "same_view q q'"
  shows "client_effect e env p0 q'"
  using assms(1)
proof (cases rule: client_effect.cases)
  case eff_none
  with assms(2,3) show ?thesis by (intro client_effect.eff_none) (blast intro: same_view_trans)
next
  case (eff_use fd a rfd req rid)
  show ?thesis
    by (rule client_effect.eff_use [where fd = fd and a = a and rfd = rfd and req = req and rid = rid])
      (use eff_use same_view_remote_end [OF assms(2), of e fd] assms(2,3) in
        \<open>simp_all add: same_view_def same_tables_def\<close>)
next
  case (eff_close fd a rfd rid)
  show ?thesis
    by (rule client_effect.eff_close [where fd = fd and a = a and rfd = rfd and rid = rid])
      (use eff_close same_view_remote_end [OF assms(2), of e fd] assms(2,3) in
        \<open>auto simp: same_view_def same_tables_def\<close>)
next
  case (eff_open a s c out data s' rid fd)
  note v = assms(2,3) [unfolded same_view_def same_tables_def]
  have r: "remote_end e p fd' = remote_end e p0 fd'" "remote_end e q' fd' = remote_end e q fd'" for fd'
    by (rule same_view_remote_end [OF assms(2)], rule same_view_remote_end [OF assms(3)])
  show ?thesis
  proof (rule client_effect.eff_open)
    show "net p0 a = Some s" using eff_open(1) v by simp
    show "run_handler env (Open_in \<lparr>in_path = c\<rparr>) s = Inr (Some out, data, s')" by (rule eff_open(2))
    show "net q' = request env a rid (Open_in \<lparr>in_path = c\<rparr>) (net p0)" using eff_open(3) v by simp
    show "net q' = (net p0)(a \<mapsto> s')" using eff_open(4) v by simp
    show "remote_end e q' fd = Some (a, out)" using eff_open(5) r by simp
    show "fd_map q' = (fd_map p0)(fd \<mapsto> c)" using eff_open(6) v by simp
    show "fd_redir_map q' = (fd_redir_map p0)(fd \<mapsto> out)" using eff_open(7) v by simp
    show "\<forall>fd'. fd' \<noteq> fd \<longrightarrow> remote_end e p0 fd' \<noteq> None \<longrightarrow> remote_end e q' fd' = remote_end e p0 fd'"
      using eff_open(8) by (simp add: r)
  qed
qed

lemma effect_quiet [simp]:
  "client_effect e env p (l4c q) \<longleftrightarrow> client_effect e env p q"
  "client_effect e env (l4c p) q \<longleftrightarrow> client_effect e env p q"
  "client_effect e env p (q\<lparr>os := w\<rparr>) \<longleftrightarrow> client_effect e env p q"
  "client_effect e env (p\<lparr>os := w\<rparr>) q \<longleftrightarrow> client_effect e env p q"
  using effect_around same_view_quiet by metis+

lemma effect_refl [simp]: "client_effect e env p p"
  by (rule eff_none) simp

subsection \<open>Reads, seeks and the close\<close>

lemma effect_after_read:
  assumes "remote_end e p fd = Some (a, rfd)" and "req_fd req = Some rfd" and "kind_of req \<noteq> K_close"
    and "w = request env a rid req (net p)"
  shows "client_effect e env p (after_read r w p)"
  by (rule eff_use [OF assms(1-3)]) (use assms(4) in \<open>simp_all add: same_tables_def after_read_def\<close>)

lemma effect_read_at:
  assumes lk: "linked (deployed e dt lf) p"
    and call: "remote_read_at (deployed e dt lf) fd buf n off p = Inr (r, buf', p')"
  shows "client_effect (deployed e dt lf) (fault_free dt lf) p p'"
proof (cases "fd_map p fd")
  case None
  with call show ?thesis by (simp add: remote_read_at_def hvac_file_tracked_def map_has_def)
next
  case (Some c)
  then obtain a rfd where e: "remote_end (deployed e dt lf) p fd = Some (a, rfd)"
    using linked_parts(3) [OF lk] by blast
  have "buf \<noteq> None"
  proof
    assume "buf = None"
    with call show False
      by (auto simp: remote_read_at_def hvac_client_comm_gen_read_rpc_def and_then_eq_Inr
        case_prod_beta Let_def split: if_splits)
        (use Some in \<open>simp add: hvac_file_tracked_def map_has_def\<close>)
  qed
  then obtain mem where "buf = Some mem" by blast
  with remote_read_at_inv [OF e _ call[unfolded \<open>buf = Some mem\<close>]] obtain out data w where
    w: "cluster_forward (fault_free dt lf) a (hvac_client_rpc_id p) (Read_in \<lparr>input_val = to_int n,
       bulk_handle = n, accessfd = rfd, in_offset = off\<rparr>) (net p) = (Reply 0 out data, w)"
    and p': "p' = after_read (to_i64 out) w p" by auto
  show ?thesis unfolding p'
    by (rule effect_after_read [OF e, where rid = "hvac_client_rpc_id p" and req = "Read_in \<lparr>input_val = to_int n, bulk_handle = n,
        accessfd = rfd, in_offset = off\<rparr>"]) (simp_all add: req_fd_def w)
qed

lemma effect_lseek:
  assumes lk: "linked (deployed e dt lf) p"
    and call: "hvac_remote_lseek (deployed e dt lf) fd off wh p = Inr (r, p')"
  shows "client_effect (deployed e dt lf) (fault_free dt lf) p p'"
proof (cases "fd_map p fd")
  case None
  with call show ?thesis by (simp add: hvac_remote_lseek_def hvac_file_tracked_def map_has_def)
next
  case (Some c)
  then obtain a rfd where e: "remote_end (deployed e dt lf) p fd = Some (a, rfd)"
    using linked_parts(3) [OF lk] by blast
  with remote_lseek_inv [OF e _ call] obtain out data w where
    w: "cluster_forward (fault_free dt lf) a (hvac_client_seek_id p) (Seek_in \<lparr>seek_fd = rfd,
       seek_offset = off, seek_whence = wh\<rparr>) (net p) = (Reply 0 out data, w)"
    and p': "p' = after_read (to_i64 out) w p" by auto
  show ?thesis unfolding p'
    by (rule effect_after_read [OF e, where rid = "hvac_client_seek_id p" and req = "Seek_in \<lparr>seek_fd = rfd, seek_offset = off,
        seek_whence = wh\<rparr>"]) (simp_all add: req_fd_def w)
qed

lemma effect_remove_fd:
  assumes "linked (deployed e dt lf) p" and "fd_map p fd = Some c"
    and "hvac_remove_fd (deployed e dt lf) fd p = Inr (t, p')"
  shows "client_effect (deployed e dt lf) (fault_free dt lf) p p'"
proof -
  let ?E = "deployed e dt lf"
  obtain a rfd where e: "remote_end ?E p fd = Some (a, rfd)"
    using linked_parts(3) [OF assms(1,2)] by blast
  obtain r w where f: "hg_forward ?E a (hvac_client_close_id p) (Close_in \<lparr>close_fd = rfd\<rparr>) (net p) = (r, w)"
    by fastforce
  then have w: "w = request (fault_free dt lf) a (hvac_client_close_id p) (Close_in \<lparr>close_fd = rfd\<rparr>) (net p)"
    by simp
  have "r \<noteq> Forward_failed" using f cluster_forward_not_failed by (metis deployed_simps(1) fst_conv)
  from remove_fd_reply [OF e _ f this] assms(3) have
    p': "p' = p\<lparr>net := w, fd_redir_map := (fd_redir_map p)(fd := None), fd_map := (fd_map p)(fd := None)\<rparr>"
    by simp
  show ?thesis by (rule eff_close [OF e, where rid = "hvac_client_close_id p"]) (simp_all add: p' w)
qed

subsection \<open>Opening\<close>

text \<open>The new descriptor is linked to one that the server did not use.\<close>

lemma remote_open_effect:
  assumes "pending p = []" and p1: "p1 = (l4c p)\<lparr>fd_map := (fd_map p)(fd \<mapsto> c)\<rparr>"
    and "remote_open (deployed e dt lf) fd p1 = Inr p2"
  shows "\<exists>a rid out data s s'. net p a = Some s \<and>
    run_handler (fault_free dt lf) (Open_in \<lparr>in_path = c\<rparr>) s = Inr (Some out, data, s') \<and>
    net p2 = request (fault_free dt lf) a rid (Open_in \<lparr>in_path = c\<rparr>) (net p) \<and>
    net p2 = (net p)(a \<mapsto> s') \<and> remote_end (deployed e dt lf) p2 fd = Some (a, out) \<and>
    fd_map p2 = (fd_map p)(fd \<mapsto> c) \<and> fd_redir_map p2 = (fd_redir_map p)(fd \<mapsto> out) \<and>
    (\<forall>fd'. fd' \<noteq> fd \<longrightarrow> remote_end (deployed e dt lf) p fd' \<noteq> None \<longrightarrow>
       remote_end (deployed e dt lf) p2 fd' = remote_end (deployed e dt lf) p fd')"
proof -
  let ?E = "deployed e dt lf"
  have m: "fd_map p1 fd = Some c" "pending p1 = []" using assms(1) by (simp_all add: p1)
  have nf: "fst (hg_forward ?E a rid req w) \<noteq> Forward_failed" for a rid req w by simp
  from remote_open_inv [OF assms(3) deployed_simps(2) m(2,1) nf] obtain q1 a q out data w where
    o: "ensure_mercury ?E p1 = Inr q1" "g_hvac_server_count q1 \<noteq> 0" "progress_runs q1"
      "hvac_client_comm_lookup_addr ?E (host_index ?E q1 c) ((l4c q1)\<lparr>rpc_done := 0\<rparr>) = Inr (a, q)"
      "hg_forward ?E a (hvac_client_open_id q1) (Open_in \<lparr>in_path = c\<rparr>) (net q1) = (Reply 0 out data, w)"
    by blast
  note f = ensure_mercury_frame [OF o(1)]
  have q1: "pending q1 = []" "fd_map q1 fd = Some c" "net q1 = net p"
    using f m by (simp_all add: p1)
  have same: "remote_end ?E q1 fd' = remote_end ?E p fd'" if "fd' \<noteq> fd" "remote_end ?E p fd' \<noteq> None" for fd'
  proof -
    have "progress_runs p" using that(2) by (auto dest: remote_end_SomeD)
    then show ?thesis by (intro remote_end_cong) (use f that o(3) in \<open>simp_all add: p1\<close>)
  qed
  from remote_open_reply [OF o(1) deployed_simps(2) o(2) q1(1,2) o(4,5,3)] assms(3) same f have ends:
    "remote_end ?E p2 fd = Some (a, out)" "net p2 = w" "fd_map p2 = (fd_map p)(fd \<mapsto> c)"
    "fd_redir_map p2 = (fd_redir_map p)(fd \<mapsto> out)"
    "\<forall>fd'. fd' \<noteq> fd \<longrightarrow> remote_end ?E p fd' \<noteq> None \<longrightarrow> remote_end ?E p2 fd' = remote_end ?E p fd'"
    by (auto simp: p1)
  have "cluster_forward (fault_free dt lf) a (hvac_client_open_id q1) (Open_in \<lparr>in_path = c\<rparr>) (net p)
      = (Reply 0 out data, w)"
    using o(5) q1(3) by simp
  from cluster_forward_reply [OF this] this ends show ?thesis by (metis snd_conv)
qed

lemma effect_track_file:
  assumes "linked (deployed e dt lf) p"
    and "hvac_track_file (deployed e dt lf) path flags fd p = Inr (t, p')"
  shows "client_effect (deployed e dt lf) (fault_free dt lf) p p'"
proof (cases rule: track_decision_cases [of "deployed e dt lf" path fd p])
  case (yes c)
  show ?thesis
  proof (cases "p' = p")
    case False
    with assms(2) yes(2) have
      "remote_open (deployed e dt lf) fd ((l4c p)\<lparr>fd_map := (fd_map p)(fd \<mapsto> c)\<rparr>) = Inr p'"
      by (auto simp: hvac_track_file_def and_then_eq_Inr split: if_splits)
    from remote_open_effect [OF linked_parts(2) [OF assms(1)] refl this] show ?thesis
      by (metis eff_open)
  qed simp
qed (use assms(2) in \<open>auto simp: hvac_track_file_def split: if_splits\<close>)

section \<open>Every call has one of the effects\<close>

inductive client_call ::
  "('o, string, cluster) cenv \<Rightarrow> ('o, cluster) proc \<Rightarrow> ('o, cluster) proc \<Rightarrow> bool"
  for e :: "('o, string, cluster) cenv" where
  call_open: "wrap_open e path flags md p = Inr (fd, p') \<Longrightarrow> client_call e p p'"
| call_open64: "wrap_open64 e path flags md p = Inr (fd, p') \<Longrightarrow> client_call e p p'"
| call_fopen: "wrap_fopen e path mode p = Inr (fp, p') \<Longrightarrow> client_call e p p'"
| call_fopen64: "wrap_fopen64 e path mode p = Inr (fp, p') \<Longrightarrow> client_call e p p'"
| call_close: "wrap_close e fd p = Inr (ret, p') \<Longrightarrow> client_call e p p'"
| call_read: "wrap_read e fd buf n p = Inr (r, buf', p') \<Longrightarrow> client_call e p p'"
| call_read64: "wrap_read64 e fd buf n p = Inr (r, buf', p') \<Longrightarrow> client_call e p p'"
| call_pread: "wrap_pread e fd buf n off p = Inr (r, buf', p') \<Longrightarrow> client_call e p p'"
| call_readv: "wrap_readv e fd iov p = Inr (r, iov', p') \<Longrightarrow> client_call e p p'"
| call_write: "wrap_write e fd buf n p = Inr (r, p') \<Longrightarrow> client_call e p p'"
| call_lseek: "wrap_lseek e fd off wh p = Inr (r, p') \<Longrightarrow> client_call e p p'"
| call_lseek64: "wrap_lseek64 e fd off wh p = Inr (r, p') \<Longrightarrow> client_call e p p'"
| call_unseen: "client_call e p (p\<lparr>os := w\<rparr>)"

lemma effect_opens:
  assumes "linked (deployed e dt lf) p"
  shows "wrap_open (deployed e dt lf) path flags md p = Inr (fd, p') \<Longrightarrow>
      client_effect (deployed e dt lf) (fault_free dt lf) p p'"
    and "wrap_open64 (deployed e dt lf) path flags md p = Inr (fd, p') \<Longrightarrow>
      client_effect (deployed e dt lf) (fault_free dt lf) p p'"
    and "wrap_fopen (deployed e dt lf) path mode p = Inr (fp, p') \<Longrightarrow>
      client_effect (deployed e dt lf) (fault_free dt lf) p p'"
    and "wrap_fopen64 (deployed e dt lf) path mode p = Inr (fp, p') \<Longrightarrow>
      client_effect (deployed e dt lf) (fault_free dt lf) p p'"
  using assms
  by (auto simp: wrap_open_def wrap_open64_def wrap_fopen_def wrap_fopen64_def MAP_OR_FAIL_def
      track_fd_def track_stream_def Let_def and_then_eq_Inr
      dest!: effect_track_file [rotated] split: prod.splits if_splits option.splits)

lemma effect_wrap_read:
  assumes "linked (deployed e dt lf) p" and "wrap_read (deployed e dt lf) fd buf n p = Inr (r, buf', p')"
  shows "client_effect (deployed e dt lf) (fault_free dt lf) p p'"
proof (cases "fd_map p fd")
  case None
  with assms show ?thesis
    by (auto simp: wrap_read_def MAP_OR_FAIL_def hvac_get_path_def split: prod.splits)
next
  case (Some c)
  with assms(2) obtain r1 buf1 p1 where
    x: "remote_read_at (deployed e dt lf) fd buf n (-1) (l4c p) = Inr (r1, buf1, p1)"
    and "p' = l4c p1 \<or> (\<exists>w. p' = (l4c p1)\<lparr>os := w\<rparr>)"
    by (simp add: wrap_read_def MAP_OR_FAIL_def hvac_get_path_def hvac_remote_read_def and_then_eq_Inr
        Let_def case_prod_beta split: if_splits) (metis prod.collapse)+
  with effect_read_at [OF _ x] assms(1) show ?thesis by auto
qed

lemma effect_reads:
  assumes "linked (deployed e dt lf) p"
  shows "wrap_read64 (deployed e dt lf) fd buf n p = Inr (r, buf', p') \<Longrightarrow>
      client_effect (deployed e dt lf) (fault_free dt lf) p p'"
    and "wrap_pread (deployed e dt lf) fd buf n off p = Inr (r, buf', p') \<Longrightarrow>
      client_effect (deployed e dt lf) (fault_free dt lf) p p'"
    and "wrap_readv (deployed e dt lf) fd iov p = Inr (r, iov', p') \<Longrightarrow>
      client_effect (deployed e dt lf) (fault_free dt lf) p p'"
  using assms
  by (auto simp: wrap_read64_def wrap_pread_def wrap_readv_def MAP_OR_FAIL_def hvac_remote_pread_def
      dest!: effect_read_at [rotated] split: prod.splits option.splits)

lemma effect_seeks:
  assumes "linked (deployed e dt lf) p"
  shows "wrap_lseek (deployed e dt lf) fd off wh p = Inr (m, p') \<Longrightarrow>
      client_effect (deployed e dt lf) (fault_free dt lf) p p'"
    and "wrap_lseek64 (deployed e dt lf) fd off wh p = Inr (m, p') \<Longrightarrow>
      client_effect (deployed e dt lf) (fault_free dt lf) p p'"
    and "wrap_write (deployed e dt lf) fd buf n p = Inr (m, p') \<Longrightarrow>
      client_effect (deployed e dt lf) (fault_free dt lf) p p'"
  using assms
  by (auto simp: wrap_lseek_def wrap_lseek64_def wrap_write_def MAP_OR_FAIL_def
      dest!: effect_lseek [rotated] split: prod.splits if_splits)

lemma effect_wrap_close:
  assumes "linked (deployed e dt lf) p" and "wrap_close (deployed e dt lf) fd p = Inr (ret, p')"
  shows "client_effect (deployed e dt lf) (fault_free dt lf) p p'"
proof -
  have "client_effect (deployed e dt lf) (fault_free dt lf) p p1"
    if "hvac_remove_fd (deployed e dt lf) fd (l4c p) = Inr (t, p1)" and "fd_map p fd = Some c" for t p1 c
    using effect_remove_fd [of e dt lf "l4c p" fd c t p1] assms(1) that by simp
  with assms show ?thesis
    by (auto simp: wrap_close_def MAP_OR_FAIL_def hvac_get_path_def and_then_eq_Inr case_prod_beta
        split: if_splits option.splits)
qed

theorem client_call_effect:
  "client_call (deployed e dt lf) p p' \<Longrightarrow> linked (deployed e dt lf) p \<Longrightarrow>
   client_effect (deployed e dt lf) (fault_free dt lf) p p'"
  by (erule client_call.cases)
    (auto intro: effect_opens effect_wrap_read effect_reads effect_seeks effect_wrap_close)

section \<open>The effects keep the link\<close>

lemma linked_add:
  assumes lk: "linked E p" and s: "net p a = Some s" "fdtab (disk s) out = None \<or> out = -1"
    and w: "net p2 = request env a rid (Open_in i) (net p)"
    and new: "out = -1 \<or> holds (net p2) a out c" "remote_end E p2 fd = Some (a, out)"
    and map: "fd_map p2 = (fd_map p)(fd \<mapsto> c)"
    and old: "\<And>fd'. fd' \<noteq> fd \<Longrightarrow> remote_end E p fd' \<noteq> None \<Longrightarrow> remote_end E p2 fd' = remote_end E p fd'"
  shows "linked E p2"
proof -
  have same: "\<exists>a' rfd' c'. remote_end E p fd' = Some (a', rfd') \<and> fd_map p fd' = Some c' \<and>
      remote_end E p2 fd' = Some (a', rfd') \<and> fd_map p2 fd' = Some c'"
    if "fd_map p2 fd' \<noteq> None" "fd' \<noteq> fd" for fd'
    using that linked_parts(3) [OF lk, of fd'] old [OF that(2)] by (auto simp: map)
  have dom: "fd_map p2 fd' \<noteq> None" if "remote_end E p2 fd' = Some (a', rfd')" for fd' a' rfd'
    using remote_end_tracked [OF that] by (simp add: hvac_file_tracked_def map_has_def)
  have unused: "rfd' = -1 \<or> (a', rfd') \<noteq> (a, out)"
    if "remote_end E p fd' = Some (a', rfd')" "fd_map p fd' = Some c'" for fd' c' a' rfd'
    using linked_parts(4) [OF lk that(2,1)] s by (auto simp: holds_def)
  have "rfd' = -1 \<or> net p2 a' = None"
    if d: "fd1 \<noteq> fd2" and e: "remote_end E p2 fd1 = Some (a', rfd')" "remote_end E p2 fd2 = Some (a', rfd')"
    for fd1 fd2 a' rfd'
  proof (cases "fd1 = fd \<or> fd2 = fd")
    case True
    with d same dom [OF e(1)] dom [OF e(2)] unused e new(2) show ?thesis
      by (metis option.inject)
  next
    case False
    with same [OF dom [OF e(1)]] same [OF dom [OF e(2)]] e
    have "remote_end E p fd1 = Some (a', rfd')" "remote_end E p fd2 = Some (a', rfd')" by auto
    with linked_parts(5) [OF lk d] dead_stays_dead show ?thesis by (auto simp: w)
  qed
  moreover have "\<exists>a' rfd'. remote_end E p2 fd' = Some (a', rfd') \<and> (rfd' = -1 \<or> holds (net p2) a' rfd' c')"
    if m: "fd_map p2 fd' = Some c'" for fd' c'
  proof (cases "fd' = fd")
    case True
    with m new show ?thesis by (auto simp: map)
  next
    case False
    with same [of fd'] m obtain a' rfd' where e: "remote_end E p fd' = Some (a', rfd')"
      "fd_map p fd' = Some c'" "remote_end E p2 fd' = Some (a', rfd')" by auto
    have "rfd' = -1 \<or> holds (net p2) a' rfd' c'"
      using holds_request [OF linked_parts(1) [OF lk] linked_parts(4) [OF lk e(2,1)], of "Open_in i" a]
      unfolding w by blast
    with e(3) show ?thesis by blast
  qed
  moreover have "servers_ok (net p2)" using linked_parts(1) [OF lk] by (simp add: w servers_ok_request)
  moreover have "pending p2 = []" using remote_end_SomeD [OF new(2)] by blast
  ultimately show ?thesis unfolding linked_def by blast
qed

lemma linked_drop:
  assumes lk: "linked E p" and e: "remote_end E p fd = Some (a, rfd)"
    and w: "net p' = request env a rid (Close_in \<lparr>close_fd = rfd\<rparr>) (net p)"
    and t: "fd_map p' = (fd_map p)(fd := None)" "fd_redir_map p' = (fd_redir_map p)(fd := None)"
      "address_cache p' = address_cache p" "g_hvac_server_count p' = g_hvac_server_count p"
      "pending p' = pending p" "progress_runs p' \<longleftrightarrow> progress_runs p"
  shows "linked E p'"
proof -
  have gone: "remote_end E p' fd = None" by (simp add: t remote_end_def)
  have r: "remote_end E p' fd' = remote_end E p fd'" if "fd' \<noteq> fd" for fd'
    by (rule remote_end_cong) (use that t in simp_all)
  have "\<exists>a' rfd'. remote_end E p' fd' = Some (a', rfd') \<and> (rfd' = -1 \<or> holds (net p') a' rfd' c')"
    if m: "fd_map p' fd' = Some c'" for fd' c'
  proof -
    from m have fd': "fd' \<noteq> fd" "fd_map p fd' = Some c'" by (auto simp: t split: if_splits)
    obtain a' rfd' where e': "remote_end E p fd' = Some (a', rfd')"
      using linked_parts(3) [OF lk fd'(2)] by blast
    have "holds (net p') a' rfd' c'" if n1: "rfd' \<noteq> -1"
    proof (cases "(a, rfd) = (a', rfd')")
      case True
      with linked_parts(5) [OF lk fd'(1) e'] e n1 have "net p a = None" by auto
      then show ?thesis using True dead_stays_dead by (simp add: holds_def w)
    next
      case False
      show ?thesis unfolding w
        by (rule holds_request [OF linked_parts(1) [OF lk] linked_parts(4) [OF lk fd'(2) e' n1]])
          (use False in auto)
    qed
    with e' r [OF fd'(1)] show ?thesis by (simp add: t) blast
  qed
  moreover have "servers_ok (net p')" using linked_parts(1) [OF lk] by (simp add: w servers_ok_request)
  moreover have "rfd1 = -1 \<or> net p' a1 = None"
    if "fd1 \<noteq> fd2" "remote_end E p' fd1 = Some (a1, rfd1)" "remote_end E p' fd2 = Some (a1, rfd1)"
    for fd1 fd2 a1 rfd1
  proof -
    from that gone have "fd1 \<noteq> fd" "fd2 \<noteq> fd" by auto
    with that r linked_parts(5) [OF lk that(1)] dead_stays_dead show ?thesis
      by (fastforce simp: w)
  qed
  ultimately show ?thesis
    using linked_parts(2) [OF lk] unfolding linked_def by (simp add: t)
qed

lemma linked_effect:
  assumes lk: "linked E p" and "client_effect E env p q"
  shows "linked E q"
  using assms(2)
proof (cases rule: client_effect.cases)
  case eff_none
  then show ?thesis using linked_same_tables [of p q E] lk by (simp add: same_view_def)
next
  case (eff_use fd a rfd req rid)
  show ?thesis by (rule linked_request [OF lk eff_use(4,5)]) (use eff_use(3) in auto)
next
  case (eff_close fd a rfd rid)
  show ?thesis by (rule linked_drop [OF lk eff_close])
next
  case (eff_open a s c out data s' rid fd)
  show ?thesis
  proof (rule linked_add [OF lk eff_open(1) _ eff_open(3) _ eff_open(5,6)])
    show "fdtab (disk s) out = None \<or> out = -1" using run_handler_opens [OF eff_open(2)] by blast
    show "out = -1 \<or> holds (net q) a out c"
      unfolding eff_open(4) using run_handler_opens [OF eff_open(2)] by (auto simp: holds_def)
  qed (use eff_open(8) in blast)
qed

section \<open>The system\<close>

text \<open>
  The other clients, as one client must expect them: a request of theirs may be about any
  descriptor of a server but the open remote ends of this client.
\<close>

definition foreign :: "('o, string, cluster) cenv \<Rightarrow> ('o, cluster) proc \<Rightarrow> string \<Rightarrow> rpc_in \<Rightarrow> bool" where
  "foreign e p a req \<longleftrightarrow> (\<forall>fd rfd. remote_end e p fd = Some (a, rfd) \<longrightarrow> req_fd req = Some rfd \<longrightarrow>
     rfd = -1 \<or> net p a = None)"

inductive sys_step ::
  "('o, string, cluster) cenv \<Rightarrow> i64 \<Rightarrow> bool \<Rightarrow> ('o, cluster) proc \<Rightarrow> ('o, cluster) proc \<Rightarrow> bool"
  for e :: "('o, string, cluster) cenv" and dt :: i64 and lf :: bool where
  sys_call: "client_call (deployed e dt lf) p p' \<Longrightarrow> sys_step e dt lf p p'"
| sys_mover: "net p a = Some s \<Longrightarrow> mover_step s s' \<Longrightarrow>
    sys_step e dt lf p (p\<lparr>net := (net p)(a \<mapsto> s')\<rparr>)"
| sys_other: "foreign (deployed e dt lf) p a req \<Longrightarrow>
    sys_step e dt lf p (p\<lparr>net := request (fault_free dt lf) a rid req (net p)\<rparr>)"

definition sys_start :: "('o, cluster) proc \<Rightarrow> bool" where
  "sys_start p \<longleftrightarrow> fd_map p = (\<lambda>_. None) \<and> fd_redir_map p = (\<lambda>_. None) \<and> pending p = [] \<and>
     servers_ok (net p)"

lemma sys_start_linked: "sys_start p \<Longrightarrow> linked e p"
  by (auto simp: sys_start_def linked_def dest: remote_end_SomeD)

lemma linked_mover:
  assumes "linked e p" and "net p a = Some s" and "mover_step s s'"
  shows "linked e (p\<lparr>net := (net p)(a \<mapsto> s')\<rparr>)"
proof -
  let ?q = "p\<lparr>net := (net p)(a \<mapsto> s')\<rparr>"
  have r: "remote_end e ?q fd = remote_end e p fd" for fd by (rule remote_end_cong) simp_all
  have "servers_ok (net ?q)"
    using linked_parts(1) [OF assms(1)] server_ok_mover [OF assms(3)] assms(2)
    by (auto simp: servers_ok_def)
  moreover have "holds (net ?q) a' rfd c = holds (net p) a' rfd c" for a' rfd c
    using mover_step_descriptors [OF assms(3)] assms(2) by (auto simp: holds_def)
  moreover have "net ?q a' = None \<longleftrightarrow> net p a' = None" for a' using assms(2) by auto
  ultimately show ?thesis using assms(1) unfolding linked_def r by simp
qed

lemma linked_other:
  assumes "linked e p" and "foreign e p a req"
  shows "linked e (p\<lparr>net := request env a rid req (net p)\<rparr>)"
  by (rule linked_request [OF assms(1), where env = env and a = a and rid = rid and req = req])
    (use assms(2) in \<open>auto simp: same_tables_def req_fd_def foreign_def\<close>)

lemma linked_step: "linked (deployed e dt lf) p \<Longrightarrow> sys_step e dt lf p p' \<Longrightarrow> linked (deployed e dt lf) p'"
  by (erule sys_step.cases)
    (auto intro: linked_effect client_call_effect linked_mover linked_other)

interpretation system: inductive_invariant sys_start "sys_step e dt lf" "linked (deployed e dt lf)" for e dt lf
  by unfold_locales (auto intro: sys_start_linked linked_step)

section \<open>The two tables of the client\<close>

text \<open>A descriptor has an entry in \<open>fd_redir_map\<close> exactly when it is tracked in \<open>fd_map\<close>.\<close>

definition tables_agree :: "'x client_scheme \<Rightarrow> bool" where
  "tables_agree p \<longleftrightarrow> (\<forall>fd. fd_redir_map p fd = None \<longleftrightarrow> fd_map p fd = None)"

lemma tables_agree_effect: "client_effect e env p q \<Longrightarrow> tables_agree p \<Longrightarrow> tables_agree q"
  by (cases rule: client_effect.cases)
    (auto simp: tables_agree_def same_view_def same_tables_def)

interpretation tables: inductive_invariant sys_start "sys_step e dt lf"
  "\<lambda>p. linked (deployed e dt lf) p \<and> tables_agree p" for e dt lf
proof unfold_locales
  fix p :: "('a, cluster) proc"
  assume "sys_start p"
  then show "linked (deployed e dt lf) p \<and> tables_agree p"
    by (auto simp: tables_agree_def sys_start_def intro: sys_start_linked)
next
  fix p q :: "('a, cluster) proc"
  assume p: "linked (deployed e dt lf) p \<and> tables_agree p" and s: "sys_step e dt lf p q"
  from s have "tables_agree q"
  proof (cases rule: sys_step.cases)
    case sys_call
    with p show ?thesis using tables_agree_effect [OF client_call_effect] by blast
  qed (use p in \<open>simp_all add: tables_agree_def\<close>)
  with p linked_step [OF _ s] show "linked (deployed e dt lf) q \<and> tables_agree q" by blast
qed

section \<open>What a tracked descriptor shows\<close>

text \<open>The bytes are those of the file under the descriptor's recorded path.\<close>

lemma tracked_view_bytes:
  assumes "linked e p" and "tracked_view e p fd = Some (b, pos)"
  shows "\<exists>a rfd s c. remote_end e p fd = Some (a, rfd) \<and> net p a = Some s \<and> fd_map p fd = Some c \<and>
    fd_to_path s rfd = Some c \<and> (c = [] \<or> bytes_at (disk s) c = Some b)"
proof -
  from remote_view_SomeD [OF assms(2)] obtain a rfd where
    e: "remote_end e p fd = Some (a, rfd)" and v: "cluster_view (net p) a rfd = Some (b, pos)" by blast
  then obtain s where s: "net p a = Some s" "fd_view (disk s) rfd = Some (b, pos)"
    by (auto simp: cluster_view_def split: option.splits)
  obtain c where c: "fd_map p fd = Some c" using remote_end_SomeD [OF e] by blast
  have ok: "server_ok s" using linked_parts(1) [OF assms(1)] s(1) by (auto simp: servers_ok_def)
  have "rfd \<noteq> -1" using ok s(2) by (auto simp: server_ok_def fds_ok_def fd_view_def)
  then have "holds (net p) a rfd c" by (rule linked_parts(4) [OF assms(1) c e])
  with s(1) have path: "fd_to_path s rfd = Some c" by (simp add: holds_def)
  obtain f where f: "fdtab (disk s) rfd = Some f" "file_bytes (disk s) (of_path f) = Some b"
    using s(2) by (auto simp: fd_view_def split: option.splits)
  have "bytes_at (disk s) c = Some b" if "c \<noteq> []"
  proof -
    have "descriptor_ok (disk s) f c"
      using ok f(1) path that by (auto simp: server_ok_def descriptors_ok_def)
    then consider "of_path f = resolve (disk s) c" | "bytes_at (disk s) c = file_bytes (disk s) (of_path f)"
      by (auto simp: descriptor_ok_def)
    then show ?thesis
    proof cases
      case 1
      moreover have "nodes (disk s) (of_path f) \<noteq> None" using f(2) by (auto simp: file_bytes_def split: option.splits)
      ultimately show ?thesis using f(2) that by (simp add: bytes_at_def canonical_in_def Let_def)
    qed (simp add: f(2))
  qed
  with e s(1) c path show ?thesis by blast
qed

text \<open>
  In every state that a client and its servers can reach, by any sequence of the client's
  calls, steps of the servers' mover threads, requests of other clients on their own
  descriptors and actions the library does not see, a read of a tracked descriptor that the
  server holds returns the next bytes of the file the descriptor was opened for, as they are
  on the server's node.
\<close>

lemma reachable_reads_file:
  assumes "reach sys_start (sys_step e dt lf) p"
    and "tracked_view (deployed e dt lf) p fd = Some (b, pos)" and "n \<le> max_rw"
  shows "\<exists>p' a s c. hvac_read (deployed e dt lf) fd p n = Some (take n (drop pos b), p') \<and>
    fd_map p fd = Some c \<and> net p a = Some s \<and> (c = [] \<or> bytes_at (disk s) c = Some b)"
proof -
  have "linked (deployed e dt lf) p" using assms(1) by (rule system.reach_inv)
  from tracked_view_bytes [OF this assms(2)] hvac_file.rd_law [OF assms(2,3)] show ?thesis by blast
qed

text \<open>
  Two tracked descriptors of a client never share a descriptor on a server that runs, and
  the servers behind a reachable state all keep their invariant.
\<close>

lemma remote_descriptors_distinct:
  assumes "reach sys_start (sys_step e dt lf) p" and "fd \<noteq> fd'"
    and "remote_end (deployed e dt lf) p fd = Some (a, rfd)"
    and "remote_end (deployed e dt lf) p fd' = Some (a, rfd')" and "net p a = Some s" and "rfd \<noteq> -1"
  shows "rfd \<noteq> rfd' \<and> server_ok s \<and> fdtab (disk s) rfd \<noteq> None"
proof -
  have lk: "linked (deployed e dt lf) p" using assms(1) by (rule system.reach_inv)
  obtain c where "fd_map p fd = Some c" using remote_end_SomeD [OF assms(3)] by blast
  from linked_parts(4) [OF lk this assms(3,6)] linked_parts(1) [OF lk]
    linked_parts(5) [OF lk assms(2,3)] assms(4-6)
  show ?thesis by (auto simp: holds_def servers_ok_def)
qed

end
