(* ===== verification/Server_Log.thy ===== *)
theory Server_Log
  imports Server_Facts
begin

text \<open>
  What the handlers of \<open>Server\<close> write to the operation log, and what the data mover of a node
  does with the files that were closed.
\<close>

section \<open>The log of a request\<close>

definition request_log :: "rpc_env \<Rightarrow> rpc_in \<Rightarrow> 'a server_scheme \<Rightarrow> log_entry list" where
  "request_log env req s = (case req of
       Open_in i \<Rightarrow>
         (if map_has (path_cache_map s) (in_path i) then [\<lparr>operation = ''redirect'', time_ns = 0\<rparr>] else [])
           @ [\<lparr>operation = ''open'', time_ns = elapsed env\<rparr>]
     | Read_in i \<Rightarrow> [\<lparr>operation = (if in_offset i = -1 then ''read'' else ''pread''),
                      time_ns = elapsed env\<rparr>]
     | Close_in i \<Rightarrow> [\<lparr>operation = ''close'', time_ns = elapsed env\<rparr>]
     | Seek_in i \<Rightarrow> [])"

lemma log_text_update [simp]:
  "log_text (s\<lparr>disk := ps\<rparr>) = log_text s" "log_text (s\<lparr>fd_to_path := m\<rparr>) = log_text s"
  "log_text (s\<lparr>data_queue := q\<rparr>) = log_text s" "log_text (data_cond_signal s) = log_text s"
  "log_text (note_path fd s) = log_text s"
  by (simp_all add: log_text_def note_path_def)

lemma log_text_file_call:
  "log_text (snd (snd (server_file_call env i n s))) = log_text s
     @ log_line \<lparr>operation = (if in_offset i = -1 then ''read'' else ''pread''), time_ns = elapsed env\<rparr>"
  by (simp add: server_file_call_def case_prod_beta)

lemma log_text_read:
  assumes "hvac_rpc_handler env i s = Inr (out, data, s')" and "log_file_ok env"
  shows "log_text s' = log_text s
     @ log_line \<lparr>operation = (if in_offset i = -1 then ''read'' else ''pread''), time_ns = elapsed env\<rparr>"
proof -
  obtain r d s1 where call: "server_file_call env i (to_i64 (input_val i)) s = (r, d, s1)"
    by (cases "server_file_call env i (to_i64 (input_val i)) s")
  then have "s' = flush_if_full env (note_path (accessfd i) s1)"
    using assms(1) by (auto simp: hvac_rpc_handler_def Let_def hvac_result split: prod.splits)
  then show ?thesis
    using assms(2) log_text_file_call [of env i "to_i64 (input_val i)" s] by (simp add: call)
qed

lemma log_text_open:
  assumes "hvac_open_rpc_handler env i s = Inr (out, s')" and "log_file_ok env"
  shows "log_text s' = log_text s @ concat (map log_line (request_log env (Open_in i) s))"
  using assms
  by (cases "path_cache_map s (in_path i)")
    (auto simp: hvac_open_rpc_handler_def request_log_def map_has_def hvac_result Let_def
      split: prod.splits)

lemma log_text_close:
  assumes "hvac_close_rpc_handler env i s = Inr s'" and "log_file_ok env"
  shows "log_text s' = log_text s @ log_line \<lparr>operation = ''close'', time_ns = elapsed env\<rparr>"
  using assms
  by (auto simp: hvac_close_rpc_handler_def hvac_result Let_def split: prod.splits)

text \<open>A request appends exactly its own lines, whether or not the buffer was written out.\<close>

lemma log_text_request:
  assumes "run_handler env req s = Inr (out, data, s')" and "log_file_ok env"
  shows "log_text s' = log_text s @ concat (map log_line (request_log env req s))"
proof (cases req)
  case (Open_in i)
  with assms log_text_open show ?thesis
    by (fastforce simp: run_handler_def and_then_eq_Inr)
next
  case (Read_in i)
  with assms log_text_read show ?thesis
    by (fastforce simp: run_handler_def and_then_eq_Inr request_log_def)
next
  case (Seek_in i)
  with assms show ?thesis
    by (auto simp: run_handler_def and_then_eq_Inr request_log_def hvac_seek_rpc_handler_def
        hvac_result split: prod.splits)
next
  case (Close_in i)
  with assms log_text_close show ?thesis
    by (fastforce simp: run_handler_def and_then_eq_Inr request_log_def)
qed

section \<open>Requests in sequence\<close>

text \<open>A daemon serving a list of requests, each with its own circumstances.\<close>

fun serve :: "(rpc_env \<times> rpc_in) list \<Rightarrow> 'a server_scheme \<Rightarrow> ('a server_scheme \<times> log_entry list) outcome" where
  "serve [] s = Inr (s, [])"
| "serve ((env, req) # reqs) s = and_then (run_handler env req s) (\<lambda>(_, _, s').
     and_then (serve reqs s') (\<lambda>(t, es). Inr (t, request_log env req s @ es)))"

lemma serve_log:
  "serve reqs s = Inr (t, es) \<Longrightarrow> list_all (\<lambda>(env, _). log_file_ok env) reqs \<Longrightarrow>
   log_text t = log_text s @ concat (map log_line es)"
proof (induction reqs arbitrary: s es)
  case Nil
  then show ?case by simp
next
  case (Cons a reqs)
  obtain env req where a: "a = (env, req)" by (cases a)
  with Cons.prems obtain out data s' es' where
    r: "run_handler env req s = Inr (out, data, s')" "serve reqs s' = Inr (t, es')"
      "es = request_log env req s @ es'"
    by (auto simp: and_then_eq_Inr)
  with Cons.IH [OF r(2)] Cons.prems(2) log_text_request [OF r(1)] a show ?case by simp
qed

section \<open>The mover\<close>

text \<open>A copy that the system accepts is recorded, and has the bytes of the original.\<close>

lemma mover_copy_one_caches:
  assumes "local_list s = p # ps" and "bytes_at (disk s) p = Some b"
    and "openable (disk s) (resolve (disk s) p)"
    and "nodes (disk s) (resolve (disk s) d) = None"
    and "nodes (disk s) (resolve (disk s) (d @ ''/'' @ filename p)) = None"
    and "resolve (disk s) d \<noteq> resolve (disk s) (d @ ''/'' @ filename p)"
  shows "path_cache_map (mover_copy_one (Some d) True s) p = Some (d @ ''/'' @ filename p) \<and>
    bytes_at (disk (mover_copy_one (Some d) True s)) (d @ ''/'' @ filename p) = Some b \<and>
    local_list (mover_copy_one (Some d) True s) = ps"
proof -
  let ?s1 = "s\<lparr>disk := fs_mkdir (disk s) d\<rparr>"
  let ?q = "d @ ''/'' @ filename p"
  have p: "bytes_at (disk ?s1) p = Some b"
    using assms(2,4) by (simp add: bytes_at_mkdir)
  then obtain c where c: "canonical_in (disk ?s1) p = Some c" "file_bytes (disk ?s1) c = Some b"
    by (auto simp: bytes_at_def split: option.splits)
  then have "c = resolve (disk s) p"
    by (simp add: canonical_in_Some fs_mkdir_def)
  with c assms have copy: "fs_copy (disk ?s1) True p ?q
      = Some ((disk ?s1)\<lparr>nodes := (nodes (disk ?s1))(resolve (disk s) ?q \<mapsto> Reg b)\<rparr>)"
    by (simp add: fs_copy_def) (simp add: fs_mkdir_def)
  have q: "bytes_at ((disk ?s1)\<lparr>nodes := (nodes (disk ?s1))(resolve (disk s) ?q \<mapsto> Reg b)\<rparr>) ?q = Some b"
    by (simp add: bytes_at_def canonical_in_def file_bytes_def fs_mkdir_def)
  show ?thesis
    using copy q by (simp add: mover_copy_one_def Let_def assms(1))
qed

text \<open>
  The queue after a wake: everything closed so far, in the order it was closed, is in the
  thread's own list, and the queue is empty.
\<close>

lemma mover_wake_takes_all:
  "mover s = Mover_woken \<Longrightarrow>
   local_list (mover_wake s) = local_list s @ data_queue s \<and> data_queue (mover_wake s) = []"
  by (simp add: mover_wake_def drain_append)

text \<open>A close that finds the mover copying wakes nobody, and its file stays in the queue.\<close>

lemma mover_copy_last_waits:
  assumes "local_list s = [p]"
  shows "mover (mover_copy_one mk ok s) = Mover_looping \<and>
    data_queue (mover_copy_one mk ok s) = data_queue s"
  using assms by (simp add: mover_copy_one_def Let_def split: option.split)

section \<open>A whole queue\<close>

lemma mover_copy_one_frame [simp]:
  "resolve (disk (mover_copy_one mk ok s)) = resolve (disk s)"
  "openable (disk (mover_copy_one mk ok s)) = openable (disk s)"
  "registry (mover_copy_one mk ok s) = registry s"
  by (auto simp: mover_copy_one_def Let_def fs_mkdir_def split: list.split option.split
      dest!: fs_copy_SomeD)

lemma mover_wake_registry [simp]: "registry (mover_wake s) = registry s"
  by (simp add: mover_wake_def drain_append)

lemma mover_copy_one_keeps_bytes:
  assumes "fresh_for (disk s) mk (hd (local_list s))" and "bytes_at (disk s) p = Some b"
  shows "bytes_at (disk (mover_copy_one mk ok s)) p = Some b"
proof -
  obtain ps where ps: "ps = disk s \<or> (\<exists>c n. nodes (disk s) c = None \<and> ps = (disk s)\<lparr>nodes := (nodes (disk s))(c \<mapsto> n)\<rparr>)"
    and ps': "disk (mover_copy_one mk ok s) = ps \<or> (\<exists>c n. nodes ps c = None \<and>
       disk (mover_copy_one mk ok s) = ps\<lparr>nodes := (nodes ps)(c \<mapsto> n)\<rparr>)"
    using mover_copy_one_disk [OF assms(1)] by blast
  have "bytes_at ps p = Some b"
    using ps assms(2) by (auto intro: bytes_at_mono [where x = "''x''"])
  with ps' show ?thesis by (auto intro: bytes_at_mono [where x = "''x''"])
qed

lemma mover_copy_one_nodes:
  assumes "nodes (disk s) x = None" and "x \<noteq> resolve (disk s) d"
    and "x \<noteq> resolve (disk s) (d @ ''/'' @ filename (hd (local_list s)))"
  shows "nodes (disk (mover_copy_one (Some d) ok s)) x = None"
  using assms
  by (auto simp: mover_copy_one_def Let_def fs_mkdir_def split: list.split option.split dest!: fs_copy_SomeD)

lemma mover_copy_one_grows:
  "path_cache_map s p \<noteq> None \<Longrightarrow> path_cache_map (mover_copy_one mk ok s) p \<noteq> None"
  by (auto simp: mover_copy_one_def Let_def split: list.split option.split)

text \<open>
  The names that the mover creates for the files \<open>l\<close> in the directories \<open>ds\<close>: a directory and
  a copy for each. They are new when none of them is in use and no two are the same.
\<close>

definition new_names :: "posix \<Rightarrow> string list \<Rightarrow> path list \<Rightarrow> path list" where
  "new_names ps ds l = concat (map (\<lambda>(d, p). [resolve ps d, resolve ps (d @ ''/'' @ filename p)]) (zip ds l))"

definition names_new :: "posix \<Rightarrow> string list \<Rightarrow> path list \<Rightarrow> bool" where
  "names_new ps ds l \<longleftrightarrow> distinct (new_names ps ds l) \<and> (\<forall>x \<in> set (new_names ps ds l). nodes ps x = None)"

lemma names_new_Cons:
  "names_new ps (d # ds) (p # l) \<longleftrightarrow> nodes ps (resolve ps d) = None \<and>
     nodes ps (resolve ps (d @ ''/'' @ filename p)) = None \<and>
     resolve ps d \<noteq> resolve ps (d @ ''/'' @ filename p) \<and> resolve ps d \<notin> set (new_names ps ds l) \<and>
     resolve ps (d @ ''/'' @ filename p) \<notin> set (new_names ps ds l) \<and> names_new ps ds l"
  by (auto simp: names_new_def new_names_def)

lemma mover_copy_all_caches:
  assumes "cache_coherent s" and "mover_ok s" and "length ds = length (local_list s)"
    and "names_new (disk s) ds (local_list s)"
    and "\<forall>p \<in> set (local_list s). bytes_at (disk s) p \<noteq> None \<and> openable (disk s) (resolve (disk s) p)"
  defines "t \<equiv> mover_copy_all (map (\<lambda>d. (Some d, True)) ds) s"
  shows "cache_coherent t \<and> local_list t = [] \<and> (\<forall>p \<in> set (local_list s). path_cache_map t p \<noteq> None) \<and>
    (\<forall>p. path_cache_map s p \<noteq> None \<longrightarrow> path_cache_map t p \<noteq> None) \<and>
    (\<forall>p b. bytes_at (disk s) p = Some b \<longrightarrow> bytes_at (disk t) p = Some b)"
  using assms(1-5) unfolding t_def
proof (induction ds arbitrary: s)
  case Nil
  then show ?case by simp
next
  case (Cons d ds)
  then obtain p l where l: "local_list s = p # l" by (cases "local_list s") auto
  define s' where "s' = mover_copy_one (Some d) True s"
  have m: "mover s = Mover_copying" using Cons.prems(2) l by (simp add: mover_ok_def)
  note new = Cons.prems(4) [unfolded l names_new_Cons]
  have fresh: "fresh_for (disk s) (Some d) (hd (local_list s))" using new by (simp add: fresh_for_def)
  obtain b where "bytes_at (disk s) p = Some b" using Cons.prems(5) l by auto
  then have copy: "path_cache_map s' p \<noteq> None" "local_list s' = l"
    using mover_copy_one_caches [OF l, of b d] Cons.prems(5) l new by (auto simp: s'_def)
  have same: "resolve (disk s') = resolve (disk s)" "openable (disk s') = openable (disk s)"
    by (simp_all add: s'_def)
  have bytes: "bytes_at (disk s) q = Some v \<Longrightarrow> bytes_at (disk s') q = Some v" for q v
    unfolding s'_def by (rule mover_copy_one_keeps_bytes [OF fresh])
  have names: "new_names (disk s') ds l = new_names (disk s) ds l"
    by (simp add: new_names_def same)
  have "nodes (disk s') x = None" if "x \<in> set (new_names (disk s) ds l)" for x
    unfolding s'_def by (rule mover_copy_one_nodes) (use that new in \<open>auto simp: names_new_def l\<close>)
  then have "names_new (disk s') ds (local_list s')"
    using new by (simp add: names_new_def names copy(2))
  moreover have "\<forall>q \<in> set (local_list s'). bytes_at (disk s') q \<noteq> None \<and> openable (disk s') (resolve (disk s') q)"
    using Cons.prems(5) l bytes by (fastforce simp: copy(2) same)
  moreover have "cache_coherent s'" "mover_ok s'"
    unfolding s'_def
    using mover_copy_one_coherent [OF Cons.prems(1) fresh] mover_copy_one_ok [OF m Cons.prems(2)] by simp_all
  moreover have "length ds = length (local_list s')" using Cons.prems(3) l by (simp add: copy(2))
  ultimately have IH: "cache_coherent (mover_copy_all (map (\<lambda>d. (Some d, True)) ds) s') \<and>
      local_list (mover_copy_all (map (\<lambda>d. (Some d, True)) ds) s') = [] \<and>
      (\<forall>p \<in> set l. path_cache_map (mover_copy_all (map (\<lambda>d. (Some d, True)) ds) s') p \<noteq> None) \<and>
      (\<forall>p. path_cache_map s' p \<noteq> None \<longrightarrow>
         path_cache_map (mover_copy_all (map (\<lambda>d. (Some d, True)) ds) s') p \<noteq> None) \<and>
      (\<forall>p b. bytes_at (disk s') p = Some b \<longrightarrow>
         bytes_at (disk (mover_copy_all (map (\<lambda>d. (Some d, True)) ds) s')) p = Some b)"
    using Cons.IH [of s'] unfolding copy(2) by blast
  then show ?case
    using copy(1) bytes mover_copy_one_grows [of s _ "Some d" True] m l
    by (auto simp: s'_def [symmetric])
qed

end
