(* ===== verification/Sessions.thy ===== *)
theory Sessions
  imports System Server_Log
begin

text \<open>
  What lies between the open and the close of a file: reads change nothing of a server but
  the position of the descriptor and the log, and nothing of the client but the world behind
  it. From this follows the life of a cached file: a first session that reads it and closes
  it, the mover's copy, and a second session that is served from the copy.
\<close>

section \<open>What reads leave alone\<close>

definition quiet :: "'a server_scheme \<Rightarrow> 'a server_scheme \<Rightarrow> bool" where
  "quiet s s' \<longleftrightarrow> same_files (disk s) (disk s') \<and> openable (disk s') = openable (disk s) \<and>
     fd_limit (disk s') = fd_limit (disk s) \<and>
     (\<forall>fd. fdtab (disk s') fd = None \<longleftrightarrow> fdtab (disk s) fd = None) \<and>
     (\<forall>fd c. fd_to_path s fd = Some c \<longrightarrow> fd_to_path s' fd = Some c) \<and>
     registry s' = registry s \<and> path_cache_map s' = path_cache_map s \<and>
     data_queue s' = data_queue s \<and> mover s' = mover s \<and> local_list s' = local_list s \<and>
     (server_ok s \<longrightarrow> server_ok s')"

lemma quiet_refl [simp]: "quiet s s"
  by (simp add: quiet_def same_files_def)

lemma quiet_trans: "quiet s t \<Longrightarrow> quiet t u \<Longrightarrow> quiet s u"
  by (fastforce simp: quiet_def same_files_def)

lemma posix_read_quiet:
  "openable (snd (snd (posix_read ps fd n))) = openable ps"
  "fd_limit (snd (snd (posix_read ps fd n))) = fd_limit ps"
  by (simp_all add: posix_read_def Let_def split: option.split)

lemma read_quiet:
  assumes "run_handler env (Read_in i) s = Inr (out, data, s')"
  shows "quiet s s'"
proof -
  define s1 where "s1 = snd (snd (server_file_call env i (to_i64 (input_val i)) s))"
  have s': "s' = flush_if_full env (note_path (accessfd i) s1)"
    using assms by (auto simp: run_handler_def hvac_rpc_handler_def Let_def s1_def
        hvac_result split: prod.splits)
  have s1: "disk s1 = disk s \<or> (\<exists>fd n. disk s1 = snd (snd (posix_read (disk s) fd n)))"
    "fd_to_path s1 = fd_to_path s" "registry s1 = registry s" "path_cache_map s1 = path_cache_map s"
    "data_queue s1 = data_queue s" "mover s1 = mover s" "local_list s1 = local_list s"
    by (auto simp: s1_def server_file_call_def case_prod_beta)
  have "same_files (disk s) (disk s1) \<and> openable (disk s1) = openable (disk s) \<and>
      fd_limit (disk s1) = fd_limit (disk s) \<and> (\<forall>fd. fdtab (disk s1) fd = None \<longleftrightarrow> fdtab (disk s) fd = None)"
    using s1(1)
  proof
    assume "disk s1 = disk s"
    then show ?thesis by (simp add: same_files_def)
  next
    assume "\<exists>fd n. disk s1 = snd (snd (posix_read (disk s) fd n))"
    then show ?thesis using same_files_calls(1) posix_read_quiet fdtab_calls(1) by metis
  qed
  moreover have "fd_to_path s fd = Some c \<Longrightarrow> fd_to_path s' fd = Some c" for fd c
    using s1(2) by (auto simp: s' note_path_def snd_map_index_eq)
  ultimately show ?thesis using s1 server_ok_handler [OF _ assms] by (simp add: quiet_def s')
qed

section \<open>A reading client\<close>

definition only_reads :: "string \<Rightarrow> ('o, cluster) proc \<Rightarrow> ('o, cluster) proc \<Rightarrow> bool" where
  "only_reads a p p' \<longleftrightarrow> same_ids p p' \<and> fd_map p' = fd_map p \<and> fd_redir_map p' = fd_redir_map p \<and>
     address_cache p' = address_cache p \<and> pending p' = pending p \<and> os p' = os p \<and>
     (\<not> redirect_off p \<longrightarrow> \<not> redirect_off p') \<and> (\<exists>s s'. net p a = Some s \<and> net p' = (net p)(a \<mapsto> s') \<and> quiet s s')"

lemma only_reads_refl: "net p a = Some s \<Longrightarrow> only_reads a p p"
  by (auto simp: only_reads_def map_upd_triv intro!: exI [of _ s])

lemma only_reads_trans: "only_reads a p q \<Longrightarrow> only_reads a q r \<Longrightarrow> only_reads a p r"
  unfolding only_reads_def by (fastforce intro: same_ids_trans quiet_trans exI)

lemma wrap_read_only:
  assumes "tracked_view (deployed e dt lf) p fd = Some (b, pos)"
    and "remote_end (deployed e dt lf) p fd = Some (a, rfd)" and "n \<le> max_rw"
  defines "d \<equiv> take n (drop pos b)"
  shows "\<exists>p'. wrap_read (deployed e dt lf) fd (Some mem) (of_nat n) p
      = Inr (of_nat (length d), Some (overlay d mem), p') \<and> only_reads a p p'"
proof -
  have r: "cluster_serves (net p) a (hvac_client_rpc_id p) K_read"
    "cluster_view (net p) a rfd = Some (b, pos)"
    using remote_view_SomeD [OF assms(1)] assms(2) by auto
  have n31: "n < 2 ^ 31" using assms(3) by (simp add: max_rw_def)
  have w: "d = file_window b pos (of_nat n)" unfolding d_def using file_window_small [OF assms(3)] by simp
  have d31: "length d < 2 ^ 31" unfolding w by (rule length_file_window_small)
  obtain net' where f: "cluster_forward (fault_free dt lf) a (hvac_client_rpc_id p)
      (Read_in \<lparr>input_val = to_int (of_nat n), bulk_handle = of_nat n, accessfd = rfd, in_offset = -1\<rparr>)
      (net p) = (Reply 0 (to_int (of_nat (length d))) d, net')"
    using cluster.read_law [OF r, of "to_int (of_nat n)"] n31
    by (auto simp: sint_small to_i64_to_int_of_nat w)
  from cluster_forward_reply [OF f] obtain s s' where
    s: "net p a = Some s" "run_handler (fault_free dt lf) (Read_in \<lparr>input_val = to_int (of_nat n),
        bulk_handle = of_nat n, accessfd = rfd, in_offset = -1\<rparr>) s = Inr (Some (to_int (of_nat (length d))), d, s')"
      "net' = (net p)(a \<mapsto> s')" by blast
  have "wrap_read (deployed e dt lf) fd (Some mem) (of_nat n) p = Inr (of_nat (length d), Some (overlay d mem),
      after_read (of_nat (length d)) net' p)"
    using wrap_read_reply [OF assms(2) _ _ _ to_int_not_minus_one [OF d31], of "of_nat n" d net' mem] f d31
    by (simp add: to_i64_to_int_of_nat)
  moreover have "only_reads a p (after_read (of_nat (length d)) net' p)"
    using s read_quiet [OF s(2)] by (auto simp: only_reads_def same_ids_def after_read_def redirect_off_def)
  ultimately show ?thesis by blast
qed

lemma hvac_read_only:
  assumes "tracked_view (deployed e dt lf) p fd = Some (b, pos)"
    and "remote_end (deployed e dt lf) p fd = Some (a, rfd)" and "n \<le> max_rw"
    and "hvac_read (deployed e dt lf) fd p n = Some (d, p')"
  shows "only_reads a p p'"
  using wrap_read_only [OF assms(1-3), of "replicate n 0"] assms(4)
  by (auto simp: hvac_read_def split: if_splits)

lemma read_to_end_only:
  assumes "tracked_view (deployed e dt lf) p fd = Some (b, pos)"
    and "remote_end (deployed e dt lf) p fd = Some (a, rfd)" and "k \<le> max_rw"
    and "read_to_end (hvac_read (deployed e dt lf) fd) k fuel p = Some (out, p')"
  shows "only_reads a p p'"
  using assms
proof (induction fuel arbitrary: p pos out)
  case 0
  then show ?case by simp
next
  case (Suc fuel)
  let ?E = "deployed e dt lf"
  obtain d p1 where d: "hvac_read ?E fd p k = Some (d, p1)" "tracked_view ?E p1 fd = Some (b, pos + length d)"
    using hvac_file.rd_law [OF Suc.prems(1,3)] by blast
  have one: "only_reads a p p1" by (rule hvac_read_only [OF Suc.prems(1,2,3) d(1)])
  have "remote_end ?E p1 fd = remote_end ?E p fd"
    by (rule remote_end_cong) (use one in \<open>auto simp: only_reads_def same_ids_def\<close>)
  with Suc.prems(2) have "remote_end ?E p1 fd = Some (a, rfd)" by simp
  with Suc.IH [OF d(2) _ Suc.prems(3)] Suc.prems(4) d(1) one show ?case
    by (cases "d = []") (auto intro: only_reads_trans)
qed

section \<open>The copy\<close>

text \<open>A server whose mover was woken for the one file \<open>c\<close>, after the copy into a new directory.\<close>

lemma copy_after_wake:
  fixes s :: server
  assumes "server_ok s" and "mover s = Mover_woken" and "data_queue s = [c]"
    and "bytes_at (disk s) c = Some b" and "openable (disk s) (resolve (disk s) c)"
    and "nodes (disk s) (resolve (disk s) d) = None"
    and "nodes (disk s) (resolve (disk s) (d @ ''/'' @ filename c)) = None"
    and "resolve (disk s) d \<noteq> resolve (disk s) (d @ ''/'' @ filename c)"
  defines "t \<equiv> mover_copy_one (Some d) True (mover_wake s)"
  shows "server_ok t \<and> redirected t c = d @ ''/'' @ filename c \<and>
    bytes_at (disk t) (d @ ''/'' @ filename c) = Some b \<and> bytes_at (disk t) c = Some b \<and>
    mover t = Mover_looping \<and> data_queue t = []"
proof -
  have l: "local_list s = []" using assms(1,2) by (simp add: server_ok_def mover_ok_def)
  then have w: "local_list (mover_wake s) = [c]" "data_queue (mover_wake s) = []"
    using mover_wake_takes_all [OF assms(2)] assms(3) by simp_all
  have m: "mover (mover_wake s) = Mover_copying"
    using assms(2,3) l by (simp add: mover_wake_def)
  have ok: "server_ok (mover_wake s)"
    using server_ok_mover [OF step_wake] assms(1,2) by blast
  have copy: "path_cache_map t c = Some (d @ ''/'' @ filename c)"
    "bytes_at (disk t) (d @ ''/'' @ filename c) = Some b"
    using mover_copy_one_caches [OF w(1), of b d] assms(4-8) by (simp_all add: t_def)
  have "mover_step (mover_wake s) t"
    unfolding t_def by (rule step_copy) (use m assms(6) in \<open>simp_all add: fresh_for_def\<close>)
  from server_ok_mover [OF this ok] have "server_ok t" .
  moreover from this copy have "bytes_at (disk t) c = Some b"
    by (fastforce simp: server_ok_def cache_coherent_def)
  ultimately show ?thesis
    using copy mover_copy_last_waits [OF w(1), of "Some d" True] w(2)
    by (simp add: redirected_def t_def)
qed

section \<open>A whole session\<close>

text \<open>What a session on the path \<open>c\<close> leaves of its server: the file in the mover's queue, unless
  it is cached, and otherwise the log.\<close>

definition served :: "path \<Rightarrow> server \<Rightarrow> server \<Rightarrow> bool" where
  "served c s s' \<longleftrightarrow> server_ok s' \<and> nodes (disk s') = nodes (disk s) \<and> resolve (disk s') = resolve (disk s) \<and>
     openable (disk s') = openable (disk s) \<and> alloc_fd (disk s') = alloc_fd (disk s) \<and>
     registry s' = registry s \<and> path_cache_map s' = path_cache_map s \<and>
     data_queue s' = data_queue s @ (if path_cache_map s c = None then [c] else []) \<and>
     mover s' = (if path_cache_map s c = None \<and> mover s = Mover_waiting then Mover_woken else mover s)"

lemma alloc_fd_cong:
  assumes "\<And>fd. fdtab ps' fd = None \<longleftrightarrow> fdtab ps fd = None" and "fd_limit ps' = fd_limit ps"
  shows "alloc_fd ps' = alloc_fd ps"
  using assms by (simp add: alloc_fd_def)

lemma open_read_close_served:
  assumes "opened_by c rfd ps s s1" and "quiet s1 s2" and "server_ok s3"
    and "posix_open (disk s) q = (rfd, ps)" and "rfd \<noteq> -1"
    and "disk s3 = (disk s2)\<lparr>fdtab := (fdtab (disk s2))(rfd := None)\<rparr>" and "registry s3 = registry s2"
    and "path_cache_map s3 = path_cache_map s2"
    and "data_queue s3 = data_queue s2 @ (if path_cache_map s2 c = None then [c] else [])"
    and "mover s3 = (if path_cache_map s2 c = None \<and> mover s2 = Mover_waiting then Mover_woken else mover s2)"
  shows "served c s s3"
proof -
  obtain f where f: "ps = (disk s)\<lparr>fdtab := (fdtab (disk s))(rfd \<mapsto> f)\<rparr>" "fdtab (disk s) rfd = None"
    using assms(4,5) by (cases rule: posix_open_cases [of "disk s" q]) (auto dest: alloc_fd_free)
  have "alloc_fd (disk s3) = alloc_fd (disk s)"
    by (rule alloc_fd_cong) (use assms(1,2,6) f in \<open>auto simp: opened_by_def quiet_def\<close>)
  then show ?thesis
    using assms f by (simp add: served_def opened_by_def quiet_def same_files_def)
qed

text \<open>The client's side: ready for the next open, with the server's address remembered.\<close>

definition knows :: "('o, 'a, 'w) cenv \<Rightarrow> ('o, 'w) proc \<Rightarrow> path \<Rightarrow> 'a \<Rightarrow> bool" where
  "knows e p c a \<longleftrightarrow> (\<exists>str. address_cache p (host_index e p c) = Some str \<and> hg_lookup e str = Some a)"

text \<open>The open of a session, and its close, for whatever reads are done in between.\<close>

lemma session_open:
  fixes e :: "('o, string, cluster) cenv" and p :: "('o, cluster) proc" and dt :: i64 and lf :: bool
  defines "E \<equiv> deployed e dt lf"
  assumes ready: "open_ready E p w path c a s" and flags: "readable_flags flags"
    and real: "real_open E path flags (if flags AND O_CREAT \<noteq> 0 then md else 0) (os p) = (fd, w)" "fd \<noteq> -1"
      "real_close E fd w = (ret, w1)"
    and server: "server_ok s" "registry s (hvac_client_rpc_id p) = Some K_read"
      "registry s (hvac_client_seek_id p) = Some K_seek" "registry s (hvac_client_close_id p) = Some K_close"
    and data: "bytes_at (disk s) c = Some b" "posix_open (disk s) (redirected s c) = (rfd, ps)" "rfd \<noteq> -1"
  shows "\<exists>p1. wrap_open E path flags md p = Inr (fd, p1) \<and> tracked_view E p1 fd = Some (b, 0) \<and>
    remote_end E p1 fd = Some (a, rfd) \<and> (\<forall>p2. only_reads a p1 p2 \<longrightarrow>
      (\<exists>p3 s3. wrap_close E fd p2 = Inr (ret, p3) \<and> os p3 = w1 \<and> net p3 a = Some s3 \<and> served c s s3 \<and>
        same_ids p p3 \<and> pending p3 = [] \<and> \<not> redirect_off p3 \<and> knows E p3 c a))"
proof -
  obtain p1 s1 where p1: "wrap_open E path flags md p = Inr (fd, p1)" "tracked_view E p1 fd = Some (b, 0)"
    "fd_map p1 fd = Some c" "remote_end E p1 fd = Some (a, rfd)" "os p1 = w" "same_ids p p1"
    "net p1 = (net p)(a \<mapsto> s1)" "fd_to_path s1 rfd = Some c" "fdtab (disk s1) rfd \<noteq> None"
    "registry s1 = registry s" "opened_by c rfd ps s s1" "\<not> redirect_off p1"
    using wrap_open_tracked [OF ready [unfolded E_def] flags real(1,2)[unfolded E_def] server(1,2,3) data]
    unfolding E_def by blast
  have "\<exists>p3 s3. wrap_close E fd p2 = Inr (ret, p3) \<and> os p3 = w1 \<and> net p3 a = Some s3 \<and> served c s s3 \<and>
      same_ids p p3 \<and> pending p3 = [] \<and> \<not> redirect_off p3 \<and> knows E p3 c a"
    if only: "only_reads a p1 p2" for p2
  proof -
    from only obtain s2 where s2: "net p2 = (net p1)(a \<mapsto> s2)" "quiet s1 s2"
      using p1(7) by (auto simp: only_reads_def)
    have e2: "remote_end E p2 fd = Some (a, rfd)"
      using p1(4) only remote_end_cong [of p2 p1 fd E] by (simp add: only_reads_def same_ids_def)
    have off: "\<not> redirect_off p2" using p1(12) only by (simp add: only_reads_def)
    have held: "net p2 a = Some s2" "registry s2 (hvac_client_close_id p2) = Some K_close"
      "fdtab (disk s2) rfd \<noteq> None" "fd_to_path s2 rfd = Some c" "real_close E fd (os p2) = (ret, w1)"
      "server_ok s2"
      using s2 only p1 server(4) real(3)
      by (auto simp: quiet_def only_reads_def same_ids_def opened_by_def)
    obtain p3 s3 where p3: "wrap_close E fd p2 = Inr (ret, p3)" "os p3 = w1" "net p3 = (net p2)(a \<mapsto> s3)"
      "path_cache_map s3 = path_cache_map s2"
      "data_queue s3 = data_queue s2 @ (if path_cache_map s2 c = None then [c] else [])"
      "mover s3 = (if path_cache_map s2 c = None \<and> mover s2 = Mover_waiting then Mover_woken else mover s2)"
      "disk s3 = (disk s2)\<lparr>fdtab := (fdtab (disk s2))(rfd := None)\<rparr>" "registry s3 = registry s2"
      "server_ok s2 \<longrightarrow> server_ok s3" "same_ids p2 p3" "pending p3 = pending p2"
      "address_cache p3 = address_cache p2" "\<not> redirect_off p3"
      using wrap_close_tracked [OF off e2 [unfolded E_def] held(1-4) held(5) [unfolded E_def]]
      unfolding E_def by blast
    have "served c s s3"
      using open_read_close_served [OF p1(11) s2(2) _ data(2,3) p3(7,8,4,5,6)] p3(9) held(6) by blast
    moreover have "knows E p3 c a"
      using remote_end_SomeD [OF e2] p3(10,12) only p1(3)
      by (auto simp: knows_def only_reads_def same_ids_def host_index_def)
    moreover have "same_ids p p3" "pending p3 = []"
      using p1(6) only p3(10,11) remote_end_SomeD [OF e2] by (auto simp: only_reads_def intro: same_ids_trans)
    ultimately show ?thesis using p3(1-3,13) by (intro exI [of _ p3] exI [of _ s3]) simp
  qed
  with p1(1,2,4) show ?thesis by blast
qed

lemma session_served:
  fixes e :: "('o, string, cluster) cenv" and p :: "('o, cluster) proc" and dt :: i64 and lf :: bool
  defines "E \<equiv> deployed e dt lf"
  assumes ready: "open_ready E p w path c a s" and flags: "readable_flags flags"
    and real: "real_open E path flags (if flags AND O_CREAT \<noteq> 0 then md else 0) (os p) = (fd, w)" "fd \<noteq> -1"
      "real_close E fd w = (ret, w1)"
    and server: "server_ok s" "registry s (hvac_client_rpc_id p) = Some K_read"
      "registry s (hvac_client_seek_id p) = Some K_seek" "registry s (hvac_client_close_id p) = Some K_close"
    and data: "bytes_at (disk s) c = Some b" "posix_open (disk s) (redirected s c) = (rfd, ps)" "rfd \<noteq> -1"
    and k: "0 < k" "k \<le> max_rw" "length b < fuel"
  shows "\<exists>p1 p2 p3 s3. wrap_open E path flags md p = Inr (fd, p1) \<and>
    read_to_end (hvac_read E fd) k fuel p1 = Some (b, p2) \<and> wrap_close E fd p2 = Inr (ret, p3) \<and>
    os p3 = w1 \<and> net p3 a = Some s3 \<and> served c s s3 \<and> same_ids p p3 \<and> pending p3 = [] \<and>
    \<not> redirect_off p3 \<and> knows E p3 c a"
proof -
  from session_open [OF ready [unfolded E_def] flags real [unfolded E_def] server data]
  obtain p1 where p1: "wrap_open E path flags md p = Inr (fd, p1)" "tracked_view E p1 fd = Some (b, 0)"
    "remote_end E p1 fd = Some (a, rfd)" and close: "\<forall>p2. only_reads a p1 p2 \<longrightarrow>
      (\<exists>p3 s3. wrap_close E fd p2 = Inr (ret, p3) \<and> os p3 = w1 \<and> net p3 a = Some s3 \<and> served c s s3 \<and>
        same_ids p p3 \<and> pending p3 = [] \<and> \<not> redirect_off p3 \<and> knows E p3 c a)"
    unfolding E_def by blast
  obtain p2 where p2: "read_to_end (hvac_read E fd) k fuel p1 = Some (b, p2)"
    using hvac_file.read_to_end_law [of e dt lf p1 fd b 0 k fuel] p1(2) k unfolding E_def by auto
  have "only_reads a p1 p2"
    using read_to_end_only p1(2,3) k(2) p2 unfolding E_def by blast
  with close p1(1) p2 show ?thesis by blast
qed

text \<open>Whoever knows the server's address is ready to open on it, whatever the server did since.\<close>

lemma knows_open_ready:
  assumes "knows E p c a" and "\<not> redirect_off p" and "pending p = []" and "g_mercury_init p"
    and "g_hvac_server_count p \<noteq> 0" and "in_data_dir E w (hvac_data_dir p) path c"
    and "registry s (hvac_client_open_id p) = Some K_open" and "progress_runs p"
  shows "open_ready E (p\<lparr>net := (net p)(a \<mapsto> s)\<rparr>) w path c a s"
proof -
  obtain str where "address_cache p (host_index E p c) = Some str" "hg_lookup E str = Some a"
    using assms(1) by (auto simp: knows_def)
  then have "server_of E (p\<lparr>net := (net p)(a \<mapsto> s), os := w\<rparr>) c = Some a"
    by (simp add: server_of_def host_index_def hvac_client_comm_lookup_addr_def)
  with assms(2-8) show ?thesis by (simp add: open_ready_def redirect_off_def)
qed

section \<open>The second session\<close>

lemma bytes_at_canonical:
  "bytes_at ps q = Some b \<Longrightarrow> canonical_in ps q = Some (resolve ps q)"
  by (auto simp: bytes_at_def canonical_in_def Let_def split: option.splits if_splits)

text \<open>The server's open of a cached file takes the copy.\<close>

lemma open_takes_copy:
  assumes "redirected t c = q" and "bytes_at (disk t) q = Some b" and "openable (disk t) (resolve (disk t) q)"
    and "alloc_fd (disk t) = Some rfd"
  shows "posix_open (disk t) (redirected t c)
    = (rfd, (disk t)\<lparr>fdtab := (fdtab (disk t))(rfd \<mapsto> \<lparr>of_path = resolve (disk t) q, of_pos = 0\<rparr>)\<rparr>)"
  using posix_open_ok [OF bytes_at_canonical [OF assms(2)] assms(3,4)] by (simp add: assms(1))

lemma served_then_copied:
  fixes s s3 :: server
  assumes "served c s s3" and "mover s = Mover_waiting" and "data_queue s = []" and "path_cache_map s c = None"
    and "bytes_at (disk s) c = Some b" and "posix_open (disk s) c = (rfd, ps)" and "rfd \<noteq> -1"
    and "nodes (disk s) (resolve (disk s) d) = None"
    and "nodes (disk s) (resolve (disk s) (d @ ''/'' @ filename c)) = None"
    and "resolve (disk s) d \<noteq> resolve (disk s) (d @ ''/'' @ filename c)"
    and "openable (disk s) (resolve (disk s) (d @ ''/'' @ filename c))"
  defines "t \<equiv> mover_copy_one (Some d) True (mover_wake s3)"
  shows "server_ok t \<and> registry t = registry s \<and> bytes_at (disk t) c = Some b \<and>
    posix_open (disk t) (redirected t c) = (rfd, (disk t)\<lparr>fdtab := (fdtab (disk t))
      (rfd \<mapsto> \<lparr>of_path = resolve (disk s) (d @ ''/'' @ filename c), of_pos = 0\<rparr>)\<rparr>)"
proof -
  have o: "openable (disk s) (resolve (disk s) c)" "alloc_fd (disk s) = Some rfd"
    using assms(6,7) by (cases rule: posix_open_cases [of "disk s" c]; auto simp: canonical_in_Some)+
  have b: "bytes_at (disk s3) c = Some b"
    using assms(1,5) bytes_at_cong [of "disk s3" "disk s" c] by (simp add: served_def)
  have t: "server_ok t \<and> redirected t c = d @ ''/'' @ filename c \<and>
      bytes_at (disk t) (d @ ''/'' @ filename c) = Some b \<and> bytes_at (disk t) c = Some b \<and>
      mover t = Mover_looping \<and> data_queue t = []"
    unfolding t_def
    by (rule copy_after_wake) (use assms(1-4,8-10) b o in \<open>simp_all add: served_def\<close>)
  have "alloc_fd (disk t) = Some rfd"
    using o(2) assms(1) alloc_fd_cong [of "disk t" "disk s3"] by (simp add: t_def served_def)
  moreover have "resolve (disk t) = resolve (disk s)" "openable (disk t) = openable (disk s)"
    "registry t = registry s"
    using assms(1) by (simp_all add: t_def served_def)
  ultimately show ?thesis using t open_takes_copy [of t c _ b rfd] assms(11) by simp
qed

text \<open>
  A file closed on a server with an idle mover is copied and served from the copy: after
  the close, the mover's wake and one round of its loop, the mover is back at its wait with an empty
  queue, the copy has the file's bytes, and the next open of the file opens the copy.
\<close>

lemma closed_file_is_cached:
  assumes "server_ok s" and "mover s = Mover_waiting" and "data_queue s = []"
    and "fdtab (disk s) rfd \<noteq> None" and "fd_to_path s rfd = Some c" and "path_cache_map s c = None"
    and "get_input_ok env" and "bytes_at (disk s) c = Some b" and "openable (disk s) (resolve (disk s) c)"
    and "nodes (disk s) (resolve (disk s) d) = None"
    and "nodes (disk s) (resolve (disk s) (d @ ''/'' @ filename c)) = None"
    and "resolve (disk s) d \<noteq> resolve (disk s) (d @ ''/'' @ filename c)"
  shows "\<exists>s1 t. run_handler env (Close_in \<lparr>close_fd = rfd\<rparr>) s = Inr (None, [], s1) \<and>
    t = mover_copy_one (Some d) True (mover_wake s1) \<and> mover t = Mover_looping \<and>
    data_queue t = [] \<and> redirected t c = d @ ''/'' @ filename c \<and>
    bytes_at (disk t) (redirected t c) = Some b"
proof -
  have l: "local_list s = []" using assms(1,2) by (simp add: server_ok_def mover_ok_def)
  obtain s1 where s1: "run_handler env (Close_in \<lparr>close_fd = rfd\<rparr>) s = Inr (None, [], s1)"
    "disk s1 = (disk s)\<lparr>fdtab := (fdtab (disk s))(rfd := None)\<rparr>" "data_queue s1 = [c]" "mover s1 = Mover_woken"
    using server_close_effect [OF assms(4,5,7)] assms(2,3,6) by auto
  have "local_list s1 = []"
    using s1(1) l by (auto simp: run_handler_def hvac_close_rpc_handler_def hvac_result Let_def
      split: prod.splits if_splits)
  then have w: "local_list (mover_wake s1) = [c]" "data_queue (mover_wake s1) = []"
    using mover_wake_takes_all [OF s1(4)] s1(3) by simp_all
  have b: "bytes_at (disk s1) c = Some b"
    using assms(8) bytes_at_cong [of "disk s1" "disk s" c] by (simp add: s1(2))
  from mover_copy_one_caches [OF w(1), of b d] mover_copy_last_waits [OF w(1), of "Some d" True] b w(2) assms
  show ?thesis using s1(1) by (auto simp: s1(2) redirected_def)
qed

end
