(* ===== verification/Threads.thy ===== *)
theory Threads
  imports Hazards Sessions
begin

unbundle bit_operations_syntax

text \<open>
  Application threads inside the library: opens, reads and seeks of \<open>src/hvac_client.cpp\<close> cut at
  the point where they wait, and closes, which do not wait. A thread issues its RPC with the
  functions of \<open>src/hvac_comm_client.cpp\<close>; the progress thread runs one callback at a time, in any order; a
  thread goes on when it finds the shared flag \<open>done\<close> equal to \<open>HG_TRUE\<close>. As long as one thread
  at a time is inside, every call does what its sequential definition in \<open>Client\<close> does; two
  threads at once can wake each other.
\<close>

section \<open>Calls cut at their wait\<close>

definition open_issue :: "('o, 'a, 'w) cenv \<Rightarrow> cint \<Rightarrow> ('o, 'w) proc \<Rightarrow> ('o, 'w) proc outcome" where
  "open_issue e fd p =
     and_then (ensure_mercury e p) (\<lambda>p1.
     (let (path, m) = map_index [] (fd_map p1) fd; p2 = p1\<lparr>fd_map := m\<rparr> in
      and_then (host_of e p2 path) (\<lambda>host.
      hvac_client_comm_gen_open_rpc e host path fd (l4c p2))))"

definition read_issue ::
  "('o, 'a, 'w) cenv \<Rightarrow> cint \<Rightarrow> buffer \<Rightarrow> i64 \<Rightarrow> i64 \<Rightarrow> ('o, 'w) proc \<Rightarrow> (buffer \<times> ('o, 'w) proc) outcome" where
  "read_issue e fd buf count offset p =
     (let (path, m) = map_index [] (fd_map p) fd; p1 = p\<lparr>fd_map := m\<rparr> in
      and_then (host_of e p1 path) (\<lambda>host.
      hvac_client_comm_gen_read_rpc e host fd buf count offset (l4c p1)))"

definition seek_issue ::
  "('o, 'a, 'w) cenv \<Rightarrow> cint \<Rightarrow> cint \<Rightarrow> cint \<Rightarrow> ('o, 'w) proc \<Rightarrow> ('o, 'w) proc outcome" where
  "seek_issue e fd offset whence p =
     (let (path, m) = map_index [] (fd_map p) fd; p1 = p\<lparr>fd_map := m\<rparr> in
      and_then (host_of e p1 path) (\<lambda>host.
      hvac_client_comm_gen_seek_rpc e host fd offset whence (l4c p1)))"

text \<open>The waits: an open returns nothing, a read and a seek return \<open>read_ret\<close>.\<close>

datatype wait_kind = For_open | For_read | For_seek

fun block :: "wait_kind \<Rightarrow> 'x client_scheme \<Rightarrow> (i64 \<times> 'x client_scheme) outcome" where
  "block For_open p = and_then (hvac_client_block p) (\<lambda>p'. Inr (0, p'))"
| "block For_read p = hvac_read_block p"
| "block For_seek p = hvac_seek_block p"

definition finish :: "wait_kind \<Rightarrow> buffer \<Rightarrow> ('o, 'w) proc \<Rightarrow> (i64 \<times> buffer \<times> ('o, 'w) proc) outcome" where
  "finish k buf p = and_then (block k p) (\<lambda>(r, p'). Inr (r, buf, p'))"

text \<open>The sequential calls are their parts, one after the other.\<close>

lemma remote_open_parts:
  "remote_open e fd p = and_then (open_issue e fd p) (\<lambda>p1. and_then (progress e p1) hvac_client_block)"
  by (simp add: remote_open_def open_issue_def and_then_assoc Let_def case_prod_beta)

lemma remote_read_parts:
  "hvac_file_tracked p fd \<Longrightarrow> remote_read_at e fd buf n off p
     = and_then (read_issue e fd buf n off p) (\<lambda>(buf', p1). and_then (progress e p1) (finish For_read buf'))"
  by (simp add: remote_read_at_def read_issue_def finish_def [abs_def] and_then_assoc Let_def case_prod_beta)

lemma remote_lseek_parts:
  "hvac_file_tracked p fd \<Longrightarrow> hvac_remote_lseek e fd off wh p
     = and_then (seek_issue e fd off wh p) (\<lambda>p1. and_then (progress e p1) hvac_seek_block)"
  by (simp add: hvac_remote_lseek_def seek_issue_def and_then_assoc Let_def case_prod_beta)

section \<open>The system of threads\<close>

datatype call_pc =
    Outside
  | Inside wait_kind buffer       \<comment> \<open>waiting, with the buffer its answer fills\<close>
  | Done i64 buffer               \<comment> \<open>the last call returned this\<close>

text \<open>
  \<open>alone\<close> is not part of the program: it is what the thread's call would return if nobody
  else were inside the library from its start to its end.
\<close>

record ('o, 'w) threads =
  shared :: "('o, 'w) proc"
  pcs :: "nat \<Rightarrow> call_pc"
  alone :: "nat \<Rightarrow> (i64 \<times> buffer \<times> ('o, 'w) proc) outcome"

definition inside :: "('o, 'w) threads \<Rightarrow> nat \<Rightarrow> bool" where
  "inside s t \<longleftrightarrow> (\<exists>k buf. pcs s t = Inside k buf)"

definition enter ::
  "nat \<Rightarrow> wait_kind \<Rightarrow> buffer \<Rightarrow> ('o, 'w) proc \<Rightarrow> (i64 \<times> buffer \<times> ('o, 'w) proc) outcome
    \<Rightarrow> ('o, 'w) threads \<Rightarrow> ('o, 'w) threads" where
  "enter t k buf p r s = s\<lparr>shared := p, pcs := (pcs s)(t := Inside k buf), alone := (alone s)(t := r)\<rparr>"

text \<open>\<open>serial\<close> demands that no thread enters while another is inside; the code does not.\<close>

inductive thread_step ::
  "('o, 'a, 'w) cenv \<Rightarrow> bool \<Rightarrow> ('o, 'w) threads \<Rightarrow> ('o, 'w) threads \<Rightarrow> bool"
  for e :: "('o, 'a, 'w) cenv" and serial :: bool where
  t_open: "\<not> inside s t \<Longrightarrow> (serial \<longrightarrow> (\<forall>u. \<not> inside s u)) \<Longrightarrow>
    track_decision e path fd (shared s) = (True, p1) \<Longrightarrow> open_issue e fd p1 = Inr p2 \<Longrightarrow>
    thread_step e serial s
      (enter t For_open None p2 (and_then (remote_open e fd p1) (\<lambda>p. Inr (0, None, p))) s)"
| t_read: "\<not> inside s t \<Longrightarrow> (serial \<longrightarrow> (\<forall>u. \<not> inside s u)) \<Longrightarrow> hvac_file_tracked (shared s) fd \<Longrightarrow>
    read_issue e fd buf n off (shared s) = Inr (buf', p2) \<Longrightarrow>
    thread_step e serial s (enter t For_read buf' p2 (remote_read_at e fd buf n off (shared s)) s)"
| t_seek: "\<not> inside s t \<Longrightarrow> (serial \<longrightarrow> (\<forall>u. \<not> inside s u)) \<Longrightarrow> hvac_file_tracked (shared s) fd \<Longrightarrow>
    seek_issue e fd off wh (shared s) = Inr p2 \<Longrightarrow>
    thread_step e serial s (enter t For_seek None p2
      (and_then (hvac_remote_lseek e fd off wh (shared s)) (\<lambda>(r, p). Inr (r, None, p))) s)"
| t_close: "\<not> inside s t \<Longrightarrow> (serial \<longrightarrow> (\<forall>u. \<not> inside s u)) \<Longrightarrow> hvac_file_tracked (shared s) fd \<Longrightarrow>
    hvac_remove_fd e fd (shared s) = Inr (b, p2) \<Longrightarrow>
    thread_step e serial s (s\<lparr>shared := p2, pcs := (pcs s)(t := Done 0 None),
      alone := (alone s)(t := Inr (0, None, p2))\<rparr>)"
| t_callback: "progress_runs (shared s) \<Longrightarrow> pending (shared s) = xs @ c # ys \<Longrightarrow>
    run_callback (hg_free_ok e) c ((shared s)\<lparr>pending := xs @ ys\<rparr>) = Inr p \<Longrightarrow>
    thread_step e serial s (s\<lparr>shared := p\<rparr>)"
| t_wake: "pcs s t = Inside k buf \<Longrightarrow> block k (shared s) = Inr (r, p) \<Longrightarrow>
    thread_step e serial s (s\<lparr>shared := p, pcs := (pcs s)(t := Done r buf)\<rparr>)"

definition threads_start :: "('o, 'w) threads \<Rightarrow> bool" where
  "threads_start s \<longleftrightarrow> pcs s = (\<lambda>_. Outside) \<and> pending (shared s) = []"

text \<open>
  A data race on \<open>fd_redir_map\<close>, which has no lock: the progress thread can run the callback of an
  open, which writes the table, and a thread can begin a read or a seek, which looks into it.
\<close>

definition redir_raced :: "('o, 'a, 'w) cenv \<Rightarrow> bool \<Rightarrow> ('o, 'w) threads \<Rightarrow> bool" where
  "redir_raced e serial s \<longleftrightarrow> progress_runs (shared s) \<and> (\<exists>fd r. Cb_open fd r \<in> set (pending (shared s))) \<and>
     (\<exists>t s' k buf. thread_step e serial s s' \<and> \<not> inside s t \<and> pcs s' t = Inside k buf \<and> k \<noteq> For_open)"

section \<open>One call at a time\<close>

text \<open>Each issued call leaves exactly its own callback behind.\<close>

lemma lookup_addr_pending:
  "hvac_client_comm_lookup_addr e rank p = Inr (a, q) \<Longrightarrow> pending q = pending p \<and> rpc_done q = rpc_done p"
  by (drule lookup_addr_frame) auto

lemma forward_rpc_pending:
  "forward_rpc e a rid inp p = Inr (r, q) \<Longrightarrow> pending q = pending p \<and> rpc_done q = rpc_done p"
  by (auto simp: forward_rpc_def hvac_result split: prod.splits)

lemma open_issue_pending: "open_issue e fd p = Inr q \<Longrightarrow> rpc_done q = 0 \<and> (\<exists>c. pending q = pending p @ [c])"
  by (auto simp: open_issue_def hvac_client_comm_gen_open_rpc_def hvac_result Let_def case_prod_beta
      dest!: lookup_addr_pending forward_rpc_pending ensure_mercury_frame)

lemma read_issue_pending:
  "read_issue e fd buf n off p = Inr (buf', q) \<Longrightarrow> rpc_done q = 0 \<and> (\<exists>c. pending q = pending p @ [c])"
  by (auto simp: read_issue_def hvac_client_comm_gen_read_rpc_def hvac_result Let_def case_prod_beta
      dest!: lookup_addr_pending forward_rpc_pending split: option.splits)

lemma seek_issue_pending: "seek_issue e fd off wh p = Inr q \<Longrightarrow> rpc_done q = 0 \<and> (\<exists>c. pending q = pending p @ [c])"
  by (auto simp: seek_issue_def hvac_client_comm_gen_seek_rpc_def hvac_result Let_def case_prod_beta
      dest!: lookup_addr_pending forward_rpc_pending)

lemma remove_fd_pending: "hvac_remove_fd e fd p = Inr (b, q) \<Longrightarrow> pending q = pending p"
  by (auto simp: hvac_remove_fd_def hvac_remote_close_def hvac_client_comm_gen_close_rpc_def hvac_result Let_def
      case_prod_beta split: if_splits dest!: lookup_addr_pending forward_rpc_pending)

lemma run_callback_pending:
  fixes p :: "('o, 'w) proc"
  shows "run_callback ok c p = Inr q \<Longrightarrow> pending q = pending p"
  by (cases "(ok, c, p)" rule: run_callback.cases)
    (auto simp: hvac_open_cb_def hvac_read_cb_def hvac_seek_cb_def hvac_result Let_def split: if_splits)

lemma block_pending:
  fixes p :: "('o, 'w) proc"
  shows "block k p = Inr (r, q) \<Longrightarrow> q = p"
  by (cases k) (auto simp: hvac_client_block_def hvac_read_block_def hvac_seek_block_def split: if_splits)

lemma block_done:
  fixes p :: "('o, 'w) proc"
  shows "block k p = Inr (r, q) \<Longrightarrow> rpc_done p = 1"
  by (cases k) (auto simp: hvac_client_block_def hvac_read_block_def hvac_seek_block_def split: if_splits)

lemma track_decision_pending: "track_decision e path fd p = (b, q) \<Longrightarrow> pending q = pending p"
  by (cases rule: track_decision_cases [of e path fd p]) auto

text \<open>What is left of a call whose callback has still to run, or has run.\<close>

definition to_finish :: "('o, 'a, 'w) cenv \<Rightarrow> wait_kind \<Rightarrow> buffer \<Rightarrow> ('o, 'w) proc
    \<Rightarrow> (i64 \<times> buffer \<times> ('o, 'w) proc) outcome" where
  "to_finish e k buf p = and_then (progress e p) (finish k buf)"

definition returned_alone :: "('o, 'w) threads \<Rightarrow> bool" where
  "returned_alone s \<longleftrightarrow> (\<forall>t r buf. pcs s t = Done r buf \<longrightarrow> (\<exists>p. alone s t = Inr (r, buf, p)))"

definition only_inside :: "('o, 'a, 'w) cenv \<Rightarrow> ('o, 'w) threads \<Rightarrow> nat \<Rightarrow> bool" where
  "only_inside e s t \<longleftrightarrow> (\<exists>k buf. pcs s t = Inside k buf \<and> alone s t = to_finish e k buf (shared s)) \<and>
     (\<forall>u. u \<noteq> t \<longrightarrow> \<not> inside s u) \<and> length (pending (shared s)) \<le> 1 \<and>
     (pending (shared s) \<noteq> [] \<longrightarrow> rpc_done (shared s) = 0)"

definition one_call :: "('o, 'a, 'w) cenv \<Rightarrow> ('o, 'w) threads \<Rightarrow> bool" where
  "one_call e s \<longleftrightarrow> returned_alone s \<and>
     ((\<forall>t. \<not> inside s t) \<and> pending (shared s) = [] \<or> (\<exists>t. only_inside e s t))"

lemma one_call_nobody: "one_call e s \<Longrightarrow> \<forall>t. \<not> inside s t \<Longrightarrow> pending (shared s) = [] \<and> returned_alone s"
  by (auto simp: one_call_def only_inside_def inside_def)

lemma one_call_only: "one_call e s \<Longrightarrow> inside s t \<Longrightarrow> only_inside e s t \<and> returned_alone s"
  unfolding one_call_def only_inside_def by metis

lemma enter_only:
  assumes "\<forall>u. \<not> inside s u" and "returned_alone s" and "r = to_finish e k buf p" and "pending p = [c]" and "rpc_done p = 0"
  shows "one_call e (enter t k buf p r s)"
proof -
  have "only_inside e (enter t k buf p r s) t"
    using assms by (auto simp: only_inside_def enter_def inside_def)
  moreover have "returned_alone (enter t k buf p r s)"
    using assms(2) by (auto simp: returned_alone_def enter_def split: if_splits)
  ultimately show ?thesis by (auto simp: one_call_def)
qed

text \<open>Running the one callback, and going on after it, leave what the call will return.\<close>

lemma progress_nothing: "pending p = [] \<Longrightarrow> progress e p = Inr p"
  by (cases p) (simp add: progress_def)

lemma progress_one:
  "progress_runs p \<Longrightarrow> pending p = [c] \<Longrightarrow> run_callback (hg_free_ok e) c (p\<lparr>pending := []\<rparr>) = Inr q \<Longrightarrow>
   progress e p = Inr q"
  by (simp add: progress_def)

lemma to_finish_callback:
  assumes "progress_runs p" and "pending p = [c]" and "run_callback (hg_free_ok e) c (p\<lparr>pending := []\<rparr>) = Inr q"
  shows "to_finish e k buf q = to_finish e k buf p" and "pending q = []"
proof -
  show q: "pending q = []" using run_callback_pending [OF assms(3)] by simp
  then show "to_finish e k buf q = to_finish e k buf p"
    using progress_one [OF assms] by (simp add: to_finish_def progress_nothing)
qed

lemma to_finish_done:
  assumes "pending p = []" and "block k p = Inr (r, q)"
  shows "to_finish e k buf p = Inr (r, buf, q)"
  using assms by (simp add: to_finish_def progress_nothing finish_def)

text \<open>What the three calls return, from the state after their issue.\<close>

lemma open_to_finish:
  "open_issue e fd p = Inr p2 \<Longrightarrow> and_then (remote_open e fd p) (\<lambda>p'. Inr (0, None, p')) = to_finish e For_open None p2"
  by (simp add: remote_open_parts to_finish_def finish_def [abs_def] and_then_assoc)

lemma read_to_finish:
  "hvac_file_tracked p fd \<Longrightarrow> read_issue e fd buf n off p = Inr (buf', p2) \<Longrightarrow>
   remote_read_at e fd buf n off p = to_finish e For_read buf' p2"
  by (simp add: remote_read_parts to_finish_def)

lemma seek_to_finish:
  "hvac_file_tracked p fd \<Longrightarrow> seek_issue e fd off wh p = Inr p2 \<Longrightarrow>
   and_then (hvac_remote_lseek e fd off wh p) (\<lambda>(r, p'). Inr (r, None, p')) = to_finish e For_seek None p2"
  by (simp add: remote_lseek_parts to_finish_def finish_def [abs_def] and_then_assoc case_prod_beta')

lemma one_call_step:
  assumes "one_call e s" and "thread_step e True s s'"
  shows "one_call e s'"
  using assms(2)
proof (cases rule: thread_step.cases)
  case (t_open t path fd p1 p2)
  then have out: "\<forall>u. \<not> inside s u" by blast
  note q = one_call_nobody [OF assms(1) out]
  have "pending p1 = []" using q track_decision_pending [OF t_open(4)] by simp
  then obtain c where "pending p2 = [c]" "rpc_done p2 = 0" using open_issue_pending [OF t_open(5)] by auto
  with enter_only [OF out conjunct2 [OF q] open_to_finish [OF t_open(5)]] show ?thesis by (simp add: t_open(1))
next
  case (t_read t fd buf n off buf' p2)
  then have out: "\<forall>u. \<not> inside s u" by blast
  note q = one_call_nobody [OF assms(1) out]
  obtain c where "pending p2 = [c]" "rpc_done p2 = 0" using read_issue_pending [OF t_read(5)] q by auto
  with enter_only [OF out conjunct2 [OF q] read_to_finish [OF t_read(4,5)]] show ?thesis by (simp add: t_read(1))
next
  case (t_seek t fd off wh p2)
  then have out: "\<forall>u. \<not> inside s u" by blast
  note q = one_call_nobody [OF assms(1) out]
  obtain c where "pending p2 = [c]" "rpc_done p2 = 0" using seek_issue_pending [OF t_seek(5)] q by auto
  with enter_only [OF out conjunct2 [OF q] seek_to_finish [OF t_seek(4,5)]] show ?thesis by (simp add: t_seek(1))
next
  case (t_close t fd b p2)
  then have out: "\<forall>u. \<not> inside s u" by blast
  note q = one_call_nobody [OF assms(1) out]
  then have "pending p2 = []" using remove_fd_pending [OF t_close(5)] by simp
  with out q show ?thesis
    by (auto simp: one_call_def returned_alone_def inside_def t_close(1))
next
  case (t_callback xs c ys p)
  then have "pending (shared s) \<noteq> []" by simp
  with assms(1) obtain t where t: "only_inside e s t" "returned_alone s" by (auto simp: one_call_def)
  then have one: "xs = []" "ys = []" using t_callback(3) by (simp_all add: only_inside_def)
  then have "pending (shared s) = [c]" "run_callback (hg_free_ok e) c ((shared s)\<lparr>pending := []\<rparr>) = Inr p"
    using t_callback by simp_all
  note f = to_finish_callback [OF t_callback(2) this]
  have "only_inside e s' t" using t(1) f by (simp add: only_inside_def t_callback(1) inside_def)
  moreover have "returned_alone s'" using t(2) by (simp add: returned_alone_def t_callback(1))
  ultimately show ?thesis by (auto simp: one_call_def)
next
  case (t_wake t k buf r p)
  then have "inside s t" by (auto simp: inside_def)
  with one_call_only [OF assms(1)] have t: "only_inside e s t" "returned_alone s" by blast+
  have p: "p = shared s" using block_pending [OF t_wake(3)] .
  show ?thesis
  proof (cases "pending (shared s)")
    case Nil
    then have "alone s t = Inr (r, buf, p)"
      using t(1) t_wake(2) to_finish_done [OF Nil t_wake(3)] by (auto simp: only_inside_def)
    with t p Nil show ?thesis
      by (auto simp: one_call_def t_wake(1) returned_alone_def only_inside_def inside_def)
  next
    case (Cons c cs)
    with t(1) have "rpc_done (shared s) = 0" by (simp add: only_inside_def)
    with t_wake(3) show ?thesis using block_done by fastforce
  qed
qed

interpretation one_call: inductive_invariant threads_start "thread_step e True" "one_call e" for e
proof unfold_locales
  fix s :: "('a, 'b) threads"
  assume "threads_start s"
  then show "one_call e s" for e :: "('a, 'c, 'b) cenv"
    by (simp add: threads_start_def one_call_def returned_alone_def inside_def)
qed (rule one_call_step)

lemma serial_not_raced:
  assumes "one_call e s"
  shows "\<not> redir_raced e True s"
proof
  assume "redir_raced e True s"
  then obtain t s' where p: "pending (shared s) \<noteq> []" and s': "thread_step e True s s'" "\<not> inside s t" "inside s' t"
    unfolding redir_raced_def inside_def by (metis list.set(1) empty_iff)
  have "\<forall>u. \<not> inside s u"
    using s'(1) by (cases rule: thread_step.cases) (use s'(2,3) in \<open>auto simp: inside_def split: if_splits\<close>)
  with one_call_nobody [OF assms] p show False by blast
qed

text \<open>
  Whoever is inside alone and would return, returns: the callback runs, and the flag it sets
  ends the wait.
\<close>

lemma only_inside_returns:
  assumes "only_inside e s t" and "alone s t = Inr (r, buf, p)"
  shows "\<exists>s'. (thread_step e serial)\<^sup>*\<^sup>* s s' \<and> pcs s' t = Done r buf \<and> shared s' = p"
proof -
  obtain k b where k: "pcs s t = Inside k b" "alone s t = to_finish e k b (shared s)"
    using assms(1) by (auto simp: only_inside_def)
  then have "and_then (progress e (shared s)) (finish k b) = Inr (r, buf, p)"
    using assms(2) by (simp add: to_finish_def)
  then obtain q where q: "progress e (shared s) = Inr q" "finish k b q = Inr (r, buf, p)"
    by (auto simp: and_then_eq_Inr)
  have run: "\<exists>u. (thread_step e serial)\<^sup>*\<^sup>* s u \<and> shared u = q \<and> pcs u = pcs s"
  proof (cases "pending (shared s)")
    case Nil
    then show ?thesis using q(1) by (intro exI [of _ s]) (simp add: progress_nothing)
  next
    case (Cons c cs)
    then have c: "pending (shared s) = [c]" using assms(1) by (simp add: only_inside_def)
    have "rpc_done (shared s) = 0" using assms(1) Cons by (simp add: only_inside_def)
    then have runs: "progress_runs (shared s)"
      using q by (auto simp: progress_def finish_def and_then_eq_Inr split: if_splits dest!: block_done)
    with q(1) c have "run_callback (hg_free_ok e) c ((shared s)\<lparr>pending := []\<rparr>) = Inr q"
      by (auto simp: progress_def and_then_eq_Inr)
    then have "thread_step e serial s (s\<lparr>shared := q\<rparr>)" using c runs by (intro t_callback [of s "[]" c "[]"]) simp_all
    then show ?thesis by (intro exI [of _ "s\<lparr>shared := q\<rparr>"]) simp
  qed
  then obtain u where u: "(thread_step e serial)\<^sup>*\<^sup>* s u" "shared u = q" "pcs u = pcs s" by blast
  have "block k (shared u) = Inr (r, p)" "b = buf"
    using q(2) u(2) by (auto simp: finish_def and_then_eq_Inr)
  then have "thread_step e serial u (u\<lparr>shared := p, pcs := (pcs u)(t := Done r buf)\<rparr>)"
    using k(1) u(3) by (intro t_wake) simp_all
  with u(1) show ?thesis by (intro exI [of _ "u\<lparr>shared := p, pcs := (pcs u)(t := Done r buf)\<rparr>"]) auto
qed

section \<open>An open woken by another call\<close>

text \<open>The issue of each call on a client whose links are known, with its answer on the way.\<close>

lemma open_issue_known:
  assumes "g_mercury_init p" and "g_hvac_server_count p \<noteq> 0" and "fd_map p fd = Some c" and "knows e p c a"
    and "mercury_ok e" and "hg_forward e a (hvac_client_open_id p) (Open_in \<lparr>in_path = c\<rparr>) (net p) = (r, w)"
    and "r \<noteq> Forward_failed"
  shows "open_issue e fd p = Inr ((l4c p)\<lparr>rpc_done := 0, net := w, pending := pending p @ [Cb_open fd r]\<rparr>)"
proof -
  obtain str where k: "address_cache p (host_index e p c) = Some str" "hg_lookup e str = Some a"
    using assms(4) by (auto simp: knows_def)
  let ?q = "(l4c p)\<lparr>rpc_done := 0\<rparr>"
  have "hvac_client_comm_lookup_addr e (host_index e p c) ?q = Inr (a, ?q)"
    by (rule lookup_addr_cached [OF _ k(2)]) (simp add: k(1))
  moreover have "forward_rpc e a (hvac_client_open_id p) (Open_in \<lparr>in_path = c\<rparr>) ?q = Inr (r, ?q\<lparr>net := w\<rparr>)"
    by (rule forward_rpc_reply) (use assms in \<open>simp_all add: l4c_def\<close>)
  ultimately show ?thesis using assms(1,2,3)
    by (simp add: open_issue_def ensure_mercury_def host_of_index hvac_client_comm_gen_open_rpc_def l4c_def)
qed

lemma read_issue_known:
  assumes "g_hvac_server_count p \<noteq> 0" and "fd_map p fd = Some c" and "knows e p c a" and "mercury_ok e"
    and "rfd = fst (map_index 0 (fd_redir_map p) fd)"
    and "hg_forward e a (hvac_client_rpc_id p) (Read_in \<lparr>input_val = to_int n, bulk_handle = n,
      accessfd = rfd, in_offset = off\<rparr>) (net p) = (Reply ret out data, w)"
  shows "read_issue e fd (Some mem) n off p = Inr (Some (overlay data mem), (l4c p)\<lparr>rpc_done := 0, read_ret := -1,
    fd_redir_map := snd (map_index 0 (fd_redir_map p) fd), net := w,
    pending := pending p @ [Cb_read (Reply ret out data)]\<rparr>)"
proof -
  obtain str where k: "address_cache p (host_index e p c) = Some str" "hg_lookup e str = Some a"
    using assms(3) by (auto simp: knows_def)
  let ?q = "(l4c p)\<lparr>rpc_done := 0, read_ret := -1\<rparr>"
  let ?q' = "?q\<lparr>fd_redir_map := snd (map_index 0 (fd_redir_map p) fd)\<rparr>"
  have "hvac_client_comm_lookup_addr e (host_index e p c) ?q = Inr (a, ?q)"
    by (rule lookup_addr_cached [OF _ k(2)]) (simp add: k(1))
  moreover have "forward_rpc e a (hvac_client_rpc_id p) (Read_in \<lparr>input_val = to_int n, bulk_handle = n,
      accessfd = rfd, in_offset = off\<rparr>) ?q' = Inr (Reply ret out data, ?q'\<lparr>net := w\<rparr>)"
    by (rule forward_rpc_reply) (use assms in \<open>simp_all add: l4c_def\<close>)
  ultimately show ?thesis using assms(1,2,4,5)
    by (simp add: read_issue_def host_of_index hvac_client_comm_gen_read_rpc_def l4c_def mercury_ok_def
        case_prod_beta)
qed

text \<open>A read that is issued and answered while other callbacks are still to run.\<close>

definition after_answer :: "('o, 'w) proc \<Rightarrow> cint \<Rightarrow> cint \<Rightarrow> 'w \<Rightarrow> ('o, 'w) proc" where
  "after_answer p fd out w = (l4c p)\<lparr>fd_redir_map := snd (map_index 0 (fd_redir_map p) fd), net := w,
     rpc_done := 1, read_ret := to_i64 out\<rparr>"

lemma read_enters:
  assumes "\<not> inside s t" and "shared s = p" and "g_hvac_server_count p \<noteq> 0" and "fd_map p fd = Some c"
    and "knows e p c a" and "mercury_ok e" and "rfd = fst (map_index 0 (fd_redir_map p) fd)"
    and "hg_forward e a (hvac_client_rpc_id p) (Read_in \<lparr>input_val = to_int n, bulk_handle = n,
      accessfd = rfd, in_offset = off\<rparr>) (net p) = (Reply 0 out d, w)"
  shows "thread_step e False s (enter t For_read (Some (overlay d mem)) ((l4c p)\<lparr>rpc_done := 0, read_ret := -1,
    fd_redir_map := snd (map_index 0 (fd_redir_map p) fd), net := w,
    pending := pending p @ [Cb_read (Reply 0 out d)]\<rparr>) (remote_read_at e fd (Some mem) n off p) s)"
  using t_read [OF assms(1) _ _ read_issue_known [OF assms(3-8), of mem, folded assms(2)], where serial = False]
  by (simp add: hvac_file_tracked_def map_has_def assms(2,4))

lemma read_answered:
  assumes "\<not> inside s t" and "shared s = p" and "g_hvac_server_count p \<noteq> 0" and "fd_map p fd = Some c"
    and "knows e p c a" and "mercury_ok e" and "rfd = fst (map_index 0 (fd_redir_map p) fd)"
    and "hg_forward e a (hvac_client_rpc_id p) (Read_in \<lparr>input_val = to_int n, bulk_handle = n,
      accessfd = rfd, in_offset = off\<rparr>) (net p) = (Reply 0 out d, w)" and "progress_runs p"
  shows "\<exists>u. (thread_step e False)\<^sup>*\<^sup>* s u \<and> shared u = after_answer p fd out w \<and>
    pcs u = (pcs s)(t := Inside For_read (Some (overlay d mem)))"
proof -
  let ?p2 = "(l4c p)\<lparr>rpc_done := 0, read_ret := -1, fd_redir_map := snd (map_index 0 (fd_redir_map p) fd), net := w,
    pending := pending p @ [Cb_read (Reply 0 out d)]\<rparr>"
  let ?s = "enter t For_read (Some (overlay d mem)) ?p2 (remote_read_at e fd (Some mem) n off (shared s)) s"
  have "thread_step e False s ?s" using read_enters [OF assms(1-8), of mem] by (simp add: assms(2))
  moreover have "run_callback (hg_free_ok e) (Cb_read (Reply 0 out d)) (?p2\<lparr>pending := pending p @ []\<rparr>)
      = Inr (after_answer p fd out w)"
    using assms(6) by (cases p) (simp add: hvac_read_cb_def mercury_ok_def after_answer_def l4c_def)
  then have "thread_step e False ?s (?s\<lparr>shared := after_answer p fd out w\<rparr>)"
    by (intro t_callback [where xs = "pending p" and c = "Cb_read (Reply 0 out d)" and ys = "[]"])
      (use assms(9) in \<open>simp_all add: enter_def\<close>)
  ultimately have "(thread_step e False)\<^sup>*\<^sup>* s (?s\<lparr>shared := after_answer p fd out w\<rparr>)" by simp
  then show ?thesis
    by (intro exI [of _ "?s\<lparr>shared := after_answer p fd out w\<rparr>"]) (simp add: enter_def)
qed

text \<open>
  Thread 0 opens a file while thread 1 reads: the answer of the read ends the wait of the
  open, whose own answer has not come. \<open>fd_redir_map\<close> has no entry for the new descriptor yet,
  and looking it up inserts 0. On the way, the open's callback and the read race.
\<close>

lemma open_wakes_early:
  assumes start: "threads_start s" and p: "shared s = p"
    and init: "g_mercury_init p" "g_hvac_server_count p \<noteq> 0" "mercury_ok e" "progress_runs p"
    and dir: "in_data_dir e (os p) (hvac_data_dir p) path c"
    and fds: "fd1 \<noteq> fd0" "fd_map p fd1 = Some c1" "fd_redir_map p fd1 = Some rfd1" "fd_redir_map p fd0 = None"
    and adr: "knows e p c a" "knows e p c1 a1"
    and f1: "hg_forward e a (hvac_client_open_id p) (Open_in \<lparr>in_path = c\<rparr>) (net p) = (Reply 0 rfd [], w1)"
    and f2: "hg_forward e a1 (hvac_client_rpc_id p) (Read_in \<lparr>input_val = to_int n1, bulk_handle = n1,
      accessfd = rfd1, in_offset = -1\<rparr>) w1 = (Reply 0 out1 d1, w2)"
    and f3: "hg_forward e a (hvac_client_rpc_id p) (Read_in \<lparr>input_val = to_int n, bulk_handle = n,
      accessfd = 0, in_offset = -1\<rparr>) w2 = (Reply 0 out d, w3)"
  shows "\<exists>v u. (thread_step e False)\<^sup>*\<^sup>* s v \<and> redir_raced e False v \<and> (thread_step e False)\<^sup>*\<^sup>* v u \<and>
    fd_map (shared u) fd0 = Some c \<and> pcs u 0 = Done (to_i64 out) (Some (overlay d mem)) \<and> net (shared u) = w3"
proof -
  have s: "pcs s = (\<lambda>_. Outside)" "pending p = []" using start p by (simp_all add: threads_start_def)
  define p1 where "p1 = (l4c p)\<lparr>fd_map := (fd_map p)(fd0 \<mapsto> c)\<rparr>"
  define p2 where "p2 = (l4c p1)\<lparr>rpc_done := 0, net := w1, pending := pending p1 @ [Cb_open fd0 (Reply 0 rfd [])]\<rparr>"
  define p3 where "p3 = after_answer p2 fd1 out1 w2"
  note defs = p1_def p2_def p3_def after_answer_def l4c_def
  have knows: "knows e q c a" "knows e q c1 a1" if "address_cache q = address_cache p"
    "g_hvac_server_count q = g_hvac_server_count p" for q
    using adr that by (simp_all add: knows_def host_index_def)
  have issue: "open_issue e fd0 p1 = Inr p2"
    unfolding p2_def
    by (rule open_issue_known [OF _ _ _ knows(1) init(3)]) (use init f1 in \<open>simp_all add: p1_def l4c_def\<close>)
  have tracked: "track_decision e path fd0 (shared s) = (True, p1)"
    using track_decision_yes [of e p path c fd0] dir by (simp add: p p1_def)
  define s1 where "s1 = enter 0 For_open None p2 (and_then (remote_open e fd0 p1) (\<lambda>p. Inr (0, None, p))) s"
  have "thread_step e False s s1"
    unfolding s1_def by (rule t_open [OF _ _ tracked issue]) (simp_all add: inside_def s(1))
  moreover have "redir_raced e False s1"
  proof -
    have "\<exists>s'. thread_step e False s1 s' \<and> pcs s' 1 = Inside For_read (Some (overlay d1 undefined))"
      using read_enters [OF _ _ _ _ knows(2) init(3) refl, of s1 1 "shared s1" fd1]
        init fds f2 s(1) by (fastforce simp: s1_def enter_def inside_def p2_def p1_def l4c_def)
    then show ?thesis using init(4) s(1)
      by (auto simp: redir_raced_def s1_def enter_def inside_def p2_def p1_def)
  qed
  moreover have "\<exists>u. (thread_step e False)\<^sup>*\<^sup>* s1 u \<and> shared u = p3 \<and>
      pcs u = (pcs s1)(1 := Inside For_read (Some (overlay d1 undefined)))"
    unfolding p3_def
    by (rule read_answered [OF _ _ _ _ knows(2) init(3) refl])
      (use init fds f2 s(1) in \<open>simp_all add: s1_def enter_def inside_def p2_def p1_def l4c_def\<close>)
  then obtain s2 where s2: "(thread_step e False)\<^sup>*\<^sup>* s1 s2" "shared s2 = p3"
      "pcs s2 = (pcs s1)(1 := Inside For_read (Some (overlay d1 undefined)))" by blast
  define s3 where "s3 = s2\<lparr>shared := p3, pcs := (pcs s2)(0 := Done 0 None)\<rparr>"
  have "thread_step e False s2 s3"
    unfolding s3_def by (rule t_wake [where k = For_open]) (simp_all add: s2 s1_def enter_def defs hvac_client_block_def)
  moreover have "\<exists>u. (thread_step e False)\<^sup>*\<^sup>* s3 u \<and> shared u = after_answer p3 fd0 out w3 \<and>
      pcs u = (pcs s3)(0 := Inside For_read (Some (overlay d mem)))"
    by (rule read_answered [OF _ _ _ _ knows(1) init(3) refl])
      (use init fds f3 in \<open>simp_all add: s3_def inside_def defs map_index_def\<close>)
  then obtain s4 where s4: "(thread_step e False)\<^sup>*\<^sup>* s3 s4" "shared s4 = after_answer p3 fd0 out w3"
      "pcs s4 = (pcs s3)(0 := Inside For_read (Some (overlay d mem)))" by blast
  define s5 where "s5 = s4\<lparr>shared := shared s4, pcs := (pcs s4)(0 := Done (to_i64 out) (Some (overlay d mem)))\<rparr>"
  have "thread_step e False s4 s5"
    unfolding s5_def by (rule t_wake [where k = For_read]) (simp_all add: s4 after_answer_def hvac_read_block_def)
  with s4(1) have "(thread_step e False)\<^sup>*\<^sup>* s3 s5" by (rule rtranclp.rtrancl_into_rtrancl)
  ultimately have "(thread_step e False)\<^sup>*\<^sup>* s s1" "redir_raced e False s1" "(thread_step e False)\<^sup>*\<^sup>* s1 s5"
    using s2(1) by - (simp, assumption, meson converse_rtranclp_into_rtranclp rtranclp_trans)
  then show ?thesis using s4 by (intro exI [of _ s1] exI [of _ s5]) (simp add: s5_def defs)
qed

text \<open>The same over the nodes, for a descriptor that is open as descriptor 0 on its server.\<close>

lemma cluster_read_window:
  assumes "cluster_serves w a rid K_read" and "cluster_view w a rfd = Some (b, pos)" and "n \<le> max_rw"
  defines "d \<equiv> take n (drop pos b)"
  shows "\<exists>w'. cluster_forward (fault_free dt lf) a rid (Read_in \<lparr>input_val = to_int (of_nat n),
      bulk_handle = of_nat n, accessfd = rfd, in_offset = -1\<rparr>) w = (Reply 0 (to_int (of_nat (length d))) d, w') \<and>
    cluster_serves w' a rid K_read \<and> cluster_view w' a rfd = Some (b, pos + length d) \<and>
    to_i64 (to_int (of_nat (length d))) = of_nat (length d)"
proof -
  have n: "n < 2 ^ 31" using assms(3) by (simp add: max_rw_def)
  then have "length d < 2 ^ 31" by (simp add: d_def)
  moreover have "file_window b pos (to_i64 (to_int (of_nat n))) = d"
    using assms(3) n by (simp add: to_i64_to_int_of_nat file_window_small d_def)
  ultimately show ?thesis
    using cluster.read_law [OF assms(1,2), of "to_int (of_nat n)" dt lf] assms(1) n
    by (auto simp: sint_small to_i64_to_int_of_nat undisturbed_def)
qed

lemma take_drop_past: "take n (drop (pos + length (take k (drop pos b))) b) = take n (drop (pos + k) b)"
  by (cases "pos + k \<le> length b") simp_all

lemma cluster_open_wakes_early:
  fixes e :: "('o, string, cluster) cenv" and p :: "('o, cluster) proc" and dt :: i64 and lf :: bool
  defines "E \<equiv> deployed e dt lf"
  assumes start: "threads_start s" "shared s = p"
    and ready: "open_ready E p (os p) path c a srv" "knows E p c a"
    and server: "server_ok srv" "bytes_at (disk srv) c = Some b" "posix_open (disk srv) (redirected srv c) = (rfd, ps)"
      "rfd \<noteq> -1"
    and fd0: "fd1 \<noteq> fd0" "fd_redir_map p fd0 = None"
    and fd1: "remote_end E p fd1 = Some (a, 0)" "tracked_view E p fd1 = Some (b1, pos)"
    and n: "n1 \<le> max_rw" "n \<le> max_rw"
  defines "d \<equiv> take n (drop (pos + n1) b1)"
  shows "\<exists>v u. (thread_step E False)\<^sup>*\<^sup>* s v \<and> redir_raced E False v \<and> (thread_step E False)\<^sup>*\<^sup>* v u \<and>
    fd_map (shared u) fd0 = Some c \<and> pcs u 0 = Done (of_nat (length d)) (Some (overlay d mem))"
proof -
  define d1 where "d1 = take n1 (drop pos b1)"
  have d: "take n (drop (pos + length d1) b1) = d" unfolding d_def d1_def by (rule take_drop_past)
  have srv: "net p a = Some srv" "registry srv (hvac_client_open_id p) = Some K_open"
    using ready(1) by (simp_all add: open_ready_def)
  obtain c1 where c1: "fd_redir_map p fd1 = Some 0" "fd_map p fd1 = Some c1" "knows E p c1 a"
    using remote_end_SomeD [OF fd1(1)] by (auto simp: knows_def)
  from remote_view_SomeD [OF fd1(2)] fd1(1)
  have v: "cluster_serves (net p) a (hvac_client_rpc_id p) K_read" "fd_view (disk srv) 0 = Some (b1, pos)"
    using srv(1) by (auto simp: cluster_view_def)
  obtain srv' where s': "run_handler (fault_free dt lf) (Open_in \<lparr>in_path = c\<rparr>) srv = Inr (Some rfd, [], srv')"
      "registry srv' = registry srv" "fdtab (disk srv) rfd = None"
      "\<forall>fd. fd \<noteq> rfd \<longrightarrow> fd_view (disk srv') fd = fd_view (disk srv) fd"
    using server_open_view [OF server, of "fault_free dt lf"] by auto
  let ?w1 = "(net p)(a \<mapsto> srv')"
  have "rfd \<noteq> 0" using s'(3) v(2) by (auto simp: fd_view_def)
  then have w1: "cluster_serves ?w1 a (hvac_client_rpc_id p) K_read" "cluster_view ?w1 a 0 = Some (b1, pos)"
    using v s' srv(1) by (simp_all add: cluster_serves_def cluster_view_def)
  obtain w2 where w2: "cluster_forward (fault_free dt lf) a (hvac_client_rpc_id p) (Read_in \<lparr>input_val = to_int (of_nat n1),
      bulk_handle = of_nat n1, accessfd = 0, in_offset = -1\<rparr>) ?w1 = (Reply 0 (to_int (of_nat (length d1))) d1, w2)"
      "cluster_serves w2 a (hvac_client_rpc_id p) K_read" "cluster_view w2 a 0 = Some (b1, pos + length d1)"
    using cluster_read_window [OF w1 n(1), of dt lf] by (auto simp: d1_def)
  obtain w3 where w3: "cluster_forward (fault_free dt lf) a (hvac_client_rpc_id p) (Read_in \<lparr>input_val = to_int (of_nat n),
      bulk_handle = of_nat n, accessfd = 0, in_offset = -1\<rparr>) w2 = (Reply 0 (to_int (of_nat (length d))) d, w3)"
      "to_i64 (to_int (of_nat (length d))) = of_nat (length d)"
    using cluster_read_window [OF w2(2,3) n(2), of dt lf] by (auto simp: d)
  have f1: "hg_forward E a (hvac_client_open_id p) (Open_in \<lparr>in_path = c\<rparr>) (net p) = (Reply 0 rfd [], ?w1)"
    using srv s'(1) by (simp add: E_def cluster_forward_def)
  have "g_mercury_init p" "g_hvac_server_count p \<noteq> 0" "in_data_dir E (os p) (hvac_data_dir p) path c" "mercury_ok E"
    "progress_runs p"
    using ready(1) by (simp_all add: open_ready_def E_def)
  moreover have "hg_forward E = cluster_forward (fault_free dt lf)" by (simp add: E_def)
  ultimately have "\<exists>v u. (thread_step E False)\<^sup>*\<^sup>* s v \<and> redir_raced E False v \<and> (thread_step E False)\<^sup>*\<^sup>* v u \<and>
      fd_map (shared u) fd0 = Some c \<and> pcs u 0 = Done (to_i64 (to_int (of_nat (length d)))) (Some (overlay d mem)) \<and> net (shared u) = w3"
    using w2(1) w3(1)
    by (intro open_wakes_early [OF start _ _ _ _ _ fd0(1) c1(2,1) fd0(2) ready(2) c1(3) f1]) simp_all
  with w3(2) show ?thesis by auto
qed

end
