(* ===== verification/Job.thy ===== *)
theory Job
  imports Sessions
begin

text \<open>
  A whole job: any number of client processes that share the servers. The requests of the
  other clients, which \<open>System\<close> takes as given, are here the calls of the same library in the
  other processes, so that the rely of each client is the guarantee of the others.
\<close>

section \<open>State and steps\<close>

record 'o job =
  world :: cluster
  procs :: "nat \<Rightarrow> ('o, cluster) proc"

text \<open>A client process sees the servers as they are now.\<close>

definition client_of :: "'o job \<Rightarrow> nat \<Rightarrow> ('o, cluster) proc" where
  "client_of J i = (procs J i)\<lparr>net := world J\<rparr>"

text \<open>A process that has just been started: its tables are empty.\<close>

definition fresh_proc :: "('o, 'w) proc \<Rightarrow> bool" where
  "fresh_proc p \<longleftrightarrow> fd_map p = (\<lambda>_. None) \<and> fd_redir_map p = (\<lambda>_. None) \<and> pending p = []"

text \<open>Who takes a step.\<close>

datatype job_act = Call nat | Exits nat | Mover string

text \<open>
  A client calls the library and the call returns; or it ends inside a call, whose request
  may still have reached its server; or it ends between two calls. A process that ends leaves
  its descriptors open on the servers, and another may take its place.
\<close>

definition own_request :: "('o, string, cluster) cenv \<Rightarrow> ('o, cluster) proc \<Rightarrow> string \<Rightarrow> rpc_in \<Rightarrow> bool" where
  "own_request e p a req \<longleftrightarrow> req_fd req = None \<or>
     (\<exists>fd rfd. remote_end e p fd = Some (a, rfd) \<and> req_fd req = Some rfd)"

inductive job_step ::
  "(nat \<Rightarrow> ('o, string, cluster) cenv) \<Rightarrow> i64 \<Rightarrow> bool \<Rightarrow> job_act \<Rightarrow> 'o job \<Rightarrow> 'o job \<Rightarrow> bool"
  for es :: "nat \<Rightarrow> ('o, string, cluster) cenv" and dt :: i64 and lf :: bool where
  job_call: "client_call (deployed (es i) dt lf) (client_of J i) p \<Longrightarrow>
    job_step es dt lf (Call i) J (J\<lparr>world := net p, procs := (procs J)(i := p)\<rparr>)"
| job_dies: "own_request (deployed (es i) dt lf) (client_of J i) a req \<Longrightarrow> fresh_proc p \<Longrightarrow>
    job_step es dt lf (Exits i) J (J\<lparr>world := request (fault_free dt lf) a rid req (world J),
      procs := (procs J)(i := p)\<rparr>)"
| job_ends: "fresh_proc p \<Longrightarrow> job_step es dt lf (Exits i) J (J\<lparr>procs := (procs J)(i := p)\<rparr>)"
| job_mover: "world J a = Some s \<Longrightarrow> mover_step s s' \<Longrightarrow>
    job_step es dt lf (Mover a) J (J\<lparr>world := (world J)(a \<mapsto> s')\<rparr>)"

definition job_start :: "cluster \<Rightarrow> 'o job \<Rightarrow> bool" where
  "job_start w J \<longleftrightarrow> world J = w \<and> servers_ok w \<and> (\<forall>i. fresh_proc (procs J i))"

abbreviation job_reach ::
  "(nat \<Rightarrow> ('o, string, cluster) cenv) \<Rightarrow> i64 \<Rightarrow> bool \<Rightarrow> cluster \<Rightarrow> 'o job \<Rightarrow> bool" where
  "job_reach es dt lf w \<equiv> reach (job_start w) (\<lambda>J J'. \<exists>act. job_step es dt lf act J J')"

lemma remote_end_net [simp]: "remote_end e (p\<lparr>net := w\<rparr>) fd = remote_end e p fd"
  by (rule remote_end_cong) simp_all

lemma client_of_simps [simp]:
  "net (client_of J i) = world J" "remote_end e (client_of J i) fd = remote_end e (procs J i) fd"
  "fd_map (client_of J i) = fd_map (procs J i)"
  by (simp_all add: client_of_def)

lemma client_of_updates:
  "client_of (J\<lparr>world := net p, procs := (procs J)(i := p)\<rparr>) i = p"
  "j \<noteq> i \<Longrightarrow> client_of (J\<lparr>world := w, procs := (procs J)(i := p)\<rparr>) j = (client_of J j)\<lparr>net := w\<rparr>"
  "j \<noteq> i \<Longrightarrow> client_of (J\<lparr>procs := (procs J)(i := p)\<rparr>) j = client_of J j"
  "client_of (J\<lparr>world := w\<rparr>) j = (client_of J j)\<lparr>net := w\<rparr>"
  by (simp_all add: client_of_def)

section \<open>Two clients\<close>

text \<open>Two clients share no open descriptor of a server that runs.\<close>

definition apart ::
  "('o, string, cluster) cenv \<Rightarrow> ('o, cluster) proc \<Rightarrow> ('o, string, cluster) cenv \<Rightarrow> ('o, cluster) proc
    \<Rightarrow> cluster \<Rightarrow> bool" where
  "apart e p e' q w \<longleftrightarrow> (\<forall>fd fd' a rfd. remote_end e p fd = Some (a, rfd) \<longrightarrow>
     remote_end e' q fd' = Some (a, rfd) \<longrightarrow> rfd = -1 \<or> w a = None)"

lemma apartD: "apart e p e' q w \<Longrightarrow> remote_end e p fd = Some (a, rfd) \<Longrightarrow>
    remote_end e' q fd' = Some (a, rfd) \<Longrightarrow> rfd = -1 \<or> w a = None"
  unfolding apart_def by metis

lemma apart_sym: "apart e p e' q w \<Longrightarrow> apart e' q e p w"
  unfolding apart_def by metis

lemma apart_fresh: "fresh_proc p \<Longrightarrow> apart e p e' q w"
  by (auto simp: apart_def fresh_proc_def dest: remote_end_SomeD)

lemma apart_later:
  assumes "apart e p e' q w" and "\<And>a. w a = None \<Longrightarrow> w' a = None"
    and "\<And>fd. remote_end e p' fd = None \<or> remote_end e p' fd = remote_end e p fd"
    and "\<And>fd. remote_end e' q' fd = None \<or> remote_end e' q' fd = remote_end e' q fd"
  shows "apart e p' e' q' w'"
  unfolding apart_def
proof (intro allI impI)
  fix fd fd' a rfd
  assume "remote_end e p' fd = Some (a, rfd)" and "remote_end e' q' fd' = Some (a, rfd)"
  with assms(3) [of fd] assms(4) [of fd'] have "remote_end e p fd = Some (a, rfd)"
    and "remote_end e' q fd' = Some (a, rfd)" by auto
  with apartD [OF assms(1)] assms(2) show "rfd = -1 \<or> w' a = None" by metis
qed

text \<open>A request of one client about its own descriptors is foreign to the other.\<close>

lemma own_is_foreign:
  "own_request e p a req \<Longrightarrow> apart e p e' q (net q) \<Longrightarrow> foreign e' q a req"
  unfolding own_request_def foreign_def by (metis apartD option.inject option.distinct(1))

text \<open>
  What a call of one client is for another: nothing, or one request that the system of the
  other allows; and the two stay apart.
\<close>

lemma effect_seen:
  assumes "client_effect e (fault_free dt lf) p q" and "apart e p (deployed e' dt lf) r (net p)"
    and "net r = net p"
  shows "(sys_step e' dt lf)\<^sup>*\<^sup>* r (r\<lparr>net := net q\<rparr>)"
proof -
  have other: ?thesis if "net q = request (fault_free dt lf) a rid req (net p)" "own_request e p a req"
    for a rid req
  proof -
    have "foreign (deployed e' dt lf) r a req"
      using own_is_foreign [OF that(2)] assms(2,3) by simp
    from sys_other [OF this, of rid] that(1) assms(3) show ?thesis by auto
  qed
  show ?thesis
    using assms(1)
  proof (cases rule: client_effect.cases)
    case eff_none
    then have "r\<lparr>net := net q\<rparr> = r" using assms(3) by (simp add: same_view_def)
    then show ?thesis by simp
  next
    case (eff_use fd a rfd req rid)
    then show ?thesis by (intro other) (auto simp: own_request_def)
  next
    case (eff_close fd a rfd rid)
    then show ?thesis by (intro other) (auto simp: own_request_def req_fd_def)
  next
    case (eff_open a s c out data s' rid fd)
    show ?thesis by (rule other [OF eff_open(3)]) (simp add: own_request_def req_fd_def)
  qed
qed

lemma effect_world:
  assumes "client_effect e env p q"
  shows "net q = net p \<or> (\<exists>a rid req. net q = request env a rid req (net p))"
  using assms by (cases rule: client_effect.cases) (metis same_view_def)+

text \<open>The descriptors that a client has after a call: those it had, or one the server did not use.\<close>

lemma effect_ends:
  assumes "client_effect e env p q" and "linked e p"
  shows "remote_end e q fd = None \<or> remote_end e q fd = remote_end e p fd \<or>
    (\<exists>a out s. remote_end e q fd = Some (a, out) \<and> net p a = Some s \<and> (out = -1 \<or> fdtab (disk s) out = None))"
  using assms(1)
proof (cases rule: client_effect.cases)
  case eff_none
  then show ?thesis using same_view_remote_end by blast
next
  case (eff_use fd' a rfd req rid)
  then show ?thesis using same_tables_remote_end by blast
next
  case (eff_close fd' a rfd rid)
  show ?thesis
  proof (cases "fd = fd'")
    case True
    with eff_close show ?thesis by (simp add: remote_end_def)
  next
    case False
    with eff_close have "remote_end e q fd = remote_end e p fd" by (intro remote_end_cong) simp_all
    then show ?thesis by blast
  qed
next
  case (eff_open a s c out data s' rid fd')
  show ?thesis
  proof (cases "fd = fd'")
    case True
    with eff_open(1,5) run_handler_opens [OF eff_open(2)] show ?thesis by blast
  next
    case False
    have "remote_end e q fd = None" if "remote_end e p fd = None"
    proof (rule ccontr)
      assume "remote_end e q fd \<noteq> None"
      then have "fd_map q fd \<noteq> None" by (auto dest: remote_end_SomeD)
      then obtain c' where "fd_map p fd = Some c'" using eff_open(6) False by auto
      from linked_parts(3) [OF assms(2) this] that show False by auto
    qed
    with eff_open(8) False show ?thesis by blast
  qed
qed

lemma effect_apart:
  assumes "client_effect e env p q" and "linked e p" and "linked e' r" and "net r = net p"
    and "apart e p e' r (net p)"
  shows "apart e q e' r (net q)"
  unfolding apart_def
proof (intro allI impI)
  fix fd fd' a rfd
  assume q: "remote_end e q fd = Some (a, rfd)" and r: "remote_end e' r fd' = Some (a, rfd)"
  have dead: "net p a = None \<Longrightarrow> net q a = None"
    using effect_world [OF assms(1)] dead_stays_dead by metis
  from effect_ends [OF assms(1,2), of fd] q consider "remote_end e p fd = Some (a, rfd)"
    | s where "net p a = Some s" "rfd = -1 \<or> fdtab (disk s) rfd = None" by auto
  then show "rfd = -1 \<or> net q a = None"
  proof cases
    case 1
    from apartD [OF assms(5) this r] dead show ?thesis by metis
  next
    case 2
    obtain c where "fd_map r fd' = Some c" using remote_end_SomeD [OF r] by blast
    from linked_parts(4) [OF assms(3) this r] have "rfd = -1 \<or> holds (net p) a rfd c"
      unfolding assms(4) by blast
    with 2 show ?thesis by (auto simp: holds_def)
  qed
qed

section \<open>The files of the nodes\<close>

text \<open>Nothing that a file had when the job started is ever changed on a node that runs.\<close>

definition keeps_files :: "cluster \<Rightarrow> cluster \<Rightarrow> bool" where
  "keeps_files w0 w \<longleftrightarrow> (\<forall>a s. w a = Some s \<longrightarrow> (\<exists>s0. w0 a = Some s0 \<and>
     (\<forall>c b. bytes_at (disk s0) c = Some b \<longrightarrow> bytes_at (disk s) c = Some b)))"

lemma keeps_files_refl: "keeps_files w w"
  by (simp add: keeps_files_def)

lemma keeps_files_step:
  assumes "keeps_files w0 w" and "w a = Some s"
    and "\<And>c b. bytes_at (disk s) c = Some b \<Longrightarrow> bytes_at (disk s') c = Some b"
  shows "keeps_files w0 (w(a \<mapsto> s'))"
  unfolding keeps_files_def
proof (intro allI impI)
  fix a' t
  assume t: "(w(a \<mapsto> s')) a' = Some t"
  show "\<exists>s0. w0 a' = Some s0 \<and> (\<forall>c b. bytes_at (disk s0) c = Some b \<longrightarrow> bytes_at (disk t) c = Some b)"
  proof (cases "a' = a")
    case True
    obtain s0 where "w0 a = Some s0" "\<forall>c b. bytes_at (disk s0) c = Some b \<longrightarrow> bytes_at (disk s) c = Some b"
      using assms(1,2) unfolding keeps_files_def by metis
    with True t assms(3) show ?thesis by (intro exI [of _ s0]) simp
  next
    case False
    with t have "w a' = Some t" by simp
    with assms(1) show ?thesis unfolding keeps_files_def by metis
  qed
qed

lemma run_handler_files:
  assumes "run_handler env req s = Inr (out, data, s')"
  shows "nodes (disk s') = nodes (disk s) \<and> resolve (disk s') = resolve (disk s)"
proof (cases req)
  case (Read_in i)
  with read_quiet [OF assms[unfolded Read_in]] show ?thesis by (simp add: quiet_def same_files_def)
qed (use assms in \<open>auto simp: run_handler_def hvac_open_rpc_handler_def hvac_seek_rpc_handler_def
  hvac_close_rpc_handler_def hvac_result Let_def case_prod_beta data_cond_signal_def
  split: option.splits if_splits\<close>)

lemma keeps_files_request:
  assumes "keeps_files w0 w"
  shows "keeps_files w0 (request env a rid req w)"
proof (cases rule: cluster_forward_cases [of env a rid req w])
  case (stops s)
  with assms show ?thesis unfolding keeps_files_def by (metis fun_upd_apply option.distinct(1))
next
  case (handled s out data s')
  have "bytes_at (disk s') c = bytes_at (disk s) c" for c
    using run_handler_files [OF handled(2)] by (intro bytes_at_cong) simp_all
  with keeps_files_step [OF assms handled(1), of s'] handled(3) show ?thesis by simp
qed (use assms in simp)

lemma keeps_files_mover:
  assumes "keeps_files w0 w" and "w a = Some s" and "mover_step s s'"
  shows "keeps_files w0 (w(a \<mapsto> s'))"
proof (rule keeps_files_step [OF assms(1,2)])
  fix c b
  assume b: "bytes_at (disk s) c = Some b"
  from assms(3) show "bytes_at (disk s') c = Some b"
  proof (cases rule: mover_step.cases)
    case step_spurious
    with b show ?thesis by simp
  next
    case step_wake
    with b show ?thesis by simp
  next
    case (step_copy mk ok)
    with b mover_copy_one_keeps_bytes show ?thesis by blast
  next
    case step_wait
    with b show ?thesis by simp
  qed
qed

section \<open>The invariant of a job\<close>

definition job_ok ::
  "(nat \<Rightarrow> ('o, string, cluster) cenv) \<Rightarrow> i64 \<Rightarrow> bool \<Rightarrow> cluster \<Rightarrow> 'o job \<Rightarrow> bool" where
  "job_ok es dt lf w0 J \<longleftrightarrow> (\<forall>i. linked (deployed (es i) dt lf) (client_of J i)) \<and>
     (\<forall>i j. i \<noteq> j \<longrightarrow> apart (deployed (es i) dt lf) (procs J i) (deployed (es j) dt lf) (procs J j) (world J)) \<and>
     keeps_files w0 (world J)"

lemma job_ok_parts:
  assumes "job_ok es dt lf w0 J"
  shows "linked (deployed (es i) dt lf) (client_of J i)" and "keeps_files w0 (world J)"
    and "i \<noteq> j \<Longrightarrow>
      apart (deployed (es i) dt lf) (procs J i) (deployed (es j) dt lf) (procs J j) (world J)"
  using assms by (simp_all add: job_ok_def)

lemma apart_client [simp]:
  "apart e (client_of J i) e' q w = apart e (procs J i) e' q w"
  "apart e p e' (client_of J j) w = apart e p e' (procs J j) w"
  "apart e p e' (q\<lparr>net := w'\<rparr>) w = apart e p e' q w"
  by (simp_all add: apart_def)

lemma linked_fresh:
  "servers_ok w \<Longrightarrow> fresh_proc p \<Longrightarrow> linked e (p\<lparr>net := w\<rparr>)"
  by (rule sys_start_linked) (simp add: sys_start_def fresh_proc_def)

lemma linked_steps: "linked (deployed e dt lf) p \<Longrightarrow> (sys_step e dt lf)\<^sup>*\<^sup>* p q \<Longrightarrow> linked (deployed e dt lf) q"
  using system.steps_inv by blast

text \<open>
  Seen from a client that does not end in it, a step of the job is a run of the system of this
  client: its own call, a step of a mover, or what others may do.
\<close>

lemma job_step_seen:
  assumes ok: "job_ok es dt lf w0 J" and "job_step es dt lf act J J'" and "act \<noteq> Exits i"
  shows "(sys_step (es i) dt lf)\<^sup>*\<^sup>* (client_of J i) (client_of J' i)"
  using assms(2)
proof (cases rule: job_step.cases)
  case (job_call k p)
  show ?thesis
  proof (cases "k = i")
    case True
    with job_call show ?thesis
      using sys_call [of "es i" dt lf "client_of J i" p] by (simp add: client_of_updates)
  next
    case False
    have eff: "client_effect (deployed (es k) dt lf) (fault_free dt lf) (client_of J k) p"
      using client_call_effect [OF job_call(3) job_ok_parts(1) [OF ok]] .
    from effect_seen [OF this, of "es i" "client_of J i"] job_ok_parts(3) [OF ok False] False
    show ?thesis by (simp add: job_call client_of_updates)
  qed
next
  case (job_dies k a req p rid)
  with assms(3) have ne: "k \<noteq> i" by auto
  have "foreign (deployed (es i) dt lf) (client_of J i) a req"
    by (rule own_is_foreign [OF job_dies(3)]) (use job_ok_parts(3) [OF ok ne] in simp)
  from sys_other [OF this, of rid] ne show ?thesis by (simp add: job_dies client_of_updates)
next
  case (job_ends p k)
  with assms(3) show ?thesis by (auto simp: client_of_updates)
next
  case (job_mover a s s')
  then show ?thesis
    using sys_mover [of "client_of J i" a s s' "es i" dt lf] by (simp add: client_of_updates)
qed

section \<open>Every reachable state of a job\<close>

lemma job_start_ok:
  assumes "job_start w0 J"
  shows "job_ok es dt lf w0 J"
proof -
  have "linked e (client_of J i)" for e i
    unfolding client_of_def by (rule linked_fresh) (use assms in \<open>simp_all add: job_start_def\<close>)
  moreover have "apart (deployed (es i) dt lf) (procs J i) e q w" for i e q w
    using assms by (intro apart_fresh) (simp add: job_start_def)
  moreover have "world J = w0" using assms by (simp add: job_start_def)
  ultimately show ?thesis by (simp add: job_ok_def keeps_files_refl)
qed

lemma job_step_keeps_files:
  assumes "job_ok es dt lf w0 J" and "job_step es dt lf act J J'"
  shows "keeps_files w0 (world J')"
  using assms(2)
proof (cases rule: job_step.cases)
  case (job_call k p)
  have "client_effect (deployed (es k) dt lf) (fault_free dt lf) (client_of J k) p"
    using client_call_effect [OF job_call(3) job_ok_parts(1) [OF assms(1)]] .
  from effect_world [OF this] show ?thesis
    using job_ok_parts(2) [OF assms(1)] keeps_files_request by (auto simp: job_call)
next
  case (job_dies k a req p rid)
  then show ?thesis using job_ok_parts(2) [OF assms(1)] keeps_files_request by auto
next
  case (job_ends p k)
  then show ?thesis using job_ok_parts(2) [OF assms(1)] by simp
next
  case (job_mover a s s')
  then show ?thesis using job_ok_parts(2) [OF assms(1)] keeps_files_mover by auto
qed

lemma job_step_linked:
  assumes "job_ok es dt lf w0 J" and "job_step es dt lf act J J'"
  shows "linked (deployed (es i) dt lf) (client_of J' i)"
proof (cases "act = Exits i")
  case False
  from linked_steps [OF job_ok_parts(1) [OF assms(1)] job_step_seen [OF assms False]] show ?thesis .
next
  case True
  have ok: "servers_ok (world J)" using linked_parts(1) [OF job_ok_parts(1) [OF assms(1)], of i] by simp
  from assms(2) show ?thesis
    unfolding True
    by (cases rule: job_step.cases)
      (auto simp: client_of_def intro!: linked_fresh ok servers_ok_request)
qed

text \<open>Descriptors of other clients after a step of client \<open>k\<close> that leaves \<open>k\<close> with the state \<open>p\<close>.\<close>

lemma apart_replace:
  assumes ok: "job_ok es dt lf w0 J" and "i \<noteq> j" and "\<And>a. world J a = None \<Longrightarrow> w a = None"
    and "\<And>j. j \<noteq> k \<Longrightarrow> apart (deployed (es k) dt lf) p (deployed (es j) dt lf) (procs J j) w"
  shows "apart (deployed (es i) dt lf) (((procs J)(k := p)) i) (deployed (es j) dt lf)
    (((procs J)(k := p)) j) w"
proof -
  consider "i = k" | "j = k" "i \<noteq> k" | "i \<noteq> k" "j \<noteq> k" by blast
  then show ?thesis
  proof cases
    case 1
    then show ?thesis using assms(2) assms(4) [of j] by simp
  next
    case 2
    then show ?thesis using apart_sym [OF assms(4) [of i]] by simp
  next
    case 3
    then show ?thesis
      using apart_later [OF job_ok_parts(3) [OF ok assms(2)] assms(3)] by simp
  qed
qed

lemma job_step_apart:
  assumes ok: "job_ok es dt lf w0 J" and "job_step es dt lf act J J'" and "i \<noteq> j"
  shows "apart (deployed (es i) dt lf) (procs J' i) (deployed (es j) dt lf) (procs J' j) (world J')"
  using assms(2)
proof (cases rule: job_step.cases)
  case (job_call k p)
  let ?E = "\<lambda>i. deployed (es i) dt lf"
  have eff: "client_effect (?E k) (fault_free dt lf) (client_of J k) p"
    using client_call_effect [OF job_call(3) job_ok_parts(1) [OF ok]] .
  have dead: "world J a = None \<Longrightarrow> net p a = None" for a
    using effect_world [OF eff] dead_stays_dead by (metis client_of_simps(1))
  have "apart (?E k) p (?E j) (procs J j) (net p)" if "j \<noteq> k" for j
    using effect_apart [OF eff job_ok_parts(1) [OF ok] job_ok_parts(1) [OF ok, of j]]
      job_ok_parts(3) [OF ok that [symmetric]] by simp
  from apart_replace [OF ok assms(3) dead this] show ?thesis by (simp add: job_call)
next
  case (job_dies k a req p rid)
  from apart_replace [OF ok assms(3) dead_stays_dead apart_fresh [OF job_dies(4)]]
  show ?thesis by (simp add: job_dies)
next
  case (job_ends p k)
  from apart_replace [OF ok assms(3) _ apart_fresh [OF job_ends(3)]]
  show ?thesis by (simp add: job_ends)
next
  case (job_mover a s s')
  have "apart (deployed (es i) dt lf) (procs J i) (deployed (es j) dt lf) (procs J j) ((world J)(a \<mapsto> s'))"
    by (rule apart_later [OF job_ok_parts(3) [OF ok assms(3)]]) (use job_mover in auto)
  then show ?thesis by (simp add: job_mover)
qed

interpretation job: inductive_invariant "job_start w0" "\<lambda>J J'. \<exists>act. job_step es dt lf act J J'"
  "job_ok es dt lf w0" for es dt lf w0
proof unfold_locales
  fix J J' :: "'a job"
  assume "job_ok es dt lf w0 J" and "\<exists>act. job_step es dt lf act J J'"
  then obtain act where s: "job_ok es dt lf w0 J" "job_step es dt lf act J J'" by blast
  show "job_ok es dt lf w0 J'"
    unfolding job_ok_def using job_step_linked [OF s] job_step_apart [OF s] job_step_keeps_files [OF s]
    by blast
qed (rule job_start_ok)

end
