(* ===== verification/Job_Reads.thy ===== *)
theory Job_Reads
  imports Job
begin

text \<open>
  What the clients of a job see: each tracked descriptor shows the file of its path as it was
  when the job started, and its reads, however they interleave with the calls of other clients
  and with the movers, return the file's bytes in order.
\<close>

section \<open>Reading in a job\<close>

text \<open>
  A tracked descriptor of any client shows the file of its path as it was when the job
  started, and reading from it leaves every other descriptor of every client where it is.
\<close>

lemma job_view_bytes:
  assumes "job_ok es dt lf w0 J" and "tracked_view (deployed (es i) dt lf) (client_of J i) fd = Some (b, pos)"
  shows "\<exists>a s s0 c. world J a = Some s \<and> fd_map (procs J i) fd = Some c \<and> w0 a = Some s0 \<and>
    (c = [] \<or> bytes_at (disk s) c = Some b \<and> (\<forall>b0. bytes_at (disk s0) c = Some b0 \<longrightarrow> b = b0))"
proof -
  obtain a s c where s: "world J a = Some s" "fd_map (procs J i) fd = Some c"
    "c = [] \<or> bytes_at (disk s) c = Some b"
    using tracked_view_bytes [OF job_ok_parts(1) [OF assms(1)] assms(2)] by auto
  obtain s0 where s0: "w0 a = Some s0" "\<forall>c b. bytes_at (disk s0) c = Some b \<longrightarrow> bytes_at (disk s) c = Some b"
    using job_ok_parts(2) [OF assms(1)] s(1) unfolding keeps_files_def by metis
  with s show ?thesis by (metis option.inject)
qed

lemma tracked_view_end:
  assumes "tracked_view e p fd = Some v" and "servers_ok (net p)"
  shows "\<exists>a rfd s. remote_end e p fd = Some (a, rfd) \<and> net p a = Some s \<and> rfd \<noteq> -1"
proof -
  from remote_view_SomeD [OF assms(1)] obtain a rfd where
    e: "remote_end e p fd = Some (a, rfd)" and v: "cluster_view (net p) a rfd = Some v" by blast
  then obtain s where s: "net p a = Some s" "fd_view (disk s) rfd = Some v"
    by (auto simp: cluster_view_def split: option.splits)
  moreover have "server_ok s" using assms(2) s(1) by (auto simp: servers_ok_def)
  ultimately have "rfd \<noteq> -1" by (auto simp: server_ok_def fds_ok_def fd_view_def)
  with e s(1) show ?thesis by blast
qed

text \<open>A change of one descriptor of the servers is not seen through another.\<close>

lemma tracked_view_undisturbed:
  assumes "undisturbed cluster_view cluster_serves a rfd (net p) w"
    and "remote_end e p fd \<noteq> Some (a, rfd)"
  shows "tracked_view e (p\<lparr>net := w\<rparr>) fd = tracked_view e p fd"
  using assms
  by (auto simp: remote_view_def redirect_off_def undisturbed_def split: option.split)

lemma job_read_alone:
  assumes ok: "job_ok es dt lf w0 J"
    and v: "tracked_view (deployed (es i) dt lf) (client_of J i) fd = Some (b, pos)" and n: "n \<le> max_rw"
  shows "\<exists>p. hvac_read (deployed (es i) dt lf) fd (client_of J i) n = Some (take n (drop pos b), p) \<and>
    tracked_view (deployed (es i) dt lf) p fd = Some (b, pos + length (take n (drop pos b))) \<and>
    (\<forall>j fd' v. (j, fd') \<noteq> (i, fd) \<longrightarrow> tracked_view (deployed (es j) dt lf) (client_of J j) fd' = Some v \<longrightarrow>
       tracked_view (deployed (es j) dt lf) (client_of (J\<lparr>world := net p, procs := (procs J)(i := p)\<rparr>) j) fd'
         = Some v)"
proof -
  let ?E = "\<lambda>i. deployed (es i) dt lf"
  let ?d = "take n (drop pos b)"
  obtain p where p: "wrap_read (?E i) fd (Some (replicate n 0)) (of_nat n) (client_of J i)
      = Inr (of_nat (length ?d), Some (overlay ?d (replicate n 0)), p)"
    "tracked_view (?E i) p fd = Some (b, pos + length ?d)"
    "\<forall>fd'. remote_end (?E i) (client_of J i) fd' \<noteq> remote_end (?E i) (client_of J i) fd \<longrightarrow>
       tracked_view (?E i) p fd' = tracked_view (?E i) (client_of J i) fd'"
    "\<exists>a rfd. remote_end (?E i) (client_of J i) fd = Some (a, rfd) \<and>
       undisturbed cluster_view cluster_serves a rfd (net (client_of J i)) (net p)"
    using cluster.wrap_read_law [OF deployed_simps(1,2,3) v n, of "replicate n 0"] by blast
  have len: "length ?d < 2 ^ 31" using n by (simp add: max_rw_def)
  have read: "hvac_read (?E i) fd (client_of J i) n = Some (?d, p)"
    using p(1) take_pushed [OF len] of_nat_neq_minus_one [OF len] by (simp add: hvac_read_def)
  have other: "tracked_view (?E j) (client_of (J\<lparr>world := net p, procs := (procs J)(i := p)\<rparr>) j) fd' = Some v'"
    if ne: "(j, fd') \<noteq> (i, fd)" and v': "tracked_view (?E j) (client_of J j) fd' = Some v'" for j fd' v'
  proof -
    have "servers_ok (world J)" using linked_parts(1) [OF job_ok_parts(1) [OF ok], of i] by simp
    with tracked_view_end [OF v'] obtain a' rfd' s' where
      e': "remote_end (?E j) (client_of J j) fd' = Some (a', rfd')" "world J a' = Some s'" "rfd' \<noteq> -1" by auto
    show ?thesis
    proof (cases "j = i")
      case True
      have "remote_end (?E i) (client_of J i) fd' \<noteq> remote_end (?E i) (client_of J i) fd"
        using linked_parts(5) [OF job_ok_parts(1) [OF ok], of fd' fd i a' rfd'] e' ne True by auto
      with p(3) v' show ?thesis unfolding True by (simp add: client_of_updates)
    next
      case False
      obtain a rfd where u: "remote_end (?E i) (procs J i) fd = Some (a, rfd)"
        "undisturbed cluster_view cluster_serves a rfd (world J) (net p)" using p(4) by auto
      have "remote_end (?E j) (client_of J j) fd' \<noteq> Some (a, rfd)"
        using apartD [OF job_ok_parts(3) [OF ok False], of fd' a rfd fd] u(1) e' by auto
      with tracked_view_undisturbed [of a rfd "client_of J j" "net p"] u(2) v' False show ?thesis
        by (simp add: client_of_updates)
    qed
  qed
  show ?thesis using read p(2) other by blast
qed

section \<open>Reads of one client among the steps of the others\<close>

text \<open>What a request about another descriptor, or a mover's step, leaves of an open one.\<close>

lemma run_handler_view:
  assumes "run_handler env req s = Inr (out, data, s')" and "req_fd req \<noteq> Some rfd"
    and "fdtab (disk s) rfd \<noteq> None"
  shows "fd_view (disk s') rfd = fd_view (disk s) rfd \<and> registry s' = registry s"
proof -
  have "fdtab (disk s') rfd = fdtab (disk s) rfd \<and> registry s' = registry s"
  proof (cases req)
    case (Open_in i)
    have "fdtab (snd (posix_open (disk s) q)) rfd = fdtab (disk s) rfd" for q
      using assms(3) by (cases rule: posix_open_cases [of "disk s" q]) (auto dest: alloc_fd_free)
    with assms(1) show ?thesis unfolding Open_in
      by (cases "path_cache_map s (in_path i)")
        (auto simp: run_handler_def hvac_open_rpc_handler_def hvac_result Let_def case_prod_beta)
  next
    case (Read_in i)
    then have "accessfd i \<noteq> rfd" using assms(2) by (simp add: req_fd_def)
    with assms(1) show ?thesis unfolding Read_in
      by (auto simp: run_handler_def hvac_rpc_handler_def server_file_call_def posix_read_def hvac_result
        Let_def case_prod_beta split: option.splits if_splits)
  next
    case (Seek_in i)
    then have "seek_fd i \<noteq> rfd" using assms(2) by (simp add: req_fd_def)
    with assms(1) show ?thesis unfolding Seek_in
      by (auto simp: run_handler_def hvac_seek_rpc_handler_def posix_lseek_def hvac_result case_prod_beta
        split: option.splits if_splits)
  next
    case (Close_in i)
    then have "close_fd i \<noteq> rfd" using assms(2) by (simp add: req_fd_def)
    with assms(1) show ?thesis unfolding Close_in
      by (auto simp: run_handler_def hvac_close_rpc_handler_def posix_close_def hvac_result Let_def
        case_prod_beta data_cond_signal_def split: if_splits)
  qed
  moreover have "file_bytes (disk s') c = file_bytes (disk s) c" for c
    using run_handler_files [OF assms(1)] by (simp add: file_bytes_def)
  ultimately show ?thesis by (simp add: fd_view_def split: option.split)
qed

lemma mover_step_view:
  assumes "mover_step s s'" and "fd_view (disk s) rfd = Some v"
  shows "fd_view (disk s') rfd = Some v \<and> registry s' = registry s"
  using assms(1)
proof (cases rule: mover_step.cases)
  case step_spurious
  with assms(2) show ?thesis by simp
next
  case step_wake
  with assms(2) show ?thesis by simp
next
  case (step_copy mk ok)
  have grow: "fd_view (ps\<lparr>nodes := (nodes ps)(c \<mapsto> n)\<rparr>) rfd = Some v"
    if "fd_view ps rfd = Some v" "nodes ps c = None" for ps c n
    using that by (auto simp: fd_view_def file_bytes_def split: option.splits)
  obtain ps where ps: "ps = disk s \<or> (\<exists>c n. nodes (disk s) c = None \<and> ps = (disk s)\<lparr>nodes := (nodes (disk s))(c \<mapsto> n)\<rparr>)"
    and ps': "disk s' = ps \<or> (\<exists>c n. nodes ps c = None \<and> disk s' = ps\<lparr>nodes := (nodes ps)(c \<mapsto> n)\<rparr>)"
    using mover_copy_one_disk [OF step_copy(3), of ok] step_copy(1) by blast
  have "fd_view ps rfd = Some v" using ps assms(2) grow by auto
  with ps' grow have "fd_view (disk s') rfd = Some v" by auto
  with step_copy(1) show ?thesis by simp
next
  case step_wait
  with assms(2) show ?thesis by simp
qed

lemma foreign_view:
  assumes "foreign e p a' req" and "w = request env a' rid req (net p)"
    and "tracked_view e p fd = Some v" and "servers_ok (net p)" and "\<And>a. net p a \<noteq> None \<Longrightarrow> w a \<noteq> None"
  shows "tracked_view e (p\<lparr>net := w\<rparr>) fd = Some v"
proof -
  obtain a rfd s where e: "remote_end e p fd = Some (a, rfd)" "net p a = Some s" "rfd \<noteq> -1"
    using tracked_view_end [OF assms(3,4)] by blast
  have fv: "fd_view (disk s) rfd = Some v"
    using remote_view_SomeD [OF assms(3)] e by (auto simp: cluster_view_def)
  have "\<exists>s'. w a = Some s' \<and> fd_view (disk s') rfd = Some v \<and> registry s' = registry s"
  proof (cases rule: cluster_forward_cases [of env a' rid req "net p"])
    case same
    then show ?thesis using e(2) fv by (simp add: assms(2))
  next
    case (stops t)
    then have "w a' = None" and "net p a' \<noteq> None" by (simp_all add: assms(2))
    then show ?thesis using assms(5) by blast
  next
    case (handled t out data t')
    show ?thesis
    proof (cases "a' = a")
      case True
      then have "req_fd req \<noteq> Some rfd" using assms(1) e by (auto simp: foreign_def)
      moreover have "t = s" using handled(1) e(2) True by simp
      moreover have "fdtab (disk s) rfd \<noteq> None" using fv by (auto simp: fd_view_def split: option.splits)
      ultimately show ?thesis
        using run_handler_view [OF handled(2), of rfd] fv handled(3) True by (simp add: assms(2))
    next
      case False
      then show ?thesis using e(2) fv handled(3) by (simp add: assms(2))
    qed
  qed
  then show ?thesis using assms(3) e
    by (auto simp: remote_view_def redirect_off_def cluster_view_def cluster_serves_def split: if_splits)
qed

text \<open>A step that no other client's end and no end of \<open>i\<close> itself is in.\<close>

lemma effect_view:
  assumes eff: "client_effect e (fault_free dt lf) p q" and ap: "apart e p e' r (net p)"
    and r: "net r = net p" "servers_ok (net p)" and v: "tracked_view e' r fd = Some v"
    and up: "\<And>a. net p a \<noteq> None \<Longrightarrow> net q a \<noteq> None"
  shows "tracked_view e' (r\<lparr>net := net q\<rparr>) fd = Some v"
proof -
  have other: ?thesis if q: "net q = request (fault_free dt lf) a rid req (net p)" and o: "own_request e p a req"
    for a rid req
  proof (rule foreign_view [OF _ _ v])
    show "foreign e' r a req" using own_is_foreign [OF o] ap r(1) by simp
    show "net q = request (fault_free dt lf) a rid req (net r)" using q r(1) by simp
    show "servers_ok (net r)" using r by simp
    show "net r a \<noteq> None \<Longrightarrow> net q a \<noteq> None" for a using up r(1) by simp
  qed
  show ?thesis
    using eff
  proof (cases rule: client_effect.cases)
    case eff_none
    then have "r\<lparr>net := net q\<rparr> = r" using r(1) by (simp add: same_view_def)
    then show ?thesis using v by simp
  next
    case (eff_use fd a rfd req rid)
    then show ?thesis by (intro other) (auto simp: own_request_def)
  next
    case (eff_close fd a rfd rid)
    then show ?thesis by (intro other) (auto simp: own_request_def req_fd_def)
  next
    case (eff_open a s c out data s' rid fd)
    show ?thesis by (rule other [OF eff_open(3)]) (simp add: own_request_def req_fd_def)
  qed
qed

definition servers_stay :: "'o job \<Rightarrow> 'o job \<Rightarrow> bool" where
  "servers_stay J J' \<longleftrightarrow> (\<forall>a. world J a \<noteq> None \<longrightarrow> world J' a \<noteq> None)"

text \<open>What the others do, as long as no server stops, does not move a client's descriptor.\<close>

lemma job_step_view:
  assumes ok: "job_ok es dt lf w0 J" and "job_step es dt lf act J J'" and "act \<noteq> Exits i" and "act \<noteq> Call i"
    and "servers_stay J J'" and v: "tracked_view (deployed (es i) dt lf) (client_of J i) fd = Some v"
  shows "tracked_view (deployed (es i) dt lf) (client_of J' i) fd = Some v"
  using assms(2)
proof (cases rule: job_step.cases)
  case (job_call k p)
  with assms(4) have ne: "k \<noteq> i" by auto
  have eff: "client_effect (deployed (es k) dt lf) (fault_free dt lf) (client_of J k) p"
    using client_call_effect [OF job_call(3) job_ok_parts(1) [OF ok]] .
  have "tracked_view (deployed (es i) dt lf) ((client_of J i)\<lparr>net := net p\<rparr>) fd = Some v"
  proof (rule effect_view [OF eff _ _ _ v])
    show "apart (deployed (es k) dt lf) (client_of J k) (deployed (es i) dt lf) (client_of J i) (net (client_of J k))"
      using job_ok_parts(3) [OF ok ne] by simp
    show "servers_ok (net (client_of J k))" by (rule linked_parts(1) [OF job_ok_parts(1) [OF ok]])
    show "net (client_of J k) a \<noteq> None \<Longrightarrow> net p a \<noteq> None" for a
      using assms(5) by (simp add: servers_stay_def job_call)
  qed simp
  with ne show ?thesis by (simp add: job_call client_of_updates)
next
  case (job_dies k a req p rid)
  with assms(3) have ne: "k \<noteq> i" by auto
  have "foreign (deployed (es i) dt lf) (client_of J i) a req"
    by (rule own_is_foreign [OF job_dies(3)]) (use job_ok_parts(3) [OF ok ne] in simp)
  from foreign_view [OF this refl v] linked_parts(1) [OF job_ok_parts(1) [OF ok], of i] assms(5) ne
  show ?thesis by (auto simp: job_dies client_of_updates servers_stay_def)
next
  case (job_ends p k)
  with assms(3) v show ?thesis by (auto simp: client_of_updates)
next
  case (job_mover a s s')
  have "servers_ok (net (client_of J i))" by (rule linked_parts(1) [OF job_ok_parts(1) [OF ok]])
  from tracked_view_end [OF v this] remote_view_SomeD [OF v] obtain a' rfd t where
    e: "remote_end (deployed (es i) dt lf) (client_of J i) fd = Some (a', rfd)" "world J a' = Some t"
      "fd_view (disk t) rfd = Some v" by (auto simp: cluster_view_def)
  have "\<exists>t'. ((world J)(a \<mapsto> s')) a' = Some t' \<and> fd_view (disk t') rfd = Some v \<and> registry t' = registry t"
  proof (cases "a' = a")
    case True
    then have "t = s" using e(2) job_mover(3) by simp
    with mover_step_view [OF job_mover(4), of rfd v] e(3) True show ?thesis by simp
  qed (use e in simp)
  then show ?thesis using v e
    by (auto simp: job_mover client_of_updates remote_view_def redirect_off_def cluster_view_def
        cluster_serves_def split: if_splits)
qed

text \<open>
  Reads of client \<open>i\<close> on \<open>fd\<close>, with the sizes asked for and the bytes received, among any steps
  of the other clients and the movers in which no server stops.
\<close>

inductive read_run ::
  "(nat \<Rightarrow> ('o, string, cluster) cenv) \<Rightarrow> i64 \<Rightarrow> bool \<Rightarrow> nat \<Rightarrow> cint \<Rightarrow> 'o job \<Rightarrow> (nat \<times> byte list) list
    \<Rightarrow> 'o job \<Rightarrow> bool"
  for es :: "nat \<Rightarrow> ('o, string, cluster) cenv" and dt :: i64 and lf :: bool and i :: nat and fd :: cint where
  run_done: "read_run es dt lf i fd J [] J"
| run_read: "hvac_read (deployed (es i) dt lf) fd (client_of J i) n = Some (d, p) \<Longrightarrow> n \<le> max_rw \<Longrightarrow>
    read_run es dt lf i fd (J\<lparr>world := net p, procs := (procs J)(i := p)\<rparr>) ds J' \<Longrightarrow>
    read_run es dt lf i fd J ((n, d) # ds) J'"
| run_other: "job_step es dt lf act J J1 \<Longrightarrow> act \<noteq> Call i \<Longrightarrow> act \<noteq> Exits i \<Longrightarrow> servers_stay J J1 \<Longrightarrow>
    read_run es dt lf i fd J1 ds J' \<Longrightarrow> read_run es dt lf i fd J ds J'"

lemma hvac_read_step:
  assumes "hvac_read (deployed (es i) dt lf) fd (client_of J i) n = Some (d, p)"
  shows "job_step es dt lf (Call i) J (J\<lparr>world := net p, procs := (procs J)(i := p)\<rparr>)"
  using assms by (intro job_call) (auto simp: hvac_read_def intro: call_read split: sum.splits option.splits if_splits)

lemma read_run_bytes:
  "read_run es dt lf i fd J ds J' \<Longrightarrow> job_ok es dt lf w0 J \<Longrightarrow>
   tracked_view (deployed (es i) dt lf) (client_of J i) fd = Some (b, pos) \<Longrightarrow>
   concat (map snd ds) = take (sum_list (map fst ds)) (drop pos b) \<and>
   tracked_view (deployed (es i) dt lf) (client_of J' i) fd = Some (b, pos + length (concat (map snd ds)))"
proof (induction arbitrary: pos rule: read_run.induct)
  case (run_done J)
  then show ?case by simp
next
  case (run_read J n d p ds J')
  let ?J = "J\<lparr>world := net p, procs := (procs J)(i := p)\<rparr>"
  obtain p' where p': "hvac_read (deployed (es i) dt lf) fd (client_of J i) n = Some (take n (drop pos b), p')"
    "tracked_view (deployed (es i) dt lf) p' fd = Some (b, pos + length (take n (drop pos b)))"
    using job_read_alone [OF run_read.prems run_read.hyps(2)] by blast
  with run_read.hyps(1) have d: "d = take n (drop pos b)" "p' = p" by simp_all
  have "job_ok es dt lf w0 ?J"
    using job.inv_step [OF run_read.prems(1)] hvac_read_step run_read.hyps(1) by blast
  moreover have "tracked_view (deployed (es i) dt lf) (client_of ?J i) fd = Some (b, pos + length d)"
    using p'(2) by (simp add: d client_of_updates)
  ultimately have "concat (map snd ds) = take (sum_list (map fst ds)) (drop (pos + length d) b) \<and>
    tracked_view (deployed (es i) dt lf) (client_of J' i) fd = Some (b, pos + length d + length (concat (map snd ds)))"
    by (rule run_read.IH)
  moreover have "take n (drop pos b) @ take m (drop (pos + length (take n (drop pos b))) b) = take (n + m) (drop pos b)"
    for m by (rule take_then_take)
  ultimately show ?case by (simp add: d(1) add.assoc)
next
  case (run_other act J J1 ds J')
  have "job_ok es dt lf w0 J1" using job.inv_step [OF run_other.prems(1)] run_other.hyps(1) by blast
  from run_other.IH [OF this job_step_view [OF run_other.prems(1) run_other.hyps(1,3,2,4) run_other.prems(2)]]
  show ?case .
qed

end
