(* ===== verification/Startup.thy ===== *)
theory Startup
  imports Server_Facts Client_Facts
begin

text \<open>
  Bringing a job up: what the server's \<open>main\<close> and the client's constructor leave behind, how
  the addresses that servers publish are found by clients, and that both sides give the four
  RPCs the same identifiers.
\<close>

section \<open>Server start\<close>

text \<open>The daemon before \<open>main\<close>: the globals' initial values, on a node with a given disk.\<close>

definition server_boot :: "posix \<Rightarrow> server" where
  "server_boot ps = \<lparr>hg_class = False, hg_context = False, shutdown_flags = False,
     hvac_server_rank = -1, server_rank = -1, progress_threads = 0, registry = (\<lambda>_. None),
     no_response = [], disk = ps, fd_to_path = (\<lambda>_. None), path_cache_map = (\<lambda>_. None),
     data_queue = [], mover = Mover_not_started, nvmepath = [], local_list = [],
     log_buffer = [], time_logs = (\<lambda>_. []), hvac_server_count = 0\<rparr>"

text \<open>Mercury gives different names different identifiers.\<close>

definition ids_distinct :: "hg_env \<Rightarrow> bool" where
  "ids_distinct env \<longleftrightarrow> distinct (map (hg_register env) rpc_names)"

definition dispatch_ok :: "hg_env \<Rightarrow> (i64 \<rightharpoonup> rpc_kind) \<Rightarrow> bool" where
  "dispatch_ok env reg \<longleftrightarrow> (\<forall>k. reg (hg_register env (rpc_name_of k)) = Some k)"

lemma register_rpcs_dispatch:
  assumes "ids_distinct env" and "hg_disable_response env"
  shows "\<exists>reg no. register_rpcs env c = Inr (c\<lparr>no_response := no, registry := reg\<rparr>) \<and>
    dispatch_ok env reg \<and> no = hg_register env ''hvac_close_rpc'' # no_response c"
  using assms
  by (auto simp: register_rpcs_def register_defs dispatch_ok_def ids_distinct_def rpc_names_def
      rpc_name_of_def Let_def split: rpc_kind.split)

text \<open>The client registers in another order, and its identifiers are the server's.\<close>

lemma client_register_ids:
  assumes "ids_distinct env" and "hg_disable_response env"
  shows "\<exists>p'. hvac_client_comm_register_rpc env p = Inr p' \<and> dispatch_ok env (registry p') \<and>
    hvac_client_open_id p' = hg_register env (rpc_name_of K_open) \<and>
    hvac_client_rpc_id p' = hg_register env (rpc_name_of K_read) \<and>
    hvac_client_close_id p' = hg_register env (rpc_name_of K_close) \<and>
    hvac_client_seek_id p' = hg_register env (rpc_name_of K_seek)"
  using assms
  by (auto simp: hvac_client_comm_register_rpc_def register_defs dispatch_ok_def ids_distinct_def
      rpc_names_def rpc_name_of_def Let_def split: rpc_kind.split)

text \<open>What the environment must provide for the daemon to come up.\<close>

definition server_env_ok :: "hg_env \<Rightarrow> (string \<Rightarrow> string option) \<Rightarrow> bool" where
  "server_env_ok env ge \<longleftrightarrow> ids_distinct env \<and> hg_disable_response env \<and>
     ge ''BBPATH'' \<noteq> None \<and> ge ''PMI_RANK'' \<noteq> None \<and>
     (\<exists>job. ge ''SLURM_JOBID'' = Some job \<and> ports_name_fits job) \<and> length (hg_self_addr env) < PATH_MAX"

lemma server_main_starts:
  assumes "server_env_ok env ge" and "fds_ok ps" and "2 \<le> length argv"
    and "0 \<le> sint pid" and "sint pid < 100000"
  shows "\<exists>s' rank job. server_main env ge notice rc pid True True argv (server_boot ps) cfg
      = Inr (s', cfg(ports_cfg_name job := cfg (ports_cfg_name job) @ ports_line (atoi rank) (hg_self_addr env))) \<and>
    ge ''PMI_RANK'' = Some rank \<and> ge ''SLURM_JOBID'' = Some job \<and>
    server_started s' \<and> dispatch_ok env (registry s') \<and> disk s' = ps \<and>
    server_rank s' = atoi rank \<and> hvac_server_count s' = atoi (argv ! 1)"
proof -
  obtain bb rank job where g: "ge ''BBPATH'' = Some bb" "ge ''PMI_RANK'' = Some rank"
      "ge ''SLURM_JOBID'' = Some job" "ports_name_fits job" "length (hg_self_addr env) < PATH_MAX"
    using assms(1) by (auto simp: server_env_ok_def)
  define s0 where "s0 = (server_boot ps)\<lparr>hvac_server_count := atoi (argv ! 1)\<rparr>"
  obtain s2 where s2: "and_then (mover_start ge s0) (hvac_init_comm env ge True) = Inr s2"
    by (simp add: mover_start_def hvac_init_comm_def g Let_def)
  then have f: "server_started s2" "disk s2 = ps" "server_rank s2 = atoi rank"
      "hvac_server_rank s2 = atoi rank" "hvac_server_count s2 = atoi (argv ! 1)"
    using assms(2)
    by (auto simp: s0_def mover_start_def hvac_init_comm_def g Let_def server_boot_def
        server_started_def split: if_splits)
  obtain reg no where r: "register_rpcs env s2 = Inr (s2\<lparr>no_response := no, registry := reg\<rparr>)"
      "dispatch_ok env reg"
    using register_rpcs_dispatch [of env s2] assms(1) by (auto simp: server_env_ok_def)
  obtain l where l: "hvac_init_logging HVAC_SERVER notice rc ge pid = Inr l"
    using init_logging_returns [OF assms(4,5)] by blast
  have "server_main env ge notice rc pid True True argv (server_boot ps) cfg
      = Inr (s2\<lparr>no_response := no, registry := reg\<rparr>,
          cfg(ports_cfg_name job := cfg (ports_cfg_name job) @ ports_line (atoi rank) (hg_self_addr env)))"
    using assms(3) r(1) f(4)
    unfolding server_main_def l Let_def and_then_simps hvac_start_comm_server_def s0_def [symmetric] if_True
      and_then_assoc [symmetric] s2
    by (simp add: hvac_comm_list_addr_def g not_le Let_def)
  then show ?thesis using f r(2) g by (auto simp: server_started_def)
qed

section \<open>Finding the servers\<close>

text \<open>What a group of servers of one job leaves in the file, started in this order.\<close>

fun start_servers ::
  "(string \<Rightarrow> string option) \<Rightarrow> (hg_env \<times> cint) list \<Rightarrow> (path \<Rightarrow> string) \<Rightarrow> (path \<Rightarrow> string) outcome" where
  "start_servers ge [] cfg = Inr cfg"
| "start_servers ge ((env, rank) # es) cfg =
     and_then (hvac_comm_list_addr env ge True (comm_start\<lparr>hvac_server_rank := rank\<rparr>) cfg)
       (start_servers ge es)"

lemma start_servers_file:
  "ge ''SLURM_JOBID'' = Some job \<Longrightarrow> start_servers ge es cfg = Inr cfg' \<Longrightarrow>
   cfg' (ports_cfg_name job)
     = cfg (ports_cfg_name job) @ ports_file (map (\<lambda>(env, rank). (rank, hg_self_addr env)) es) \<and>
   (es \<noteq> [] \<longrightarrow> ports_name_fits job)"
proof (induction es arbitrary: cfg)
  case Nil
  then show ?case by (simp add: ports_file_def)
next
  case (Cons a es)
  obtain env rank where a: "a = (env, rank)" by (cases a)
  with Cons.prems obtain cfg1 where c: "hvac_comm_list_addr env ge True (comm_start\<lparr>hvac_server_rank := rank\<rparr>) cfg = Inr cfg1"
    "start_servers ge es cfg1 = Inr cfg'"
    by (auto simp: and_then_eq_Inr)
  with Cons.prems(1) have "ports_name_fits job"
    "cfg1 = cfg(ports_cfg_name job := cfg (ports_cfg_name job) @ ports_line rank (hg_self_addr env))"
    by (auto simp: hvac_comm_list_addr_def Let_def split: if_splits)
  with Cons.IH [OF Cons.prems(1) c(2)] show ?case by (simp add: a ports_file_def)
qed

lemma lookup_addr_published:
  assumes "getenv e ''SLURM_JOBID'' = Some job" and "address_cache p rank = None"
    and "read_config e (os p) (ports_cfg_name job) = Some (ports_file es)"
    and "list_all (\<lambda>(r, a). address_ok a) es" and "map_of es rank = Some str"
    and "hg_lookup e str = Some a" and "ports_name_fits job"
  shows "hvac_client_comm_lookup_addr e rank p
    = Inr (a, (l4c p)\<lparr>address_cache := (address_cache p)(rank \<mapsto> str)\<rparr>)"
  using assms by (simp add: hvac_client_comm_lookup_addr_def scan_ports_file)

lemma lookup_addr_missing:
  assumes "getenv e ''SLURM_JOBID'' = Some job" and "address_cache p rank = None"
    and "read_config e (os p) (ports_cfg_name job) = Some (ports_file es)"
    and "list_all (\<lambda>(r, a). address_ok a) es" and "map_of es rank = None"
  shows "hvac_client_comm_lookup_addr e rank p = Inl Undefined_behaviour"
  using assms by (simp add: hvac_client_comm_lookup_addr_def scan_ports_file)

text \<open>The servers that a hash can choose.\<close>

lemma host_index_bound:
  assumes "g_hvac_server_count p \<noteq> 0" and "uint (g_hvac_server_count p) \<le> 2 ^ 31"
  shows "0 \<le> sint (host_index e p path) \<and> sint (host_index e p path) < uint (g_hvac_server_count p)"
proof -
  let ?n = "ucast (g_hvac_server_count p) :: i64"
  have n: "uint ?n = uint (g_hvac_server_count p)"
    by (simp add: unsigned_ucast_eq take_bit_int_eq_self unsigned_less [THEN less_trans])
  have "uint (g_hvac_server_count p) \<noteq> 0" using assms(1) by (simp add: unsigned_eq_0_iff)
  then have "0 < uint ?n" using n by (simp add: order_less_le)
  then have m: "uint (strhash e path mod ?n) < uint (g_hvac_server_count p)"
    using n by (simp add: uint_mod)
  then have "uint (strhash e path mod ?n) < 2 ^ 31" using assms(2) by linarith
  then have s: "sint (strhash e path mod ?n) = uint (strhash e path mod ?n)"
    unfolding sint_uint by (intro signed_take_bit_int_eq_self) (use unsigned_greater_eq in \<open>simp_all add: order_trans [of _ 0]\<close>)
  moreover have "- (2 ^ 31) \<le> uint (strhash e path mod ?n)"
    by (rule order_trans [of _ 0]) simp_all
  ultimately have "sint (host_index e p path) = uint (strhash e path mod ?n)"
    using m assms(2) sint_to_int [of "strhash e path mod ?n"] by (simp add: host_index_def)
  with m show ?thesis by simp
qed

text \<open>
  The server chosen for a path is always one of the ranks that exist: the 64-bit
  remainder by the server count survives its conversion to \<open>int\<close>.
\<close>

lemma chosen_host_exists:
  assumes "host_of e p path = Inr h" and "uint (g_hvac_server_count p) \<le> 2 ^ 31"
  shows "0 \<le> sint h \<and> sint h < uint (g_hvac_server_count p)"
proof -
  have "g_hvac_server_count p \<noteq> 0" and "h = host_index e p path"
    using assms(1) by (auto simp: host_of_def host_index_def split: if_splits)
  with host_index_bound [OF _ assms(2)] show ?thesis by simp
qed

text \<open>
  Given its three environment variables, a server count and a process id of at most five
  digits, the daemon comes up: it
  appends exactly its own line to the job's address file, its mover waits, nothing is cached
  or logged, and each of the four RPCs is registered for its handler.
\<close>

lemma daemon_comes_up:
  assumes "server_env_ok env ge" and "fds_ok ps" and "2 \<le> length argv"
    and "0 \<le> sint pid" and "sint pid < 100000"
  shows "\<exists>s' rank job. server_main env ge notice rc pid True True argv (server_boot ps) cfg
      = Inr (s', cfg(ports_cfg_name job := cfg (ports_cfg_name job) @ ports_line (atoi rank) (hg_self_addr env))) \<and>
    ge ''PMI_RANK'' = Some rank \<and> ge ''SLURM_JOBID'' = Some job \<and>
    server_started s' \<and> dispatch_ok env (registry s') \<and> disk s' = ps \<and> hvac_server_count s' = atoi (argv ! 1)"
  using server_main_starts [OF assms] by blast

text \<open>
  Client and server agree on the RPCs although they register them in different orders:
  each identifier the client sends is the one under which the server's registry has the
  handler of that kind.
\<close>

lemma client_and_server_agree:
  assumes "ids_distinct env" and "hg_disable_response env"
  shows "\<exists>p' c'. hvac_client_comm_register_rpc env p = Inr p' \<and> register_rpcs env c = Inr c' \<and>
    registry c' (hvac_client_open_id p') = Some K_open \<and> registry c' (hvac_client_rpc_id p') = Some K_read \<and>
    registry c' (hvac_client_close_id p') = Some K_close \<and> registry c' (hvac_client_seek_id p') = Some K_seek"
  using client_register_ids [OF assms, of p] register_rpcs_dispatch [OF assms, of c]
  by (auto simp: dispatch_ok_def)

end
