(* ===== verification/Bring_Up.thy ===== *)
theory Bring_Up
  imports Startup System
begin

unbundle bit_operations_syntax

text \<open>
  A job from nothing: the daemon's \<open>main\<close>, the client library's constructor, and the first
  intercepted \<open>open\<close>, which starts Mercury in the client, registers the RPCs, finds the
  daemon in the file it has written, and has the file opened there. What the environment must
  provide is stated about the environment alone.
\<close>

section \<open>The first open starts Mercury\<close>

text \<open>A client process before its constructor runs: the globals' initial values.\<close>

definition client_boot :: "'o \<Rightarrow> 'w \<Rightarrow> ('o, 'w) proc" where
  "client_boot w ws = \<lparr>hg_class = False, hg_context = False, shutdown_flags = False,
     hvac_server_rank = -1, server_rank = -1, progress_threads = 0, registry = (\<lambda>_. None),
     no_response = [], tl_disable_redirect = False, g_disable_redirect = True,
     g_hvac_initialized = False, g_mercury_init = False, g_hvac_server_count = 0,
     hvac_data_dir = None, fd_map = (\<lambda>_. None), fd_redir_map = (\<lambda>_. None), rpc_done = 0,
     read_ret = -1, address_cache = (\<lambda>_. None), hvac_client_rpc_id = 0, hvac_client_open_id = 0,
     hvac_client_close_id = 0, hvac_client_seek_id = 0, os = w, net = ws, pending = []\<rparr>"

text \<open>What starting Mercury does to a client, when it can: the flag, the identifiers and the log.\<close>

definition warm :: "('o, 'a, 'w) cenv \<Rightarrow> ('o, 'w) proc \<Rightarrow> ('o, 'w) proc" where
  "warm e p = (case ensure_mercury e p of Inr q \<Rightarrow> q | Inl _ \<Rightarrow> p)"

text \<open>What the client's environment must provide for it.\<close>

definition client_env_ok :: "('o, 'a, 'w) cenv \<Rightarrow> bool" where
  "client_env_ok e \<longleftrightarrow> ids_distinct (hgenv e) \<and> hg_disable_response (hgenv e) \<and>
     hg_thread_create (hgenv e) \<and> getenv e ''PMI_RANK'' \<noteq> None"

definition has_ids :: "hg_env \<Rightarrow> 'x client_scheme \<Rightarrow> bool" where
  "has_ids env p \<longleftrightarrow> hvac_client_open_id p = hg_register env (rpc_name_of K_open) \<and>
     hvac_client_rpc_id p = hg_register env (rpc_name_of K_read) \<and>
     hvac_client_close_id p = hg_register env (rpc_name_of K_close) \<and>
     hvac_client_seek_id p = hg_register env (rpc_name_of K_seek)"

lemma ensure_mercury_starts:
  assumes "client_env_ok e"
  shows "\<exists>q. ensure_mercury e p = Inr q \<and> (\<not> g_mercury_init p \<longrightarrow> g_mercury_init q \<and> has_ids (hgenv e) q \<and>
    (\<not> shutdown_flags p \<longrightarrow> progress_runs q))"
proof (cases "g_mercury_init p")
  case True
  then show ?thesis by (simp add: ensure_mercury_def)
next
  case False
  obtain p1 where p1: "hvac_init_comm (hgenv e) (getenv e) False p = Inr p1"
    "\<not> shutdown_flags p \<longrightarrow> progress_runs p1"
    using assms by (auto simp: client_env_ok_def hvac_init_comm_def progress_runs_def Let_def)
  obtain p2 where p2: "hvac_client_comm_register_rpc (hgenv e) (l4c p1) = Inr p2" "has_ids (hgenv e) p2"
    using client_register_ids [of "hgenv e" "l4c p1"] assms by (auto simp: client_env_ok_def has_ids_def)
  have "progress_runs p2 = progress_runs p1"
    using p2(1) by (auto simp: hvac_client_comm_register_rpc_def register_defs Let_def hvac_result)
  with p1 p2 False show ?thesis by (simp add: ensure_mercury_def has_ids_def)
qed

lemma ensure_mercury_warm:
  assumes "client_env_ok e"
  shows "ensure_mercury e p = Inr (warm e p)"
    and "\<not> g_mercury_init p \<Longrightarrow> g_mercury_init (warm e p) \<and> has_ids (hgenv e) (warm e p) \<and>
      (\<not> shutdown_flags p \<longrightarrow> progress_runs (warm e p))"
  using ensure_mercury_starts [OF assms, of p] by (auto simp: warm_def)

lemma warm_frame:
  assumes "client_env_ok e"
  shows "fd_map (warm e p) = fd_map p" "address_cache (warm e p) = address_cache p"
    "g_hvac_server_count (warm e p) = g_hvac_server_count p" "pending (warm e p) = pending p"
    "net (warm e p) = net p" "os (warm e p) = os p"
  using ensure_mercury_frame [OF ensure_mercury_warm(1) [OF assms]] by simp_all

lemma init_comm_switches:
  "hvac_init_comm env ge l p = Inr q \<Longrightarrow> hvac_data_dir q = hvac_data_dir p \<and>
     g_disable_redirect q = g_disable_redirect p \<and> tl_disable_redirect q = tl_disable_redirect p"
  by (auto simp: hvac_init_comm_def Let_def split: option.splits if_splits)

lemma register_switches:
  "hvac_client_comm_register_rpc env p = Inr q \<Longrightarrow> hvac_data_dir q = hvac_data_dir p \<and>
     g_disable_redirect q = g_disable_redirect p \<and> tl_disable_redirect q = tl_disable_redirect p"
  by (auto simp: hvac_client_comm_register_rpc_def register_defs Let_def hvac_result)

lemma ensure_mercury_switches:
  "ensure_mercury e p = Inr q \<Longrightarrow> hvac_data_dir q = hvac_data_dir p \<and>
     g_disable_redirect q = g_disable_redirect p \<and> (tl_disable_redirect q \<longrightarrow> tl_disable_redirect p)"
  by (auto simp: ensure_mercury_def hvac_result split: if_splits
      dest!: init_comm_switches register_switches)

lemma warm_switches:
  assumes "client_env_ok e"
  shows "hvac_data_dir (warm e p) = hvac_data_dir p" "\<not> redirect_off p \<Longrightarrow> \<not> redirect_off (warm e p)"
  using ensure_mercury_switches [OF ensure_mercury_warm(1) [OF assms]] by (auto simp: redirect_off_def)

text \<open>Mercury can as well have been started before the file is entered in the table.\<close>

lemma ensure_mercury_tracked:
  assumes "ensure_mercury e p = Inr q"
  shows "ensure_mercury e ((l4c p)\<lparr>fd_map := m\<rparr>) = Inr ((l4c q)\<lparr>fd_map := m\<rparr>)"
  using assms
  by (cases "getenv e ''PMI_RANK''")
    (auto simp: ensure_mercury_def hvac_init_comm_def hvac_client_comm_register_rpc_def register_defs
      l4c_def Let_def hvac_result split: if_splits)

lemma ensure_mercury_once:
  assumes "client_env_ok e"
  shows "ensure_mercury e ((l4c (warm e p))\<lparr>fd_map := m\<rparr>) = Inr ((l4c (warm e p))\<lparr>fd_map := m\<rparr>)"
proof (cases "g_mercury_init p")
  case True
  then have "warm e p = p" by (simp add: warm_def ensure_mercury_def)
  with True show ?thesis by (simp add: ensure_mercury_def l4c_def)
next
  case False
  with ensure_mercury_warm(2) [OF assms] show ?thesis by (simp add: ensure_mercury_def l4c_def)
qed

lemma track_file_warm:
  assumes "client_env_ok e" and "in_data_dir e (os p) (hvac_data_dir p) path c"
  shows "hvac_track_file e path flags fd p = hvac_track_file e path flags fd (warm e p)
    \<or> \<not> readable_flags flags"
proof -
  let ?m = "(fd_map p)(fd \<mapsto> c)"
  have m: "fd_map (warm e p) = fd_map p" "os (warm e p) = os p" "hvac_data_dir (warm e p) = hvac_data_dir p"
    using warm_frame [OF assms(1), of p] warm_switches(1) [OF assms(1), of p] by simp_all
  from ensure_mercury_tracked [OF ensure_mercury_warm(1) [OF assms(1), of p], of ?m]
    ensure_mercury_once [OF assms(1), of ?m p]
  have "remote_open e fd ((l4c p)\<lparr>fd_map := ?m\<rparr>) = remote_open e fd ((l4c (warm e p))\<lparr>fd_map := ?m\<rparr>)"
    by (simp add: remote_open_def)
  moreover have "track_decision e path fd p = (True, (l4c p)\<lparr>fd_map := ?m\<rparr>)"
    by (rule track_decision_yes [OF assms(2)])
  moreover have "track_decision e path fd (warm e p) = (True, (l4c (warm e p))\<lparr>fd_map := ?m\<rparr>)"
    using track_decision_yes [of e "warm e p" path c fd] assms(2) m by simp
  ultimately show ?thesis using assms(2)
    by (simp add: hvac_track_file_def readable_flags_def in_data_dir_def)
qed

text \<open>Nothing of this depends on the system or the servers.\<close>

lemma ensure_mercury_world:
  "ensure_mercury e p = Inr q \<Longrightarrow> ensure_mercury e (p\<lparr>os := w\<rparr>) = Inr (q\<lparr>os := w\<rparr>)"
  "ensure_mercury e p = Inr q \<Longrightarrow> ensure_mercury e (p\<lparr>net := v\<rparr>) = Inr (q\<lparr>net := v\<rparr>)"
  by (cases "getenv e ''PMI_RANK''"; auto simp: ensure_mercury_def hvac_init_comm_def
      hvac_client_comm_register_rpc_def register_defs l4c_def Let_def hvac_result split: if_splits)+

lemma warm_world:
  assumes "client_env_ok e"
  shows "warm e (p\<lparr>os := w\<rparr>) = (warm e p)\<lparr>os := w\<rparr>" "warm e (p\<lparr>net := v\<rparr>) = (warm e p)\<lparr>net := v\<rparr>"
  using ensure_mercury_world [OF ensure_mercury_warm(1) [OF assms, of p]] by (simp_all add: warm_def)

text \<open>The first tracked open is the open of a process in which Mercury has been started before.\<close>

lemma wrap_open_warm:
  assumes "client_env_ok e" and "\<not> redirect_off p" and "readable_flags flags"
    and "real_open e path flags (if flags AND O_CREAT \<noteq> 0 then md else 0) (os p) = (fd, w)" and "fd \<noteq> -1"
    and "in_data_dir e w (hvac_data_dir p) path c"
  shows "wrap_open e path flags md p = wrap_open e path flags md (warm e p)"
proof -
  have "hvac_track_file e path flags fd (p\<lparr>os := w\<rparr>) = hvac_track_file e path flags fd ((warm e p)\<lparr>os := w\<rparr>)"
    using track_file_warm [OF assms(1), of "p\<lparr>os := w\<rparr>" path c flags fd] assms(3,6)
    by (simp add: warm_world(1) [OF assms(1)])
  moreover have "\<not> redirect_off (warm e p)" "os (warm e p) = os p"
    using warm_switches(2) [OF assms(1,2)] warm_frame(6) [OF assms(1)] by simp_all
  ultimately show ?thesis using assms(2,4,5) by (simp add: wrap_open_def track_fd_def)
qed

section \<open>From nothing to a read file\<close>

text \<open>
  The constructor leaves a client that redirects, knows the number of servers and the data
  directory, and tracks nothing.
\<close>

lemma client_init_starts:
  assumes "0 \<le> sint (getpid e)" and "sint (getpid e) < 100000" and "getenv e ''HVAC_SERVER_COUNT'' = Some n"
  shows "hvac_client_init e (client_boot w ws) = Inr ((client_boot w ws)\<lparr>g_hvac_server_count := atoi n,
    hvac_data_dir := getenv e ''HVAC_DATA_DIR'', g_hvac_initialized := True, g_disable_redirect := False\<rparr>)"
proof -
  obtain l where "hvac_init_logging HVAC_CLIENT (log4c_notice e) (log4c_rc e) (getenv e)
      (getpid e) = Inr l"
    using init_logging_returns [OF assms(1,2)] by blast
  with assms(3) show ?thesis
    by (cases "getenv e ''HVAC_DATA_DIR''") (simp_all add: hvac_client_init_def client_boot_def Let_def)
qed

text \<open>A client that has looked nobody up finds the daemon in the file it has written.\<close>

lemma server_of_published:
  assumes "getenv e ''SLURM_JOBID'' = Some job" and "address_cache p = (\<lambda>_. None)"
    and "read_config e (os p) (ports_cfg_name job) = Some (ports_line rank str)" and "address_ok str"
    and "hg_lookup e str = Some a" and "host_index e p c = rank" and "ports_name_fits job"
  shows "server_of e p c = Some a"
proof -
  have "ports_line rank str = ports_file [(rank, str)]" by (simp add: ports_file_def)
  then have "hvac_client_comm_lookup_addr e rank p
      = Inr (a, (l4c p)\<lparr>address_cache := (address_cache p)(rank \<mapsto> str)\<rparr>)"
    by (intro lookup_addr_published [where es = "[(rank, str)]"]) (use assms in simp_all)
  then show ?thesis using assms(6) by (simp add: server_of_def)
qed

lemma cold_open_tracked:
  fixes e :: "('o, string, cluster) cenv" and p :: "('o, cluster) proc" and dt :: i64 and lf :: bool
  defines "E \<equiv> deployed e dt lf"
  assumes env: "client_env_ok E" and ready: "open_ready E (warm E (p\<lparr>os := w\<rparr>)) w path c a s"
    and cold: "\<not> redirect_off p" and flags: "readable_flags flags"
    and real: "real_open E path flags (if flags AND O_CREAT \<noteq> 0 then md else 0) (os p) = (fd, w)" "fd \<noteq> -1"
    and server: "server_ok s" "registry s (hvac_client_rpc_id (warm E (p\<lparr>os := w\<rparr>))) = Some K_read"
      "registry s (hvac_client_seek_id (warm E (p\<lparr>os := w\<rparr>))) = Some K_seek"
    and data: "bytes_at (disk s) c = Some b" "posix_open (disk s) (redirected s c) = (rfd, ps)" "rfd \<noteq> -1"
  shows "\<exists>p'. wrap_open E path flags md p = Inr (fd, p') \<and> tracked_view E p' fd = Some (b, 0)"
proof -
  let ?q = "warm E (p\<lparr>os := w\<rparr>)"
  have q: "?q\<lparr>os := w\<rparr> = ?q" using warm_frame(6) [OF env, of "p\<lparr>os := w\<rparr>"] by simp
  obtain p' where p': "hvac_track_file E path flags fd (?q\<lparr>os := w\<rparr>) = Inr (True, p')"
    "tracked_view E (l4c p') fd = Some (b, 0)"
    using track_file_view [OF ready [unfolded E_def] flags server [unfolded E_def] data, of fd]
    unfolding E_def by blast
  have "in_data_dir E (os (p\<lparr>os := w\<rparr>)) (hvac_data_dir (p\<lparr>os := w\<rparr>)) path c"
    using ready warm_switches(1) [OF env, of "p\<lparr>os := w\<rparr>"] by (simp add: open_ready_def)
  from track_file_warm [OF env this, of flags fd] p'(1) flags
  have t: "hvac_track_file E path flags fd (p\<lparr>os := w\<rparr>) = Inr (True, p')" by (simp add: q)
  have "wrap_open E path flags md p = Inr (fd, l4c p')"
    by (rule wrap_opens_track(1) [OF cold _ _ _ _ t real(2,1)]) (simp_all add: E_def)
  with p'(2) show ?thesis by blast
qed

text \<open>The daemon and the client agree on the identifiers when Mercury hashes names alike.\<close>

lemma dispatch_has_ids:
  assumes "dispatch_ok senv reg" and "hg_register env = hg_register senv" and "has_ids env q"
  shows "reg (hvac_client_open_id q) = Some K_open" "reg (hvac_client_rpc_id q) = Some K_read"
    "reg (hvac_client_seek_id q) = Some K_seek" "reg (hvac_client_close_id q) = Some K_close"
  using assms by (simp_all add: dispatch_ok_def has_ids_def)

text \<open>
  What the environment provides on the client's side: the job's variables, a data directory,
  the real \<open>open\<close>, and an address that Mercury resolves; the hash chooses the daemon.
\<close>

definition client_site_ok ::
  "('o, string, cluster) cenv \<Rightarrow> string \<Rightarrow> string \<Rightarrow> string \<Rightarrow> cint \<Rightarrow> string \<Rightarrow> 'o \<Rightarrow> path \<Rightarrow> path \<Rightarrow> bool" where
  "client_site_ok e job n a rank str w path c \<longleftrightarrow> client_env_ok e \<and> 0 \<le> sint (getpid e) \<and>
     sint (getpid e) < 100000 \<and> getenv e ''SLURM_JOBID'' = Some job \<and> ports_name_fits job \<and>
     getenv e ''HVAC_SERVER_COUNT'' = Some n \<and> atoi n \<noteq> 0 \<and> hg_lookup e str = Some a \<and> address_ok str \<and>
     to_int (strhash e c mod ucast (atoi n)) = rank \<and>
     in_data_dir e w (getenv e ''HVAC_DATA_DIR'') path c"

lemma client_ready_after_init:
  fixes e :: "('o, string, cluster) cenv" and dt :: i64 and lf :: bool
  defines "E \<equiv> deployed e dt lf"
  assumes site: "client_site_ok E job n a rank str w path c"
    and config: "read_config E w (ports_cfg_name job) = Some (ports_line rank str)"
    and server: "dispatch_ok senv (registry s)" "hg_register (hgenv E) = hg_register senv"
    and held: "ws a = Some s"
  shows "\<exists>p. hvac_client_init E (client_boot w0 ws) = Inr p \<and> \<not> redirect_off p \<and> os p = w0 \<and>
    open_ready E (warm E (p\<lparr>os := w\<rparr>)) w path c a s \<and>
    registry s (hvac_client_rpc_id (warm E (p\<lparr>os := w\<rparr>))) = Some K_read \<and>
    registry s (hvac_client_seek_id (warm E (p\<lparr>os := w\<rparr>))) = Some K_seek \<and>
    registry s (hvac_client_close_id (warm E (p\<lparr>os := w\<rparr>))) = Some K_close"
proof -
  let ?p = "(client_boot w0 ws)\<lparr>g_hvac_server_count := atoi n,
    hvac_data_dir := getenv E ''HVAC_DATA_DIR'', g_hvac_initialized := True, g_disable_redirect := False\<rparr>"
  let ?q = "warm E (?p\<lparr>os := w\<rparr>)"
  have env: "client_env_ok E" using site by (simp add: client_site_ok_def)
  have init: "hvac_client_init E (client_boot w0 ws) = Inr ?p"
    by (rule client_init_starts) (use site in \<open>simp_all add: client_site_ok_def\<close>)
  have off: "\<not> redirect_off ?p" by (simp add: redirect_off_def client_boot_def)
  note frame = warm_frame [OF env, of "?p\<lparr>os := w\<rparr>"] warm_switches [OF env, of "?p\<lparr>os := w\<rparr>"]
  have "g_mercury_init ?q \<and> has_ids (hgenv E) ?q \<and> (\<not> shutdown_flags (?p\<lparr>os := w\<rparr>) \<longrightarrow> progress_runs ?q)"
    by (rule ensure_mercury_warm(2) [OF env]) (simp add: client_boot_def)
  then have ids: "g_mercury_init ?q" "has_ids (hgenv E) ?q" "progress_runs ?q" by (simp_all add: client_boot_def)
  note disp = dispatch_has_ids [OF server ids(2)]
  have "server_of E (?q\<lparr>os := w\<rparr>) c = Some a"
  proof (rule server_of_published)
    show "getenv E ''SLURM_JOBID'' = Some job" using site by (simp add: client_site_ok_def)
    show "address_cache (?q\<lparr>os := w\<rparr>) = (\<lambda>_. None)" using frame by (simp add: client_boot_def)
    show "read_config E (os (?q\<lparr>os := w\<rparr>)) (ports_cfg_name job) = Some (ports_line rank str)"
      using config by simp
    show "address_ok str" "hg_lookup E str = Some a" "ports_name_fits job" using site by (simp_all add: client_site_ok_def)
    show "host_index E (?q\<lparr>os := w\<rparr>) c = rank"
      using site frame by (simp add: host_index_def client_site_ok_def)
  qed
  then have "open_ready E ?q w path c a s"
    using ids frame off site disp(1)
    by (simp add: open_ready_def client_boot_def client_site_ok_def redirect_off_def held)
  with init off disp(2-4) show ?thesis by (intro exI [of _ ?p]) (simp add: client_boot_def)
qed

end
