(* ===== verification/Server_Old.thy ===== *)
theory Server_Old
  imports Server_Facts
begin

text \<open>
  \<open>src/hvac_comm_old.cpp\<close>, the daemon before the operation log was added, over the state
  the two versions share (the log buffer is no part of it). The handlers of \<open>Server\<close> are
  shown to refine them: forgetting the log, an answered request does the same in both. They
  differ in one place, a read that failed, where the old handler starts a transfer of
  \<open>(size_t) -1\<close> bytes. The file is in no build target, and its line 91 closes a comment that
  is not open; of its two versions of \<open>hvac_init_comm\<close> the first is modelled, the second stands
  in a comment.
\<close>

section \<open>The old handlers\<close>

definition old_file_call ::
  "hvac_rpc_in_t \<Rightarrow> i64 \<Rightarrow> 'a data_mover_scheme \<Rightarrow> i64 \<times> byte list \<times> 'a data_mover_scheme" where
  "old_file_call inp nbytes s =
     (if in_offset inp = -1
      then (case posix_read (disk s) (accessfd inp) nbytes of (readbytes, data, ps) \<Rightarrow>
             (readbytes, data, s\<lparr>disk := ps\<rparr>))
      else (case posix_pread (disk s) (accessfd inp) nbytes (in_offset inp) of (readbytes, data) \<Rightarrow>
             (readbytes, data, s)))"

definition old_rpc_handler_bulk_cb :: "rpc_env \<Rightarrow> i64 \<Rightarrow> hvac_rpc_out_t outcome" where
  "old_rpc_handler_bulk_cb env xfer =
     (let out = \<lparr>rpc_ret = to_int xfer\<rparr>
      in assert_that (bulk_done_ok env) (assert_that (respond_ok env) (Inr out)))"

definition old_rpc_handler ::
  "rpc_env \<Rightarrow> hvac_rpc_in_t \<Rightarrow> 'a data_mover_scheme
    \<Rightarrow> (hvac_rpc_out_t \<times> byte list \<times> 'a data_mover_scheme) outcome" where
  "old_rpc_handler env inp s =
     (if \<not> get_input_ok env then Inl Undefined_behaviour
      else let nbytes = to_i64 (input_val inp)
      in assert_that (calloc_ok env nbytes) (assert_that (bulk_create_ok env nbytes)
          (case old_file_call inp nbytes s of (readbytes, data, s1) \<Rightarrow>
             let buf = overlay data (replicate (unat nbytes) 0);
                 s2 = s1\<lparr>fd_to_path := snd (map_index [] (fd_to_path s1) (accessfd inp))\<rparr>
             in assert_that (bulk_push_ok env readbytes (bulk_handle inp))
                  (and_then (old_rpc_handler_bulk_cb env readbytes) (\<lambda>out.
                     Inr (out, take (unat readbytes) buf, s2))))))"

definition old_open_rpc_handler ::
  "rpc_env \<Rightarrow> hvac_open_in_t \<Rightarrow> 'a data_mover_scheme \<Rightarrow> (hvac_open_out_t \<times> 'a data_mover_scheme) outcome" where
  "old_open_rpc_handler env inp s = assert_that (get_input_ok env)
     (let redir_path = (case path_cache_map s (in_path inp) of
                   Some q \<Rightarrow> q | None \<Rightarrow> in_path inp)
      in (case posix_open (disk s) redir_path of (fd, ps) \<Rightarrow>
           let s1 = s\<lparr>disk := ps\<rparr>;
               s2 = s1\<lparr>fd_to_path := (fd_to_path s1)(fd \<mapsto> in_path inp)\<rparr>
           in Inr (\<lparr>ret_status = fd\<rparr>, s2)))"

definition old_close_rpc_handler ::
  "rpc_env \<Rightarrow> hvac_close_in_t \<Rightarrow> 'a data_mover_scheme \<Rightarrow> 'a data_mover_scheme outcome" where
  "old_close_rpc_handler env inp s = assert_that (get_input_ok env)
     (case posix_close (disk s) (close_fd inp) of (ret, ps) \<Rightarrow>
        let s1 = s\<lparr>disk := ps\<rparr>
        in assert_that (ret = 0)
            (let p = fst (map_index [] (fd_to_path s1) (close_fd inp));
                 s2 = s1\<lparr>fd_to_path := snd (map_index [] (fd_to_path s1) (close_fd inp))\<rparr>;
                 s3 = (if \<not> map_has (path_cache_map s2) p
                       then (data_cond_signal s2)\<lparr>data_queue := data_queue s2 @ [p]\<rparr> else s2)
             in Inr (s3\<lparr>fd_to_path := map_erase (close_fd inp) (fd_to_path s3)\<rparr>)))"

definition old_seek_rpc_handler ::
  "rpc_env \<Rightarrow> hvac_seek_in_t \<Rightarrow> 'a data_mover_scheme \<Rightarrow> (hvac_seek_out_t \<times> 'a data_mover_scheme) outcome" where
  "old_seek_rpc_handler env inp s = assert_that (get_input_ok env)
     (case posix_lseek (disk s) (seek_fd inp) (to_i64 (seek_offset inp)) (seek_whence inp) of
        (r, ps) \<Rightarrow> Inr (\<lparr>seek_ret = to_int r\<rparr>, s\<lparr>disk := ps\<rparr>))"

definition old_run_handler ::
  "rpc_env \<Rightarrow> rpc_in \<Rightarrow> 'a data_mover_scheme
    \<Rightarrow> (cint option \<times> byte list \<times> 'a data_mover_scheme) outcome" where
  "old_run_handler env req s = (case req of
       Open_in i \<Rightarrow> and_then (old_open_rpc_handler env i s) (\<lambda>(out, s'). Inr (respond env (ret_status out), [], s'))
     | Read_in i \<Rightarrow> and_then (old_rpc_handler env i s) (\<lambda>(out, data, s'). Inr (Some (rpc_ret out), data, s'))
     | Seek_in i \<Rightarrow> and_then (old_seek_rpc_handler env i s) (\<lambda>(out, s'). Inr (respond env (seek_ret out), [], s'))
     | Close_in i \<Rightarrow> and_then (old_close_rpc_handler env i s) (\<lambda>s'. Inr (None, [], s')))"

text \<open>
  The start of communication in the old file reads the rank without looking whether it is
  there. Given the rank, the two versions do the same.
\<close>

definition old_init_comm ::
  "hg_env \<Rightarrow> (string \<Rightarrow> string option) \<Rightarrow> bool \<Rightarrow> 'a comm_scheme \<Rightarrow> 'a comm_scheme outcome" where
  "old_init_comm env getenv listen c = (case getenv ''PMI_RANK'' of
       None \<Rightarrow> Inl Undefined_behaviour
     | Some rank_str \<Rightarrow>
         let c1 = c\<lparr>server_rank := atoi rank_str\<rparr>;
             c2 = c1\<lparr>hg_class := hg_init env listen\<rparr>;
             c3 = c2\<lparr>hg_context := hg_class c2 \<and> hg_context_create env\<rparr>;
             c4 = (if listen then c3\<lparr>hvac_server_rank := atoi rank_str\<rparr> else c3)
         in Inr (if hg_thread_create env
                 then c4\<lparr>progress_threads := progress_threads c4 + 1\<rparr> else c4))"

lemma init_comm_refines_old:
  "old_init_comm env ge listen c = Inr c' \<Longrightarrow> hvac_init_comm env ge listen c = Inr c'"
  by (simp add: old_init_comm_def hvac_init_comm_def split: option.splits)

text \<open>
  Shutdown, the progress thread, publishing and registration are in both files, written out
  again. They are the same functions.
\<close>

definition old_shutdown_comm :: "hg_env \<Rightarrow> 'a comm_scheme \<Rightarrow> 'a comm_scheme outcome" where
  "old_shutdown_comm env c =
     (let c1 = c\<lparr>shutdown_flags := True\<rparr>
      in if \<not> hg_context c1 then Inr c1
         else assert_that (hg_context_destroy env) (assert_that (hg_finalize env) (Inr c1)))"

definition old_progress_step ::
  "bool \<Rightarrow> cint \<Rightarrow> cint \<Rightarrow> progress_pc \<Rightarrow> progress_pc \<times> hg_call option" where
  "old_progress_step shutdown trig_ret actual_count pc = (case pc of
       P_outer \<Rightarrow> (if \<not> shutdown then P_trigger else P_return, None)
     | P_trigger \<Rightarrow> (P_in_trigger, Some Call_trigger)
     | P_in_trigger \<Rightarrow>
         (if trig_ret = 0 \<and> actual_count \<noteq> 0 \<and> \<not> shutdown then P_trigger else P_check, None)
     | P_check \<Rightarrow> (if \<not> shutdown then P_progress else P_outer, None)
     | P_progress \<Rightarrow> (P_in_progress, Some Call_progress)
     | P_in_progress \<Rightarrow> (P_outer, None)
     | P_return \<Rightarrow> (P_return, None))"

definition old_comm_list_addr ::
  "hg_env \<Rightarrow> (string \<Rightarrow> string option) \<Rightarrow> bool \<Rightarrow> 'a comm_scheme \<Rightarrow> (path \<Rightarrow> string)
    \<Rightarrow> (path \<Rightarrow> string) outcome" where
  "old_comm_list_addr env getenv can_open c cfg = (case getenv ''SLURM_JOBID'' of
       None \<Rightarrow> Inl Undefined_behaviour
     | Some jobid \<Rightarrow>
         let filename = ''./.ports.cfg.'' @ jobid;
             entry = dec_int (sint (hvac_server_rank c)) @ '' '' @ hg_self_addr env @ [newline]
         in if PATH_MAX \<le> length filename \<or> PATH_MAX \<le> length (hg_self_addr env) then Inl Undefined_behaviour
            else if \<not> can_open then Inl (Exit_process 0) else Inr (cfg(filename := cfg filename @ entry)))"

definition old_rpc_register :: "hg_env \<Rightarrow> 'a comm_scheme \<Rightarrow> i64 \<times> 'a comm_scheme" where
  "old_rpc_register env c = (let tmp = hg_register env ''hvac_base_rpc''
     in (tmp, c\<lparr>registry := (registry c)(tmp \<mapsto> K_read)\<rparr>))"

definition old_open_rpc_register :: "hg_env \<Rightarrow> 'a comm_scheme \<Rightarrow> i64 \<times> 'a comm_scheme" where
  "old_open_rpc_register env c = (let tmp = hg_register env ''hvac_open_rpc''
     in (tmp, c\<lparr>registry := (registry c)(tmp \<mapsto> K_open)\<rparr>))"

definition old_close_rpc_register :: "hg_env \<Rightarrow> 'a comm_scheme \<Rightarrow> (i64 \<times> 'a comm_scheme) outcome" where
  "old_close_rpc_register env c = (let tmp = hg_register env ''hvac_close_rpc'';
         c1 = c\<lparr>registry := (registry c)(tmp \<mapsto> K_close)\<rparr>
     in assert_that (hg_disable_response env) (Inr (tmp, c1\<lparr>no_response := tmp # no_response c1\<rparr>)))"

definition old_seek_rpc_register :: "hg_env \<Rightarrow> 'a comm_scheme \<Rightarrow> i64 \<times> 'a comm_scheme" where
  "old_seek_rpc_register env c = (let tmp = hg_register env ''hvac_seek_rpc''
     in (tmp, c\<lparr>registry := (registry c)(tmp \<mapsto> K_seek)\<rparr>))"

lemma old_core_same:
  "old_shutdown_comm env c = hvac_shutdown_comm env c"
  "old_progress_step sd r n pc = progress_step sd r n pc"
  "old_comm_list_addr env ge can_open c cfg = hvac_comm_list_addr env ge can_open c cfg"
  "old_rpc_register env c = hvac_rpc_register env c"
  "old_open_rpc_register env c = hvac_open_rpc_register env c"
  "old_close_rpc_register env c = hvac_close_rpc_register env c"
  "old_seek_rpc_register env c = hvac_seek_rpc_register env c"
  by (simp_all add: old_shutdown_comm_def hvac_shutdown_comm_def old_progress_step_def progress_step_def
      old_comm_list_addr_def hvac_comm_list_addr_def ports_cfg_name_def ports_name_fits_def ports_line_def not_less
      old_rpc_register_def old_open_rpc_register_def old_close_rpc_register_def old_seek_rpc_register_def
      register_defs Let_def split: progress_pc.split option.split)

section \<open>Forgetting the log\<close>

text \<open>The state of the old server inside that of the new one.\<close>

abbreviation forget_log :: "'a server_scheme \<Rightarrow> data_mover" where
  "forget_log s \<equiv> data_mover.truncate s"

lemma forget_simps [simp]:
  "disk (forget_log s) = disk s" "fd_to_path (forget_log s) = fd_to_path s"
  "path_cache_map (forget_log s) = path_cache_map s" "data_queue (forget_log s) = data_queue s"
  "mover (forget_log s) = mover s"
  by (simp_all add: data_mover.truncate_def)

lemma forget_log_ops [simp]:
  "forget_log (log_push oper d s) = forget_log s"
  "forget_log (flush_if_full env s) = forget_log s"
  by (simp_all add: data_mover.truncate_def log_push_def flush_if_full_def append_to_file_def Let_def)

lemma forget_updates:
  "forget_log (s\<lparr>disk := ps\<rparr>) = (forget_log s)\<lparr>disk := ps\<rparr>"
  "forget_log (s\<lparr>fd_to_path := m\<rparr>) = (forget_log s)\<lparr>fd_to_path := m\<rparr>"
  "forget_log (s\<lparr>data_queue := q\<rparr>) = (forget_log s)\<lparr>data_queue := q\<rparr>"
  "forget_log (data_cond_signal s) = data_cond_signal (forget_log s)"
  by (simp_all add: data_mover.truncate_def data_cond_signal_def)

lemma old_open_refines:
  "and_then (hvac_open_rpc_handler env inp s) (\<lambda>(out, s'). Inr (out, forget_log s'))
     = old_open_rpc_handler env inp (forget_log s)"
  by (cases "get_input_ok env"; cases "path_cache_map s (in_path inp)")
    (simp_all add: hvac_open_rpc_handler_def old_open_rpc_handler_def Let_def forget_updates
      case_prod_beta)

lemma old_seek_refines:
  "and_then (hvac_seek_rpc_handler env inp s) (\<lambda>(out, s'). Inr (out, forget_log s'))
     = old_seek_rpc_handler env inp (forget_log s)"
  by (cases "get_input_ok env")
    (simp_all add: hvac_seek_rpc_handler_def old_seek_rpc_handler_def forget_updates case_prod_beta)

lemma old_close_refines:
  "and_then (hvac_close_rpc_handler env inp s) (\<lambda>s'. Inr (forget_log s'))
     = old_close_rpc_handler env inp (forget_log s)"
  by (cases "get_input_ok env"; cases "fst (posix_close (disk s) (close_fd inp)) = 0")
    (simp_all add: hvac_close_rpc_handler_def old_close_rpc_handler_def Let_def forget_updates
      case_prod_beta)

lemma old_file_call_refines:
  "old_file_call inp n (forget_log s) = (case server_file_call env inp n s of
     (r, d, s') \<Rightarrow> (r, d, forget_log s'))"
  by (simp add: old_file_call_def server_file_call_def forget_updates case_prod_beta)

lemma old_read_refines:
  assumes "fst (server_file_call env inp (to_i64 (input_val inp)) s) \<noteq> -1"
  shows "and_then (hvac_rpc_handler env inp s) (\<lambda>(out, data, s'). Inr (out, data, forget_log s'))
     = old_rpc_handler env inp (forget_log s)"
proof -
  obtain r d s1 where call: "server_file_call env inp (to_i64 (input_val inp)) s = (r, d, s1)"
    by (cases "server_file_call env inp (to_i64 (input_val inp)) s")
  then have "r \<noteq> -1" using assms by simp
  then show ?thesis
    by (cases "get_input_ok env"; cases "calloc_ok env (to_i64 (input_val inp))"; cases "bulk_create_ok env (to_i64 (input_val inp))";
        cases "bulk_push_ok env r (bulk_handle inp)"; cases "bulk_done_ok env"; cases "respond_ok env")
      (simp_all add: hvac_rpc_handler_def old_rpc_handler_def hvac_rpc_handler_bulk_cb_def
        old_rpc_handler_bulk_cb_def old_file_call_refines [where env = env] call Let_def
        forget_updates note_path_def)
qed

text \<open>A failed read: no region holds the transfer, and the old daemon's assertion fails.\<close>

lemma old_read_failure:
  assumes "fst (old_file_call inp (to_i64 (input_val inp)) s) = -1"
    and "\<not> bulk_push_ok env (-1) (bulk_handle inp)" and "get_input_ok env"
  shows "old_rpc_handler env inp s = Inl Assert_failed"
  using assms by (auto simp: old_rpc_handler_def Let_def assert_that_def split: prod.splits)

text \<open>All requests.\<close>

definition read_fails :: "rpc_env \<Rightarrow> rpc_in \<Rightarrow> 'a server_scheme \<Rightarrow> bool" where
  "read_fails env req s \<longleftrightarrow> (case req of
       Read_in i \<Rightarrow> fst (server_file_call env i (to_i64 (input_val i)) s) = -1
     | _ \<Rightarrow> False)"

lemma old_handlers_refine:
  assumes "\<not> read_fails env req s"
  shows "and_then (run_handler env req s) (\<lambda>(out, data, s'). Inr (out, data, forget_log s'))
     = old_run_handler env req (forget_log s)"
proof (cases req)
  case (Open_in i)
  then show ?thesis
    by (simp add: run_handler_def old_run_handler_def old_open_refines [symmetric] and_then_assoc
        case_prod_beta)
next
  case (Read_in i)
  with assms show ?thesis
    by (simp add: run_handler_def old_run_handler_def read_fails_def old_read_refines [symmetric]
        and_then_assoc case_prod_beta)
next
  case (Seek_in i)
  then show ?thesis
    by (simp add: run_handler_def old_run_handler_def old_seek_refines [symmetric] and_then_assoc
        case_prod_beta)
next
  case (Close_in i)
  then show ?thesis
    by (simp add: run_handler_def old_run_handler_def old_close_refines [symmetric] and_then_assoc)
qed

end
