(* ===== verification/Rpc_Wait.thy ===== *)
theory Rpc_Wait
  imports Client_Comm
begin

text \<open>
  Application threads over the one \<open>done\<close> flag and the one \<open>read_ret\<close> of
  \<open>src/hvac_comm_client.cpp\<close>. A thread in a read resets both, forwards its RPC and waits; the
  progress thread runs the callback when the answer is there; a waiting thread goes on when it
  finds \<open>done\<close> equal to \<open>HG_TRUE\<close>. The theory \<open>Client\<close> runs these parts one after the
  other; here they are steps of a system of threads.
\<close>

section \<open>The system\<close>

datatype thread_pc =
    Running               \<comment> \<open>not inside a read\<close>
  | Waiting               \<comment> \<open>in \<open>hvac_read_block\<close>\<close>
  | Returned i64          \<comment> \<open>the last read returned this\<close>

record rpc_wait =
  proc_state :: client
  pc_of :: "nat \<Rightarrow> thread_pc"
  outstanding :: "(nat \<times> cint) list"  \<comment> \<open>the thread, and what its server answers\<close>
  answer_of :: "nat \<Rightarrow> cint"           \<comment> \<open>what the thread's last request is answered with\<close>

text \<open>The first statements of \<open>hvac_client_comm_gen_read_rpc\<close>.\<close>

definition begin_read :: "'x client_scheme \<Rightarrow> 'x client_scheme" where
  "begin_read p = p\<lparr>rpc_done := 0, read_ret := -1\<rparr>"

text \<open>
  \<open>serial\<close> demands that no thread starts a read while another waits, which nothing in the
  code enforces.
\<close>

inductive wait_step :: "bool \<Rightarrow> rpc_wait \<Rightarrow> rpc_wait \<Rightarrow> bool" for serial :: bool where
  wait_issue: "pc_of s t \<noteq> Waiting \<Longrightarrow> (serial \<longrightarrow> (\<forall>t'. pc_of s t' \<noteq> Waiting)) \<Longrightarrow>
    wait_step serial s (s\<lparr>proc_state := begin_read (proc_state s),
      pc_of := (pc_of s)(t := Waiting), outstanding := outstanding s @ [(t, r)],
      answer_of := (answer_of s)(t := r)\<rparr>)"
| wait_answer: "outstanding s = xs @ (t, r) # ys \<Longrightarrow>
    run_callback True (Cb_read (Reply 0 r [])) (proc_state s) = Inr p \<Longrightarrow>
    wait_step serial s (s\<lparr>proc_state := p, outstanding := xs @ ys\<rparr>)"
| wait_wake: "pc_of s t = Waiting \<Longrightarrow> hvac_read_block (proc_state s) = Inr (v, p) \<Longrightarrow>
    wait_step serial s (s\<lparr>proc_state := p, pc_of := (pc_of s)(t := Returned v)\<rparr>)"

definition wait_start :: "rpc_wait \<Rightarrow> bool" where
  "wait_start s \<longleftrightarrow> pc_of s = (\<lambda>_. Running) \<and> outstanding s = []"

inductive_cases wait_stepE: "wait_step serial s s'"

section \<open>One read at a time\<close>

text \<open>Thread \<open>t\<close> alone waits, for an answer on its way or already recorded.\<close>

definition awaits :: "rpc_wait \<Rightarrow> nat \<Rightarrow> bool" where
  "awaits s t \<longleftrightarrow> (\<forall>t'. pc_of s t' = Waiting \<longleftrightarrow> t' = t) \<and>
     (outstanding s = [(t, answer_of s t)] \<and> rpc_done (proc_state s) = 0 \<or>
      outstanding s = [] \<and> rpc_done (proc_state s) = 1 \<and>
        read_ret (proc_state s) = to_i64 (answer_of s t))"

definition one_read :: "rpc_wait \<Rightarrow> bool" where
  "one_read s \<longleftrightarrow>
     (\<forall>t v. pc_of s t = Returned v \<longrightarrow> v = to_i64 (answer_of s t)) \<and>
     ((\<forall>t. pc_of s t \<noteq> Waiting) \<and> outstanding s = [] \<or> (\<exists>t. awaits s t))"

lemma read_callback: "run_callback True (Cb_read (Reply 0 r [])) p
    = Inr (p\<lparr>rpc_done := rpc_done p + 1, read_ret := to_i64 r\<rparr>)"
  by (simp add: hvac_read_cb_def)

lemma read_block_Inr: "hvac_read_block p = Inr (v, q) \<longleftrightarrow> rpc_done p = 1 \<and> v = read_ret p \<and> q = p"
  by (auto simp: hvac_read_block_def)

lemma one_read_awaits: "one_read s \<Longrightarrow> pc_of s t = Waiting \<Longrightarrow> awaits s t"
  by (auto simp: one_read_def awaits_def)

lemma one_read_start: "wait_start s \<Longrightarrow> one_read s"
  by (simp add: wait_start_def one_read_def)

lemma one_read_step:
  assumes "one_read s" and "wait_step True s s'"
  shows "one_read s'"
  using assms(2)
proof (cases rule: wait_step.cases)
  case (wait_issue t r)
  then have "awaits s' t"
    using assms(1) by (auto simp: one_read_def awaits_def begin_read_def)
  moreover have "\<forall>t v. pc_of s' t = Returned v \<longrightarrow> v = to_i64 (answer_of s' t)"
    using wait_issue assms(1) by (simp add: one_read_def)
  ultimately show ?thesis by (auto simp: one_read_def)
next
  case (wait_answer xs t r ys p)
  then have "outstanding s \<noteq> []" by simp
  with assms(1) obtain t' where "awaits s t'" by (auto simp: one_read_def)
  with wait_answer have "awaits s' t'"
    by (auto simp: awaits_def hvac_read_cb_def append_eq_Cons_conv)
  with assms(1) wait_answer show ?thesis by (auto simp: one_read_def)
next
  case (wait_wake t v p)
  then have "awaits s t" using assms(1) by (simp add: one_read_awaits)
  with assms(1) wait_wake show ?thesis
    by (auto simp: one_read_def awaits_def read_block_Inr)
qed

interpretation one_at_a_time: inductive_invariant wait_start "wait_step True" one_read
  by unfold_locales (auto intro: one_read_start one_read_step)

text \<open>Whoever waits can be answered and woken, and then has the answer to its own request.\<close>

lemma awaits_returns:
  assumes "awaits s t"
  shows "\<exists>s'. (wait_step serial)\<^sup>*\<^sup>* s s' \<and> pc_of s' t = Returned (to_i64 (answer_of s t))"
proof -
  have wake: "\<exists>s'. wait_step serial u s' \<and> pc_of s' t = Returned (to_i64 (answer_of s t))"
    if "pc_of u t = Waiting" "rpc_done (proc_state u) = 1"
      "read_ret (proc_state u) = to_i64 (answer_of s t)" for u
    using wait_step.wait_wake [of u t "to_i64 (answer_of s t)" "proc_state u" serial] that
    by (auto simp: read_block_Inr)
  from assms consider "outstanding s = [(t, answer_of s t)]" "rpc_done (proc_state s) = 0" "pc_of s t = Waiting"
    | "rpc_done (proc_state s) = 1" "read_ret (proc_state s) = to_i64 (answer_of s t)" "pc_of s t = Waiting"
    by (auto simp: awaits_def)
  then show ?thesis
  proof cases
    case 1
    let ?p = "(proc_state s)\<lparr>rpc_done := 1, read_ret := to_i64 (answer_of s t)\<rparr>"
    let ?u = "s\<lparr>proc_state := ?p, outstanding := []\<rparr>"
    have "wait_step serial s ?u"
      using wait_step.wait_answer [OF _ read_callback, of s "[]" t "answer_of s t" "[]" serial] 1
      by simp
    moreover obtain s' where "wait_step serial ?u s'" "pc_of s' t = Returned (to_i64 (answer_of s t))"
      using wake [of ?u] 1(3) by auto
    ultimately show ?thesis by (meson converse_rtranclp_into_rtranclp r_into_rtranclp)
  next
    case 2
    with wake [of s] show ?thesis by blast
  qed
qed

lemma one_read_at_a_time:
  assumes "reach wait_start (wait_step True) s" and "pc_of s t = Waiting"
  shows "(\<exists>s'. (wait_step True)\<^sup>*\<^sup>* s s' \<and> pc_of s' t = Returned (to_i64 (answer_of s t))) \<and>
    (\<forall>u v. pc_of s u \<noteq> Returned v \<or> v = to_i64 (answer_of s u))"
proof -
  have "one_read s" using assms(1) by (rule one_at_a_time.reach_inv)
  with awaits_returns [OF one_read_awaits [OF this assms(2)], of True] show ?thesis
    by (auto simp: one_read_def)
qed

section \<open>Two reads at once\<close>

text \<open>
  No thread can go on, and no answer is on its way: without another read, nothing happens
  any more.
\<close>

definition stuck :: "rpc_wait \<Rightarrow> bool" where
  "stuck s \<longleftrightarrow> outstanding s = [] \<and> rpc_done (proc_state s) \<noteq> 1"

lemma stuck_no_return:
  assumes "stuck s" and "wait_step serial s s'" and "pc_of s t = Waiting"
  shows "pc_of s' t = Waiting"
  using assms(2)
  by (cases rule: wait_step.cases) (use assms in \<open>auto simp: stuck_def read_block_Inr\<close>)

text \<open>The state in which thread 0 and then thread 1 have started a read.\<close>

definition two_reads :: "rpc_wait \<Rightarrow> cint \<Rightarrow> cint \<Rightarrow> rpc_wait" where
  "two_reads s r0 r1 = s\<lparr>proc_state := begin_read (begin_read (proc_state s)),
     pc_of := (pc_of s)(0 := Waiting, 1 := Waiting), outstanding := [(0, r0), (1, r1)],
     answer_of := (answer_of s)(0 := r0, 1 := r1)\<rparr>"

lemma two_reads_reach:
  assumes "wait_start s"
  shows "reach wait_start (wait_step False) (two_reads s r0 r1)"
proof -
  let ?s1 = "s\<lparr>proc_state := begin_read (proc_state s), pc_of := (pc_of s)(0 := Waiting),
      outstanding := [(0, r0)], answer_of := (answer_of s)(0 := r0)\<rparr>"
  have "wait_step False s ?s1"
    using wait_step.wait_issue [of s 0 False r0] assms by (simp add: wait_start_def)
  moreover have "wait_step False ?s1 (two_reads s r0 r1)"
    using wait_step.wait_issue [of ?s1 1 False r1] assms by (simp add: wait_start_def two_reads_def)
  ultimately show ?thesis by (meson reach.intros assms)
qed

text \<open>The server answers thread 1 first.\<close>

lemma two_reads_first_answer:
  "wait_step serial (two_reads s r0 r1) ((two_reads s r0 r1)\<lparr>
     proc_state := (begin_read (begin_read (proc_state s)))\<lparr>rpc_done := 1, read_ret := to_i64 r1\<rparr>,
     outstanding := [(0, r0)]\<rparr>)"
  using wait_step.wait_answer [OF _ read_callback, of "two_reads s r0 r1" "[(0, r0)]" 1 r1 "[]" serial]
  by (simp add: two_reads_def begin_read_def)

lemma two_reads_second_answer:
  fixes s r0 r1
  defines "u \<equiv> (two_reads s r0 r1)\<lparr>
     proc_state := (begin_read (begin_read (proc_state s)))\<lparr>rpc_done := 1, read_ret := to_i64 r1\<rparr>,
     outstanding := [(0, r0)]\<rparr>"
  shows "wait_step serial u (u\<lparr>
     proc_state := (proc_state u)\<lparr>rpc_done := 2, read_ret := to_i64 r0\<rparr>, outstanding := []\<rparr>)"
  using wait_step.wait_answer [OF _ read_callback, of u "[]" 0 r0 "[]" serial]
  by (simp add: u_def begin_read_def)

lemma reach_wait_step:
  "reach wait_start (wait_step serial) s \<Longrightarrow> wait_step serial s s' \<Longrightarrow> reach wait_start (wait_step serial) s'"
  by (rule reach_step)

text \<open>Thread 0 takes the answer meant for thread 1.\<close>

lemma two_reads_mixed:
  assumes "wait_start s"
  shows "\<exists>u. reach wait_start (wait_step False) u \<and> answer_of u 0 = r0 \<and> answer_of u 1 = r1 \<and>
    pc_of u 0 = Returned (to_i64 r1)"
proof -
  let ?u = "(two_reads s r0 r1)\<lparr>
     proc_state := (begin_read (begin_read (proc_state s)))\<lparr>rpc_done := 1, read_ret := to_i64 r1\<rparr>,
     outstanding := [(0, r0)]\<rparr>"
  let ?v = "?u\<lparr>proc_state := proc_state ?u, pc_of := (pc_of ?u)(0 := Returned (to_i64 r1))\<rparr>"
  have "reach wait_start (wait_step False) ?u"
    by (rule reach_wait_step [OF two_reads_reach [OF assms] two_reads_first_answer])
  moreover have "wait_step False ?u ?v"
    by (rule wait_wake) (simp_all add: read_block_Inr two_reads_def)
  ultimately have "reach wait_start (wait_step False) ?v" by (rule reach_wait_step)
  then show ?thesis by (intro exI [of _ ?v]) (simp add: two_reads_def)
qed

text \<open>Both answers arrive before either thread looks.\<close>

lemma two_reads_stuck:
  assumes "wait_start s"
  shows "\<exists>u. reach wait_start (wait_step False) u \<and> pc_of u 0 = Waiting \<and> pc_of u 1 = Waiting \<and>
    outstanding u = [] \<and> rpc_done (proc_state u) = 2"
proof -
  let ?u = "(two_reads s 10 20)\<lparr>
     proc_state := (begin_read (begin_read (proc_state s)))\<lparr>rpc_done := 1, read_ret := to_i64 20\<rparr>,
     outstanding := [(0, 10)]\<rparr>"
  have "reach wait_start (wait_step False) ?u"
    by (rule reach_wait_step [OF two_reads_reach [OF assms] two_reads_first_answer])
  from reach_wait_step [OF this two_reads_second_answer]
  show ?thesis by (intro exI conjI) (assumption, simp_all add: two_reads_def)
qed

end
