(* ===== verification/Fine_Mover.thy ===== *)
theory Fine_Mover
  imports Server_Facts
begin

text \<open>
  The copy loop of \<open>src/hvac_data_mover.cpp\<close> cut into its system calls: a directory made, a
  file created, bytes written piece by piece, the copy recorded. The handlers of the RPCs run
  in another thread and can run between any two of them. The theory \<open>Data_Mover\<close> makes a
  round of the loop in one step; here the invariant of the node is shown to hold at every
  point in between.
\<close>

section \<open>The rounds in pieces\<close>

datatype copy_phase =
    Between                    \<comment> \<open>at the head of the loop, or not in it\<close>
  | Made_dir string            \<comment> \<open>after \<open>mkdtemp\<close>, with the name in \<open>newdir\<close>\<close>
  | Writing path "byte list"   \<comment> \<open>inside \<open>fs::copy\<close>, with the destination and what it shall hold\<close>

record cut_node =
  node :: server
  phase :: copy_phase

definition set_files :: "(path \<rightharpoonup> node) \<Rightarrow> cut_node \<Rightarrow> cut_node" where
  "set_files N s = s\<lparr>node := seen N (node s)\<rparr>"

text \<open>\<open>local_list.pop()\<close> and the loop's test.\<close>

definition next_file :: "'a data_mover_scheme \<Rightarrow> 'a data_mover_scheme" where
  "next_file n = n\<lparr>local_list := tl (local_list n),
     mover := (if tl (local_list n) = [] then Mover_looping else Mover_copying)\<rparr>"

text \<open>The name of the copy: \<open>dirpath + "/" + filename\<close>.\<close>

definition copy_name :: "string \<Rightarrow> 'a data_mover_scheme \<Rightarrow> path" where
  "copy_name d n = d @ ''/'' @ filename (hd (local_list n))"

abbreviation files :: "cut_node \<Rightarrow> path \<rightharpoonup> node" where
  "files s \<equiv> nodes (disk (node s))"

abbreviation place :: "cut_node \<Rightarrow> path \<Rightarrow> path" where
  "place s \<equiv> resolve (disk (node s))"

text \<open>
  The steps of the mover thread, and those of the node: a request may come between any two. The
  queued files are regular ones, as in \<open>mover_copy_one\<close>.
\<close>

inductive piece_step :: "cut_node \<Rightarrow> cut_node \<Rightarrow> bool" where
  piece_wait: "mover (node s) \<noteq> Mover_copying \<Longrightarrow> mover_step (node s) n \<Longrightarrow> piece_step s (s\<lparr>node := n\<rparr>)"
| piece_mkdir: "phase s = Between \<Longrightarrow> mover (node s) = Mover_copying \<Longrightarrow> files s (place s d) = None \<Longrightarrow>
    piece_step s ((set_files ((files s)(place s d \<mapsto> Dir)) s)\<lparr>phase := Made_dir d\<rparr>)"
| piece_no_dir: "phase s = Between \<Longrightarrow> mover (node s) = Mover_copying \<Longrightarrow>
    piece_step s (s\<lparr>phase := Made_dir (nvmepath (node s))\<rparr>)"
| piece_create: "phase s = Made_dir d \<Longrightarrow> dst = copy_name d (node s) \<Longrightarrow> dst \<noteq> [] \<Longrightarrow>
    canonical_in (disk (node s)) (hd (local_list (node s))) = Some c \<Longrightarrow>
    file_bytes (disk (node s)) c = Some b \<Longrightarrow> openable (disk (node s)) c \<Longrightarrow> files s (place s dst) = None \<Longrightarrow>
    piece_step s ((set_files ((files s)(place s dst \<mapsto> Reg [])) s)\<lparr>phase := Writing dst b\<rparr>)"
| piece_write: "phase s = Writing dst b \<Longrightarrow> files s (place s dst) = Some (Reg (take k b)) \<Longrightarrow>
    piece_step s (set_files ((files s)(place s dst \<mapsto> Reg (take (k + m) b))) s)"
| piece_record: "phase s = Writing dst b \<Longrightarrow> files s (place s dst) = Some (Reg b) \<Longrightarrow>
    piece_step s (s\<lparr>phase := Between, node := next_file ((node s)\<lparr>path_cache_map :=
      (path_cache_map (node s))(hd (local_list (node s)) \<mapsto> dst)\<rparr>)\<rparr>)"
| piece_throw: "phase s \<noteq> Between \<Longrightarrow> piece_step s (s\<lparr>phase := Between, node := next_file (node s)\<rparr>)"

inductive cut_step :: "rpc_env \<Rightarrow> cut_node \<Rightarrow> cut_node \<Rightarrow> bool" for env :: rpc_env where
  cut_rpc: "run_handler env req (node s) = Inr (out, data, n) \<Longrightarrow> cut_step env s (s\<lparr>node := n\<rparr>)"
| cut_piece: "piece_step s t \<Longrightarrow> cut_step env s t"

definition cut_start :: "cut_node \<Rightarrow> bool" where
  "cut_start s \<longleftrightarrow> phase s = Between \<and> server_started (node s)"

text \<open>
  The whole round is one way through the pieces: what \<open>mover_copy_one\<close> does when directory
  and copy succeed is what the pieces do one after the other.
\<close>

lemma whole_round:
  assumes "phase s = Between" and "mover (node s) = Mover_copying" and "local_list (node s) = p # ps"
    and "fresh_for (disk (node s)) (Some d) p" and "copy_name d (node s) \<noteq> []"
    and "fs_copy (fs_mkdir (disk (node s)) d) ok p (copy_name d (node s)) = Some ds"
  shows "piece_step\<^sup>*\<^sup>* s (s\<lparr>node := mover_copy_one (Some d) ok (node s)\<rparr>)"
proof -
  let ?n = "node s"
  let ?dst = "copy_name d ?n"
  let ?N = "(files s)(place s d \<mapsto> Dir)"
  from fs_copy_SomeD [OF assms(6)] obtain c b where c: "canonical_in (fs_mkdir (disk ?n) d) p = Some c"
    "file_bytes (fs_mkdir (disk ?n) d) c = Some b" "?N (place s ?dst) = None" "openable (disk ?n) c"
    "ds = (fs_mkdir (disk ?n) d)\<lparr>nodes := ?N(place s ?dst \<mapsto> Reg b)\<rparr>"
    using assms(6) by (auto simp: fs_mkdir_def fs_copy_def split: option.splits if_splits)
  define s1 where "s1 = (set_files ?N s)\<lparr>phase := Made_dir d\<rparr>"
  define s2 where "s2 = (set_files ((files s1)(place s1 ?dst \<mapsto> Reg [])) s1)\<lparr>phase := Writing ?dst b\<rparr>"
  define s3 where "s3 = set_files ((files s2)(place s2 ?dst \<mapsto> Reg (take (0 + length b) b))) s2"
  note defs = s1_def s2_def s3_def set_files_def seen_def copy_name_def
  have "piece_step s s1"
    unfolding s1_def using assms by (intro piece_mkdir) (simp_all add: fresh_for_def)
  moreover have "piece_step s1 s2"
    unfolding s2_def
    by (rule piece_create [where d = d and c = c])
      (use c assms(3,5) in \<open>simp_all add: s1_def set_files_def copy_name_def seen_def fs_mkdir_def\<close>)
  moreover have "piece_step s2 s3"
    unfolding s3_def by (rule piece_write [where k = 0]) (simp_all add: s2_def set_files_def)
  moreover have "piece_step s3 (s3\<lparr>phase := Between, node := next_file ((node s3)\<lparr>path_cache_map :=
      (path_cache_map (node s3))(hd (local_list (node s3)) \<mapsto> ?dst)\<rparr>)\<rparr>)"
    by (rule piece_record) (simp_all add: s3_def s2_def set_files_def)
  moreover have "s3\<lparr>phase := Between, node := next_file ((node s3)\<lparr>path_cache_map :=
      (path_cache_map (node s3))(hd (local_list (node s3)) \<mapsto> ?dst)\<rparr>)\<rparr>
    = s\<lparr>node := mover_copy_one (Some d) ok ?n\<rparr>"
    using assms(1,3,6) c
    by (cases s) (simp add: defs mover_copy_one_def next_file_def fs_mkdir_def Let_def)
  ultimately show ?thesis by (metis (no_types) rtranclp.simps)
qed

section \<open>The invariant between the pieces\<close>

text \<open>The node without the file that is being written.\<close>

definition settled :: "cut_node \<Rightarrow> server" where
  "settled s = (case phase s of Writing dst b \<Rightarrow> seen ((files s)(place s dst := None)) (node s) | _ \<Rightarrow> node s)"

definition cut_ok :: "cut_node \<Rightarrow> bool" where
  "cut_ok s \<longleftrightarrow> server_ok (settled s) \<and> (phase s \<noteq> Between \<longrightarrow> mover (node s) = Mover_copying) \<and>
     (\<forall>dst b. phase s = Writing dst b \<longrightarrow> dst \<noteq> [] \<and> (\<exists>k. files s (place s dst) = Some (Reg (take k b))) \<and>
        bytes_at (disk (settled s)) (hd (local_list (node s))) = Some b)"

lemma cut_okD:
  assumes "cut_ok s"
  shows "server_ok (settled s)" and "phase s \<noteq> Between \<Longrightarrow> mover (node s) = Mover_copying"
    and "phase s = Writing dst b \<Longrightarrow> dst \<noteq> []"
    and "phase s = Writing dst b \<Longrightarrow> \<exists>k. files s (place s dst) = Some (Reg (take k b))"
    and "phase s = Writing dst b \<Longrightarrow> bytes_at (disk (settled s)) (hd (local_list (node s))) = Some b"
  using assms by (auto simp: cut_ok_def)

text \<open>With the file as far as it is written, the node is well formed too.\<close>

lemma cut_ok_node:
  assumes "cut_ok s"
  shows "server_ok (node s)"
proof (cases "phase s")
  case (Writing dst b)
  then obtain k where k: "files s (place s dst) = Some (Reg (take k b))" using cut_okD(4) [OF assms] by blast
  have "server_ok (seen (((files s)(place s dst := None))(place s dst \<mapsto> Reg (take k b))) (node s))"
    using cut_okD(1) [OF assms] Writing by (intro server_ok_add_node) (simp_all add: settled_def)
  moreover have "((files s)(place s dst := None))(place s dst \<mapsto> Reg (take k b)) = files s" using k by auto
  ultimately show ?thesis by simp
qed (use cut_okD(1) [OF assms] in \<open>simp_all add: settled_def\<close>)

lemma server_ok_next [simp]: "server_ok n \<Longrightarrow> server_ok (next_file n)"
proof -
  have "cache_coherent (next_file n) = cache_coherent n" by (rule cache_coherent_cong) (simp_all add: next_file_def)
  then show "server_ok n \<Longrightarrow> server_ok (next_file n)"
    by (simp add: server_ok_def next_file_def mover_ok_def descriptors_ok_def)
qed

lemma server_ok_record:
  assumes "server_ok n" and "bytes_at (disk n) p = Some b" and "bytes_at (disk n) q = Some b"
  shows "server_ok (n\<lparr>path_cache_map := (path_cache_map n)(p \<mapsto> q)\<rparr>)"
  using assms by (auto simp: server_ok_def cache_coherent_def mover_ok_def descriptors_ok_def)

text \<open>A handler between two pieces; then the last piece, which records the copy.\<close>

lemma cut_ok_rpc:
  assumes "cut_ok s" and "run_handler env req (node s) = Inr (out, data, n)"
  shows "cut_ok (s\<lparr>node := n\<rparr>)"
proof -
  let ?t = "s\<lparr>node := n\<rparr>"
  note e = handler_effect [OF assms(2)]
  then have k: "keeps_node (node s) n" by (cases rule: node_effect.cases)
  have "server_ok (settled ?t)"
  proof (cases "phase s")
    case (Writing dst b)
    then show ?thesis
      using server_ok_effect [OF _ e, of "(files s)(place s dst := None)"] cut_okD(1) [OF assms(1)] k
      by (simp add: settled_def keeps_node_def)
  qed (use server_ok_handler [OF _ assms(2)] cut_okD(1) [OF assms(1)] in \<open>simp_all add: settled_def\<close>)
  moreover have "bytes_at (disk (settled ?t)) p = bytes_at (disk (settled s)) p" for p
    using k by (intro bytes_at_cong) (auto simp: settled_def keeps_node_def split: copy_phase.split)
  ultimately show ?thesis using assms(1) k by (auto simp: cut_ok_def keeps_node_def)
qed

lemma cut_ok_record:
  assumes "cut_ok s" and "phase s = Writing dst b" and "files s (place s dst) = Some (Reg b)"
  shows "server_ok (next_file ((node s)\<lparr>path_cache_map :=
    (path_cache_map (node s))(hd (local_list (node s)) \<mapsto> dst)\<rparr>))"
proof -
  let ?s = "settled s"
  have n: "node s = seen ((nodes (disk ?s))(place s dst \<mapsto> Reg b)) ?s"
    using assms(2,3) by (simp add: settled_def seen_def fun_upd_idem)
  have free: "nodes (disk ?s) (place s dst) = None" using assms(2) by (simp add: settled_def)
  have "disk (node s) = (disk ?s)\<lparr>nodes := (nodes (disk ?s))(place s dst \<mapsto> Reg b)\<rparr>"
    by (subst n) (simp add: seen_def)
  then have "bytes_at (disk (node s)) (hd (local_list (node s))) = Some b"
    by (rule ssubst) (rule bytes_at_mono [OF cut_okD(5) [OF assms(1,2)] free, of "''x''"], simp)
  moreover have "bytes_at (disk (node s)) dst = Some b"
    using assms(3) cut_okD(3) [OF assms(1,2)] by (simp add: bytes_at_def canonical_in_def file_bytes_def)
  ultimately show ?thesis by (intro server_ok_next server_ok_record [OF cut_ok_node [OF assms(1)]])
qed

lemma cut_ok_piece:
  assumes "cut_ok s" and "piece_step s t"
  shows "cut_ok t"
  using assms(2)
proof (cases rule: piece_step.cases)
  case (piece_wait n)
  then have p: "phase s = Between" using cut_okD(2) [OF assms(1)] by blast
  with server_ok_mover [OF piece_wait(3)] cut_okD(1) [OF assms(1)] show ?thesis
    by (simp add: cut_ok_def settled_def piece_wait(1))
next
  case (piece_mkdir d)
  then show ?thesis
    using server_ok_add_node [of "files s" "node s"] cut_ok_node [OF assms(1)]
    by (simp add: cut_ok_def settled_def set_files_def)
next
  case piece_no_dir
  with assms(1) show ?thesis by (simp add: cut_ok_def settled_def)
next
  case (piece_create d dst c b)
  have "seen (((files s)(place s dst \<mapsto> Reg []))(place s dst := None)) (seen x (node s)) = node s" for x
    using piece_create(8) by (simp add: fun_upd_idem seen_def)
  then have "settled t = node s" by (simp add: settled_def piece_create(1) set_files_def)
  moreover have "files t (place t dst) = Some (Reg (take 0 b))" by (simp add: piece_create(1) set_files_def)
  moreover have "bytes_at (disk (node s)) (hd (local_list (node s))) = Some b"
    using piece_create by (simp add: bytes_at_def)
  ultimately show ?thesis
    using cut_ok_node [OF assms(1)] cut_okD(2) [OF assms(1)] piece_create
    by (auto simp: cut_ok_def set_files_def)
next
  case (piece_write dst b k m)
  then have "settled t = settled s" by (simp add: settled_def set_files_def) (simp add: seen_def)
  with assms(1) piece_write show ?thesis by (auto simp: cut_ok_def set_files_def)
next
  case (piece_record dst b)
  with cut_ok_record [OF assms(1)] show ?thesis by (simp add: cut_ok_def settled_def)
next
  case piece_throw
  then show ?thesis using cut_ok_node [OF assms(1)] by (simp add: cut_ok_def settled_def)
qed

lemma cut_ok_step: "cut_ok s \<Longrightarrow> cut_step env s t \<Longrightarrow> cut_ok t"
  by (cases rule: cut_step.cases) (auto intro: cut_ok_rpc cut_ok_piece)

interpretation cut_copy: inductive_invariant cut_start "cut_step env" cut_ok for env
proof unfold_locales
  show "cut_ok s" if "cut_start s" for s
    using that server_started_ok [of "node s"] by (simp add: cut_start_def cut_ok_def settled_def)
qed (rule cut_ok_step)

text \<open>
  The piece a copy is at is invisible: a descriptor that leads to another file shows what it
  shows without the copy, and keeps showing it while the copy goes on.
\<close>

lemma settled_view:
  assumes "fdtab (disk (node s)) fd = Some f" and "\<forall>dst b. phase s = Writing dst b \<longrightarrow> of_path f \<noteq> place s dst"
  shows "fd_view (disk (node s)) fd = fd_view (disk (settled s)) fd"
  using assms by (auto simp: fd_view_def settled_def file_bytes_def split: copy_phase.split)

text \<open>No recorded copy is the file that is being written.\<close>

lemma cut_ok_not_redirected:
  assumes "cut_ok s" and "phase s = Writing dst b" and "path_cache_map (node s) p = Some q"
  shows "place s q \<noteq> place s dst"
proof -
  have "cache_coherent (settled s)" using cut_okD(1) [OF assms(1)] by (simp add: server_ok_def)
  with assms(2,3) have "bytes_at (disk (settled s)) q \<noteq> None"
    by (fastforce simp: cache_coherent_def settled_def)
  with assms(2) show ?thesis
    by (auto simp: settled_def bytes_at_def canonical_in_def Let_def split: if_splits)
qed

end
