(* ===== verification/Transfers.thy ===== *)
theory Transfers
  imports Server_Facts "HOL-Library.Multiset"
begin

text \<open>
  The bulk transfers of \<open>src/hvac_comm.cpp\<close>. \<open>hvac_rpc_handler\<close> reads the file, starts a
  transfer and returns; \<open>hvac_rpc_handler_bulk_cb\<close> answers when Mercury reports the end of the
  transfer. In between the progress thread handles other requests, and transfers can end in any
  order. The theory \<open>Server\<close> runs a handler together with its callback; here the two are apart,
  and what the clients are answered is shown to be what they are answered there.
\<close>

section \<open>The two halves of a read\<close>

text \<open>
  \<open>struct hvac_rpc_state\<close>: what the callback finds. The bulk handle is the buffer registered
  for the transfer, and \<open>rpc_handle\<close> numbers the requests.
\<close>

record hvac_rpc_state =
  rpc_size :: i64
  rpc_buffer :: "byte list"
  rpc_handle :: nat
  rpc_input :: hvac_rpc_in_t

definition hvac_rpc_handler_start ::
  "rpc_env \<Rightarrow> nat \<Rightarrow> hvac_rpc_in_t \<Rightarrow> 'a server_scheme \<Rightarrow> (hvac_rpc_state \<times> 'a server_scheme) outcome" where
  "hvac_rpc_handler_start env handle inp s =
     (if \<not> get_input_ok env then Inl Undefined_behaviour
      else let nbytes = to_i64 (input_val inp);
          st = \<lparr>rpc_size = nbytes, rpc_buffer = replicate (unat nbytes) 0, rpc_handle = handle,
                rpc_input = inp\<rparr>
      in assert_that (calloc_ok env nbytes) (assert_that (bulk_create_ok env (rpc_size st))
          (case server_file_call env inp (rpc_size st) s of (readbytes, data, s1) \<Rightarrow>
             let st1 = st\<lparr>rpc_buffer := overlay data (rpc_buffer st)\<rparr>;
                 s2 = flush_if_full env (note_path (accessfd inp) s1);
                 st2 = (if readbytes \<noteq> -1 then st1\<lparr>rpc_size := readbytes\<rparr> else st1)
             in assert_that (bulk_push_ok env (rpc_size st2) (bulk_handle inp)) (Inr (st2, s2)))))"

text \<open>The end of a transfer: the answer and the bytes that have arrived in the client's memory.\<close>

definition bulk_cb :: "rpc_env \<Rightarrow> hvac_rpc_state \<Rightarrow> (hvac_rpc_out_t \<times> byte list) outcome" where
  "bulk_cb env st =
     and_then (hvac_rpc_handler_bulk_cb env (rpc_size st)) (\<lambda>out.
       Inr (out, take (unat (rpc_size st)) (rpc_buffer st)))"

lemma hvac_rpc_handler_parts:
  "hvac_rpc_handler env inp s = and_then (hvac_rpc_handler_start env h inp s) (\<lambda>(st, s').
     and_then (bulk_cb env st) (\<lambda>(out, data). Inr (out, data, s')))"
  by (simp add: hvac_rpc_handler_def hvac_rpc_handler_start_def bulk_cb_def Let_def case_prod_beta
      and_then_assoc assert_that_def)

lemma started_for:
  "hvac_rpc_handler_start env h inp s = Inr (st, s') \<Longrightarrow> rpc_handle st = h \<and> rpc_input st = inp"
  by (auto simp: hvac_rpc_handler_start_def Let_def hvac_result split: prod.splits if_splits)

section \<open>A node with transfers under way\<close>

text \<open>An answer: the request's number, the request, the field sent back and the bytes pushed.\<close>

type_synonym reply_entry = "nat \<times> rpc_in \<times> cint option \<times> byte list"

record busy_node =
  bnode :: server
  transfers :: "(rpc_env \<times> hvac_rpc_state) list"
  replies :: "reply_entry list"

text \<open>
  The requests carry the circumstances under which their handlers run, from the set \<open>E\<close>; a
  transfer ends under those of its request.
\<close>

inductive busy_step :: "rpc_env set \<Rightarrow> busy_node \<Rightarrow> busy_node \<Rightarrow> bool" for E :: "rpc_env set" where
  busy_read: "env \<in> E \<Longrightarrow> hvac_rpc_handler_start env h i (bnode b) = Inr (st, n) \<Longrightarrow>
    busy_step E b (b\<lparr>bnode := n, transfers := transfers b @ [(env, st)]\<rparr>)"
| busy_other: "env \<in> E \<Longrightarrow> kind_of req \<noteq> K_read \<Longrightarrow> run_handler env req (bnode b) = Inr (out, data, n) \<Longrightarrow>
    busy_step E b (b\<lparr>bnode := n, replies := replies b @ [(h, req, out, data)]\<rparr>)"
| busy_done: "transfers b = xs @ (env, st) # ys \<Longrightarrow> bulk_cb env st = Inr (out, data) \<Longrightarrow>
    busy_step E b (b\<lparr>transfers := xs @ ys,
      replies := replies b @ [(rpc_handle st, Read_in (rpc_input st), Some (rpc_ret out), data)]\<rparr>)"
| busy_mover: "mover_step (bnode b) n \<Longrightarrow> busy_step E b (b\<lparr>bnode := n\<rparr>)"

definition busy_start :: "server \<Rightarrow> busy_node \<Rightarrow> bool" where
  "busy_start n b \<longleftrightarrow> bnode b = n \<and> transfers b = [] \<and> replies b = []"

text \<open>The specification: every request is handled and answered in one step.\<close>

record whole_node =
  wnode :: server
  history :: "reply_entry list"

inductive whole_step :: "rpc_env set \<Rightarrow> whole_node \<Rightarrow> whole_node \<Rightarrow> bool" for E :: "rpc_env set" where
  whole_rpc: "env \<in> E \<Longrightarrow> run_handler env req (wnode w) = Inr (out, data, n) \<Longrightarrow>
    whole_step E w (w\<lparr>wnode := n, history := history w @ [(h, req, out, data)]\<rparr>)"
| whole_mover: "mover_step (wnode w) n \<Longrightarrow> whole_step E w (w\<lparr>wnode := n\<rparr>)"

section \<open>Refinement\<close>

text \<open>The answer a transfer will give, and what has still to be answered.\<close>

definition reply_of :: "rpc_env \<times> hvac_rpc_state \<Rightarrow> reply_entry" where
  "reply_of t = (case t of (env, st) \<Rightarrow> (rpc_handle st, Read_in (rpc_input st), Some (to_int (rpc_size st)),
     take (unat (rpc_size st)) (rpc_buffer st)))"

definition transfers_succeed :: "rpc_env set \<Rightarrow> bool" where
  "transfers_succeed E \<longleftrightarrow> (\<forall>env \<in> E. bulk_done_ok env \<and> respond_ok env)"

lemma bulk_cb_ok:
  "bulk_done_ok env \<Longrightarrow> respond_ok env \<Longrightarrow>
   bulk_cb env st = Inr (\<lparr>rpc_ret = to_int (rpc_size st)\<rparr>, take (unat (rpc_size st)) (rpc_buffer st))"
  by (simp add: bulk_cb_def hvac_rpc_handler_bulk_cb_def Let_def)

text \<open>A busy node stands for the node in which every transfer under way has been answered.\<close>

definition stands_for :: "rpc_env set \<Rightarrow> busy_node \<Rightarrow> whole_node \<Rightarrow> bool" where
  "stands_for E b w \<longleftrightarrow> wnode w = bnode b \<and> fst ` set (transfers b) \<subseteq> E \<and>
     mset (history w) = mset (replies b) + mset (map reply_of (transfers b))"

lemma stands_for_step:
  assumes "stands_for E b w" and "transfers_succeed E" and "busy_step E b b'"
  shows "\<exists>w'. (whole_step E)\<^sup>*\<^sup>* w w' \<and> stands_for E b' w'"
  using assms(3)
proof (cases rule: busy_step.cases)
  case (busy_read env h i st n)
  then have ok: "bulk_done_ok env" "respond_ok env" using assms(2) by (simp_all add: transfers_succeed_def)
  let ?e = "reply_of (env, st)"
  have "?e = (h, Read_in i, Some (to_int (rpc_size st)), take (unat (rpc_size st)) (rpc_buffer st))"
    using started_for [OF busy_read(3)] by (simp add: reply_of_def)
  moreover have "run_handler env (Read_in i) (wnode w)
      = Inr (Some (to_int (rpc_size st)), take (unat (rpc_size st)) (rpc_buffer st), n)"
    using busy_read(3) assms(1)
    by (simp add: run_handler_def hvac_rpc_handler_parts [of env i _ h] bulk_cb_ok [OF ok] stands_for_def)
  ultimately have "whole_step E w (w\<lparr>wnode := n, history := history w @ [?e]\<rparr>)"
    using whole_rpc [OF busy_read(2)] by simp
  then show ?thesis
    using assms(1) busy_read by (intro exI [of _ "w\<lparr>wnode := n, history := history w @ [?e]\<rparr>"])
      (auto simp: stands_for_def)
next
  case (busy_other env req out data n h)
  have "whole_step E w (w\<lparr>wnode := n, history := history w @ [(h, req, out, data)]\<rparr>)"
    using busy_other assms(1) by (intro whole_rpc) (simp_all add: stands_for_def)
  then show ?thesis
    using assms(1) busy_other by (intro exI [of _ "w\<lparr>wnode := n, history := history w @ [(h, req, out, data)]\<rparr>"])
      (auto simp: stands_for_def)
next
  case (busy_done xs env st ys out data)
  then have "env \<in> E" using assms(1) by (auto simp: stands_for_def)
  then have "out = \<lparr>rpc_ret = to_int (rpc_size st)\<rparr>" "data = take (unat (rpc_size st)) (rpc_buffer st)"
    using assms(2) busy_done(3) bulk_cb_ok [of env st] by (simp_all add: transfers_succeed_def)
  then have "(rpc_handle st, Read_in (rpc_input st), Some (rpc_ret out), data) = reply_of (env, st)"
    by (simp add: reply_of_def)
  with assms(1) busy_done show ?thesis by (intro exI [of _ w]) (auto simp: stands_for_def)
next
  case (busy_mover n)
  have "whole_step E w (w\<lparr>wnode := n\<rparr>)"
    using busy_mover assms(1) by (intro whole_mover) (simp add: stands_for_def)
  then show ?thesis
    using assms(1) busy_mover by (intro exI [of _ "w\<lparr>wnode := n\<rparr>"]) (auto simp: stands_for_def)
qed

lemma stands_for_run:
  assumes "(busy_step E)\<^sup>*\<^sup>* b b'" and "transfers_succeed E" and "stands_for E b w"
  shows "\<exists>w'. (whole_step E)\<^sup>*\<^sup>* w w' \<and> stands_for E b' w'"
  using assms(1)
proof (induction rule: rtranclp_induct)
  case base
  with assms(3) show ?case by blast
next
  case (step b1 b2)
  then obtain w1 where w1: "(whole_step E)\<^sup>*\<^sup>* w w1" "stands_for E b1 w1" by blast
  from stands_for_step [OF w1(2) assms(2) step(2)] w1(1) show ?case by (meson rtranclp_trans)
qed

lemma transfer_ends:
  assumes "transfers_succeed E" and "fst t \<in> E" and "transfers b = xs @ t # ys"
  shows "busy_step E b (b\<lparr>transfers := xs @ ys, replies := replies b @ [reply_of t]\<rparr>)"
proof -
  obtain env st where t: "t = (env, st)" by (cases t)
  then have "bulk_done_ok env" "respond_ok env" using assms(1,2) by (simp_all add: transfers_succeed_def)
  from busy_done [OF _ bulk_cb_ok [OF this, of st], of b xs ys E] assms(3) t show ?thesis
    by (simp add: reply_of_def)
qed

text \<open>Nothing is in the way of a transfer: all of them can end, from first to last.\<close>

lemma transfers_drain:
  assumes "transfers_succeed E" and "fst ` set ts \<subseteq> E" and "transfers b = ts"
  shows "(busy_step E)\<^sup>*\<^sup>* b (b\<lparr>transfers := [], replies := replies b @ map reply_of ts\<rparr>)"
  using assms(2,3)
proof (induction ts arbitrary: b)
  case Nil
  then show ?case by (cases b) simp
next
  case (Cons t ts)
  let ?b = "b\<lparr>transfers := ts, replies := replies b @ [reply_of t]\<rparr>"
  have "busy_step E b ?b"
    using transfer_ends [OF assms(1), of t b "[]" ts] Cons.prems by simp
  moreover have "(busy_step E)\<^sup>*\<^sup>* ?b (b\<lparr>transfers := [], replies := replies b @ map reply_of (t # ts)\<rparr>)"
    using Cons.IH [of ?b] Cons.prems(1) by simp
  ultimately show ?case by (rule converse_rtranclp_into_rtranclp)
qed

text \<open>The invariant of the node over whole steps, and so over busy ones.\<close>

lemma server_ok_whole_step: "whole_step E w w' \<Longrightarrow> server_ok (wnode w) \<Longrightarrow> server_ok (wnode w')"
  by (cases rule: whole_step.cases) (auto intro: server_ok_handler server_ok_mover)

lemma server_ok_whole_run: "(whole_step E)\<^sup>*\<^sup>* w w' \<Longrightarrow> server_ok (wnode w) \<Longrightarrow> server_ok (wnode w')"
  by (induction rule: rtranclp_induct) (auto intro: server_ok_whole_step)

text \<open>A read that succeeds, from its start to the answer its transfer will give.\<close>

lemma start_success:
  assumes "rpc_env_ok env (to_i64 (input_val inp)) (bulk_handle inp)"
    and "server_file_call env inp (to_i64 (input_val inp)) s = (of_nat (length d), d, s1)"
    and "length d < 2 ^ 31" and "length d \<le> unat (bulk_handle inp)"
  shows "\<exists>st. hvac_rpc_handler_start env h inp s = Inr (st, flush_if_full env (note_path (accessfd inp) s1)) \<and>
    reply_of (env, st) = (h, Read_in inp, Some (to_int (of_nat (length d))), d)"
  using assms
  by (simp add: hvac_rpc_handler_start_def reply_of_def rpc_env_ok_def Let_def of_nat_neq_minus_one
      unat_of_nat_i64 overlay_def)

end
