(* ===== verification/Mover_Refines.thy ===== *)
theory Mover_Refines
  imports Fine_Mover Transfers
begin

text \<open>
  Why a round of the data mover may be taken as one step. A node whose mover works call by call
  (\<open>Fine_Mover\<close>) is compared with one whose mover copies a file at once (\<open>whole_step\<close>): as long
  as no request asks for one of the mover's directories or for a file that it is writing or has
  given up, both answer every request in the same way. What the first has on its disk and the
  second has not is exactly the unfinished work of the mover.
\<close>

section \<open>Requests on a disk with fewer files\<close>

text \<open>The names of the disk that a node without the files outside \<open>M\<close> can rely on.\<close>

definition open_files_in :: "(path \<rightharpoonup> node) \<Rightarrow> posix \<Rightarrow> bool" where
  "open_files_in M ps \<longleftrightarrow> (\<forall>fd f. fdtab ps fd = Some f \<longrightarrow> M (of_path f) \<noteq> None)"

abbreviation with_nodes :: "(path \<rightharpoonup> node) \<Rightarrow> posix \<Rightarrow> posix" where
  "with_nodes M ps \<equiv> ps\<lparr>nodes := M\<rparr>"

lemma map_le_file_bytes:
  "M \<subseteq>\<^sub>m nodes ps \<Longrightarrow> M c \<noteq> None \<Longrightarrow> file_bytes (with_nodes M ps) c = file_bytes ps c"
  by (auto simp: file_bytes_def map_le_def domIff)

lemma open_with_nodes:
  assumes "M (resolve ps p) = None \<longleftrightarrow> nodes ps (resolve ps p) = None"
  shows "posix_open (with_nodes M ps) p = (fst (posix_open ps p), with_nodes M (snd (posix_open ps p)))"
  using assms
  by (simp add: posix_open_def canonical_in_def alloc_fd_def Let_def split: option.split)

lemma read_with_nodes:
  assumes "M \<subseteq>\<^sub>m nodes ps" and "open_files_in M ps"
  shows "posix_read (with_nodes M ps) fd n = (case posix_read ps fd n of (r, d, ps') \<Rightarrow> (r, d, with_nodes M ps'))"
    and "posix_pread (with_nodes M ps) fd n off = posix_pread ps fd n off"
    and "posix_lseek (with_nodes M ps) fd off w = (case posix_lseek ps fd off w of (r, ps') \<Rightarrow> (r, with_nodes M ps'))"
proof -
  have "file_bytes (with_nodes M ps) (of_path f) = file_bytes ps (of_path f)" if "fdtab ps fd = Some f" for f
    using assms that by (intro map_le_file_bytes) (auto simp: open_files_in_def)
  then show "posix_read (with_nodes M ps) fd n = (case posix_read ps fd n of (r, d, ps') \<Rightarrow> (r, d, with_nodes M ps'))"
    and "posix_pread (with_nodes M ps) fd n off = posix_pread ps fd n off"
    and "posix_lseek (with_nodes M ps) fd off w = (case posix_lseek ps fd off w of (r, ps') \<Rightarrow> (r, with_nodes M ps'))"
    by (auto simp: posix_read_def posix_pread_def posix_lseek_def Let_def split: option.split)
qed

lemma close_with_nodes:
  "posix_close (with_nodes M ps) fd = (fst (posix_close ps fd), with_nodes M (snd (posix_close ps fd)))"
  by (simp add: posix_close_def)

text \<open>The handlers see their node's files through these calls only.\<close>

definition sees_same :: "(path \<rightharpoonup> node) \<Rightarrow> rpc_in \<Rightarrow> 'a data_mover_scheme \<Rightarrow> bool" where
  "sees_same M req s \<longleftrightarrow> (case req of Open_in i \<Rightarrow>
       (let q = (case path_cache_map s (in_path i) of Some q \<Rightarrow> q | None \<Rightarrow> in_path i)
        in M (resolve (disk s) q) = None \<longleftrightarrow> nodes (disk s) (resolve (disk s) q) = None)
     | _ \<Rightarrow> True)"

lemma seen_log_push [simp]: "log_push oper d (seen M s) = seen M (log_push oper d s)"
  by (simp add: log_push_def seen_def)

lemma seen_flush [simp]: "flush_if_full env (seen M s) = seen M (flush_if_full env s)"
  by (simp add: flush_if_full_def append_to_file_def seen_def Let_def)

lemma seen_note [simp]: "note_path fd (seen M s) = seen M (note_path fd s)"
  by (simp add: note_path_def seen_def)

lemma seen_disk: "disk (seen M s) = with_nodes M (disk s)"
  by (simp add: seen_def)

lemma seen_updates:
  "(seen M s)\<lparr>disk := with_nodes M ps\<rparr> = seen M (s\<lparr>disk := ps\<rparr>)"
  "(seen M s)\<lparr>fd_to_path := m\<rparr> = seen M (s\<lparr>fd_to_path := m\<rparr>)"
  "(seen M s)\<lparr>data_queue := q\<rparr> = seen M (s\<lparr>data_queue := q\<rparr>)"
  "data_cond_signal (seen M s) = seen M (data_cond_signal s)"
  "data_queue (seen M s) = data_queue s"
  by (simp_all add: seen_def data_cond_signal_def)

lemma file_call_seen:
  assumes "M \<subseteq>\<^sub>m nodes (disk s)" and "open_files_in M (disk s)"
  shows "server_file_call env i n (seen M s)
    = (case server_file_call env i n s of (r, d, s') \<Rightarrow> (r, d, seen M s'))"
  by (simp add: server_file_call_def seen_disk read_with_nodes [OF assms] case_prod_beta)
    (simp add: seen_def log_push_def)

lemma read_handler_seen:
  assumes "M \<subseteq>\<^sub>m nodes (disk s)" and "open_files_in M (disk s)"
    and "hvac_rpc_handler env i s = Inr (out, data, s')"
  shows "hvac_rpc_handler env i (seen M s) = Inr (out, data, seen M s')"
  using assms(3)
  by (auto simp: hvac_rpc_handler_def file_call_seen [OF assms(1,2)] Let_def hvac_result split: prod.splits)

lemma open_handler_seen:
  assumes "sees_same M (Open_in i) s" and "hvac_open_rpc_handler env i s = Inr (out, s')"
  shows "hvac_open_rpc_handler env i (seen M s) = Inr (out, seen M s')"
proof (cases "path_cache_map s (in_path i)")
  case None
  with assms(1) have "posix_open (with_nodes M (disk s)) (in_path i)
      = (fst (posix_open (disk s) (in_path i)), with_nodes M (snd (posix_open (disk s) (in_path i))))"
    by (intro open_with_nodes) (simp add: sees_same_def Let_def)
  with None assms(2) show ?thesis
    by (auto simp: hvac_open_rpc_handler_def hvac_result seen_disk seen_updates case_prod_beta Let_def)
next
  case (Some q)
  with assms(1) have "posix_open (with_nodes M (disk s)) q
      = (fst (posix_open (disk s) q), with_nodes M (snd (posix_open (disk s) q)))"
    by (intro open_with_nodes) (simp add: sees_same_def Let_def)
  with Some assms(2) show ?thesis
    by (auto simp: hvac_open_rpc_handler_def hvac_result seen_disk seen_updates case_prod_beta Let_def)
qed

lemma close_handler_seen:
  assumes "hvac_close_rpc_handler env i s = Inr s'"
  shows "hvac_close_rpc_handler env i (seen M s) = Inr (seen M s')"
  using assms
  by (auto simp: hvac_close_rpc_handler_def hvac_result seen_disk close_with_nodes seen_updates case_prod_beta Let_def)

lemma seek_handler_seen:
  assumes "M \<subseteq>\<^sub>m nodes (disk s)" and "open_files_in M (disk s)"
    and "hvac_seek_rpc_handler env i s = Inr (out, s')"
  shows "hvac_seek_rpc_handler env i (seen M s) = Inr (out, seen M s')"
  using assms(3)
  by (auto simp: hvac_seek_rpc_handler_def hvac_result seen_disk seen_updates read_with_nodes [OF assms(1,2)]
      case_prod_beta)

lemma run_handler_seen:
  assumes "M \<subseteq>\<^sub>m nodes (disk s)" and "open_files_in M (disk s)" and "sees_same M req s"
    and "run_handler env req s = Inr (out, data, s')"
  shows "run_handler env req (seen M s) = Inr (out, data, seen M s')"
  using assms(3,4)
  by (cases req)
    (fastforce simp: run_handler_def and_then_eq_Inr dest: open_handler_seen close_handler_seen
      read_handler_seen [OF assms(1,2)] seek_handler_seen [OF assms(1,2)])+

section \<open>The names a node keeps\<close>

definition keeps_name :: "'a data_mover_scheme \<Rightarrow> path \<Rightarrow> bool" where
  "keeps_name n p \<longleftrightarrow> p \<noteq> [] \<and> (p \<in> set (data_queue n) \<or> p \<in> set (local_list n) \<or>
     (\<exists>fd. fdtab (disk n) fd \<noteq> None \<and> fd_to_path n fd = Some p) \<or>
     p \<in> dom (path_cache_map n) \<or> p \<in> ran (path_cache_map n))"

text \<open>Everything the node has open, queued or recorded is among the files \<open>M\<close>.\<close>

definition relies_on :: "(path \<rightharpoonup> node) \<Rightarrow> 'a data_mover_scheme \<Rightarrow> bool" where
  "relies_on M n \<longleftrightarrow> open_files_in M (disk n) \<and> (\<forall>p. keeps_name n p \<longrightarrow> M (resolve (disk n) p) \<noteq> None)"

lemma relies_onD:
  "relies_on M n \<Longrightarrow> keeps_name n p \<Longrightarrow> M (resolve (disk n) p) \<noteq> None"
  "relies_on M n \<Longrightarrow> open_files_in M (disk n)"
  by (simp_all add: relies_on_def)

lemma relies_on_seen [simp]: "relies_on M (seen N n) = relies_on M n"
  by (simp add: relies_on_def open_files_in_def keeps_name_def) (simp add: seen_def)

text \<open>What a handler does to the queue: a close appends the name of the descriptor it closes.\<close>

lemma handler_queue:
  assumes "run_handler env req s = Inr (out, data, s')" and "p \<in> set (data_queue s')"
  shows "p \<in> set (data_queue s) \<or> p = [] \<or> (\<exists>fd. fdtab (disk s) fd \<noteq> None \<and> fd_to_path s fd = Some p)"
proof (cases req)
  case (Close_in i)
  show ?thesis
  proof (cases "fdtab (disk s) (close_fd i)")
    case None
    with assms(1) Close_in show ?thesis
      by (simp add: run_handler_def hvac_close_rpc_handler_def posix_close_def Let_def hvac_result)
  next
    case (Some f)
    have "set (data_queue s') \<subseteq> insert (fst (map_index [] (fd_to_path s) (close_fd i))) (set (data_queue s))"
      using assms(1) Close_in
      by (auto simp: run_handler_def hvac_close_rpc_handler_def Let_def hvac_result log_push_def flush_if_full_def
          append_to_file_def data_cond_signal_def split: prod.splits if_splits)
    with assms(2) Some show ?thesis by (auto simp: fst_map_index split: option.splits)
  qed
next
  case (Open_in i)
  have "data_queue s' = data_queue s"
    using assms(1) Open_in
    by (auto simp: run_handler_def hvac_open_rpc_handler_def Let_def hvac_result log_push_def flush_if_full_def
        append_to_file_def split: prod.splits option.splits)
  with assms(2) show ?thesis by simp
next
  case (Read_in i)
  have "data_queue s' = data_queue s"
    using assms(1) Read_in
    by (auto simp: run_handler_def hvac_rpc_handler_def server_file_call_def Let_def hvac_result log_push_def
        note_path_def flush_if_full_def append_to_file_def split: prod.splits if_splits)
  with assms(2) show ?thesis by simp
next
  case (Seek_in i)
  with assms show ?thesis
    by (auto simp: run_handler_def hvac_seek_rpc_handler_def Let_def hvac_result split: prod.splits)
qed

text \<open>The parts of the state that no handler touches.\<close>

lemma handler_frame:
  assumes "run_handler env req s = Inr (out, data, s')"
  shows "openable (disk s') = openable (disk s) \<and> nvmepath s' = nvmepath s"
  using assms
  by (cases req)
    (auto simp: run_handler_def hvac_open_rpc_handler_def hvac_rpc_handler_def hvac_close_rpc_handler_def
      hvac_seek_rpc_handler_def server_file_call_def Let_def hvac_result log_push_def note_path_def flush_if_full_def
      append_to_file_def data_cond_signal_def posix_open_def posix_read_def posix_lseek_def posix_close_def
      split: prod.splits if_splits option.splits)

lemma recorded_not_Nil: "cache_coherent n \<Longrightarrow> path_cache_map n p = Some q \<Longrightarrow> p \<noteq> [] \<and> q \<noteq> []"
  by (fastforce simp: cache_coherent_def bytes_at_def canonical_in_def)

lemma relies_on_handler:
  assumes "relies_on M s" and "cache_coherent s" and "fds_ok (disk s)" and "sees_same M req s"
    and "run_handler env req s = Inr (out, data, s')"
  shows "relies_on M s'"
  using handler_effect [OF assms(5)]
proof (cases rule: node_effect.cases)
  case ne_use
  then have k: "resolve (disk s') = resolve (disk s)" "path_cache_map s' = path_cache_map s" "local_list s' = local_list s"
    by (simp_all add: keeps_node_def)
  have "keeps_name s p" if "keeps_name s' p" for p
    using that handler_queue [OF assms(5), of p] ne_use(3,4) k
    by (fastforce simp: keeps_name_def same_files_def names_from_def)
  moreover have "open_files_in M (disk s')"
    using relies_onD(2) [OF assms(1)] ne_use(3) by (fastforce simp: open_files_in_def same_files_def)
  ultimately show ?thesis using assms(1) by (simp add: relies_on_def k)
next
  case (ne_open i q)
  then have k: "resolve (disk s') = resolve (disk s)" "path_cache_map s' = path_cache_map s" "local_list s' = local_list s"
    by (simp_all add: keeps_node_def)
  have other: "keeps_name s p \<or> (fst (posix_open (disk s) q) \<noteq> -1 \<and> p = in_path i)" if "keeps_name s' p" for p
  proof (cases rule: posix_open_cases [of "disk s" q])
    case fail
    with that handler_queue [OF assms(5), of p] ne_open(4,5) k assms(3) show ?thesis
      by (auto simp: keeps_name_def fds_ok_def split: if_splits)
  next
    case (ok c fd)
    then have "fd \<noteq> -1" using fds_ok_calls(1) [OF assms(3), of q] by (auto simp: fds_ok_def)
    with ok that handler_queue [OF assms(5), of p] ne_open(4,5) k show ?thesis
      by (auto simp: keeps_name_def split: if_splits)
  qed
  show ?thesis
  proof (cases rule: posix_open_cases [of "disk s" q])
    case fail
    with assms(1) other ne_open(4) k show ?thesis by (auto simp: relies_on_def)
  next
    case (ok c fd)
    have c: "c = resolve (disk s) q" "nodes (disk s) c \<noteq> None" using ok(1) by (auto simp: canonical_in_Some)
    then have M: "M c \<noteq> None" using assms(4) ne_open(1,3) by (auto simp: sees_same_def Let_def)
    have "M (resolve (disk s) (in_path i)) \<noteq> None"
    proof (cases "path_cache_map s (in_path i)")
      case None
      with M c(1) ne_open(3) show ?thesis by simp
    next
      case (Some q')
      with recorded_not_Nil [OF assms(2)] have "keeps_name s (in_path i)" by (auto simp: keeps_name_def)
      with relies_onD(1) [OF assms(1)] show ?thesis by blast
    qed
    then have "M (resolve (disk s') p) \<noteq> None" if "keeps_name s' p" for p
      using other [OF that] relies_onD(1) [OF assms(1), of p] by (auto simp: k)
    moreover have "open_files_in M (disk s')"
      using relies_onD(2) [OF assms(1)] M ok(4) ne_open(4) by (auto simp: open_files_in_def)
    ultimately show ?thesis by (simp add: relies_on_def)
  qed
qed

section \<open>The simulation\<close>

text \<open>
  The mover's unfinished work: a directory that is to hold a copy, and the copy. When
  \<open>mkdtemp\<close> has failed the code goes on with the template as the name.
\<close>

definition new_dir :: "(path \<rightharpoonup> node) \<Rightarrow> cut_node \<Rightarrow> string \<Rightarrow> bool" where
  "new_dir M s d \<longleftrightarrow> M (place s d) = None \<and> files s (place s d) = Some Dir"

definition unfinished :: "(path \<rightharpoonup> node) \<Rightarrow> cut_node \<Rightarrow> bool" where
  "unfinished M s \<longleftrightarrow> (case phase s of
       Between \<Rightarrow> True
     | Made_dir d \<Rightarrow> new_dir M s d \<or> d = nvmepath (node s)
     | Writing dst b \<Rightarrow> M (place s dst) = None \<and> openable (disk (node s)) (place s (hd (local_list (node s)))) \<and>
         (\<exists>d. dst = copy_name d (node s) \<and> (new_dir M s d \<or> d = nvmepath (node s))))"

text \<open>The node \<open>n\<close> has of the files of \<open>s\<close> those in \<open>M\<close>: the files there were, and every recorded copy.\<close>

definition lags_behind :: "(path \<rightharpoonup> node) \<Rightarrow> cut_node \<Rightarrow> server \<Rightarrow> bool" where
  "lags_behind N0 s n \<longleftrightarrow> cut_ok s \<and> (\<exists>M. n = seen M (node s) \<and> M \<subseteq>\<^sub>m files s \<and> dom N0 \<subseteq> dom M \<and>
     relies_on M (node s) \<and> unfinished M s)"

text \<open>
  A request does not disturb when it asks for a file that was there before, for a recorded
  copy, or for a name that does not exist.
\<close>

definition asks_ok :: "(path \<rightharpoonup> node) \<Rightarrow> cut_node \<Rightarrow> rpc_in \<Rightarrow> bool" where
  "asks_ok N0 s req \<longleftrightarrow> (case req of
       Open_in i \<Rightarrow> place s (in_path i) \<in> dom N0 \<union> place s ` ran (path_cache_map (node s)) \<or>
         files s (place s (in_path i)) = None
     | _ \<Rightarrow> True)"

lemma asks_ok_sees_same:
  assumes "asks_ok N0 s req" and "M \<subseteq>\<^sub>m files s" and "dom N0 \<subseteq> dom M" and "relies_on M (node s)"
    and "cache_coherent (node s)"
  shows "sees_same M req (node s)"
proof (cases req)
  case (Open_in i)
  have le: "files s x \<noteq> None" if "M x \<noteq> None" for x
    using assms(2) that by (metis domIff map_le_def)
  have recorded: "M (place s q) \<noteq> None" if "q \<in> ran (path_cache_map (node s))" for q
    using relies_onD(1) [OF assms(4), of q] that recorded_not_Nil [OF assms(5)]
    by (auto simp: keeps_name_def ran_def)
  show ?thesis
  proof (cases "path_cache_map (node s) (in_path i)")
    case None
    have "place s (in_path i) \<in> dom N0 \<Longrightarrow> M (place s (in_path i)) \<noteq> None" using assms(3) by blast
    then have "M (place s (in_path i)) \<noteq> None \<or> files s (place s (in_path i)) = None"
      using assms(1) recorded by (auto simp: asks_ok_def Open_in)
    with le have "M (place s (in_path i)) = None \<longleftrightarrow> files s (place s (in_path i)) = None" by blast
    with None Open_in show ?thesis by (simp add: sees_same_def Let_def)
  next
    case (Some q)
    then have "q \<in> ran (path_cache_map (node s))" by (auto simp: ran_def)
    with recorded le have "M (place s q) \<noteq> None" "files s (place s q) \<noteq> None" by blast+
    with Some show ?thesis by (auto simp: sees_same_def Let_def Open_in)
  qed
qed (simp_all add: sees_same_def)

lemma lags_rpc:
  assumes "lags_behind N0 s n" and "asks_ok N0 s req" and "run_handler env req (node s) = Inr (out, data, m)"
  shows "\<exists>n'. run_handler env req n = Inr (out, data, n') \<and> lags_behind N0 (s\<lparr>node := m\<rparr>) n'"
proof -
  obtain M where M: "n = seen M (node s)" "M \<subseteq>\<^sub>m files s" "dom N0 \<subseteq> dom M" "relies_on M (node s)" "unfinished M s"
    and ok: "cut_ok s" using assms(1) by (auto simp: lags_behind_def)
  from cut_ok_node [OF ok] have inv: "cache_coherent (node s)" "fds_ok (disk (node s))" by (simp_all add: server_ok_def)
  note same = asks_ok_sees_same [OF assms(2) M(2-4) inv(1)]
  have k: "keeps_node (node s) m" using handler_effect [OF assms(3)] by (cases rule: node_effect.cases)
  have "unfinished M (s\<lparr>node := m\<rparr>)"
    using M(5) k handler_frame [OF assms(3)]
    by (cases "phase s") (simp_all add: unfinished_def keeps_node_def new_dir_def copy_name_def)
  then have "lags_behind N0 (s\<lparr>node := m\<rparr>) (seen M m)"
    using cut_ok_rpc [OF ok assms(3)] M(2,3) k relies_on_handler [OF M(4) inv same assms(3)]
    by (auto simp: lags_behind_def keeps_node_def)
  with run_handler_seen [OF M(2) relies_onD(2) [OF M(4)] same assms(3)] M(1) show ?thesis by blast
qed

text \<open>A file on the disk that is not among \<open>M\<close> may change.\<close>

lemma map_le_outside: "M \<subseteq>\<^sub>m N \<Longrightarrow> M x = None \<Longrightarrow> M \<subseteq>\<^sub>m N(x \<mapsto> y)"
  by (auto simp: map_le_def domIff)

lemma map_le_upd: "M \<subseteq>\<^sub>m N \<Longrightarrow> N x = Some y \<Longrightarrow> M(x \<mapsto> y) \<subseteq>\<^sub>m N"
  by (simp add: map_le_def)

lemma map_le_None: "M \<subseteq>\<^sub>m N \<Longrightarrow> N x = None \<Longrightarrow> M x = None"
  by (metis domIff map_le_def)

lemma lags_set_files:
  assumes "lags_behind N0 s n" and "n = seen M (node s)" and "M \<subseteq>\<^sub>m files s" and "M x = None"
    and "cut_ok t" and "t = (set_files ((files s)(x \<mapsto> y)) s)\<lparr>phase := ph\<rparr>" and "unfinished M t"
    and "dom N0 \<subseteq> dom M" and "relies_on M (node s)"
  shows "lags_behind N0 t n"
proof -
  have "n = seen M (node t)" by (simp add: assms(2,6) set_files_def) (simp add: seen_def)
  moreover have "M \<subseteq>\<^sub>m files t" using map_le_outside [OF assms(3,4)] by (simp add: assms(6) set_files_def)
  ultimately show ?thesis
    using assms(5,7-9) by (auto simp: lags_behind_def assms(6) set_files_def)
qed

text \<open>What a finished copy is to the node that copies at once.\<close>

lemma copy_at_once:
  assumes "local_list n = p # ps" and "phase s = Writing (copy_name d n) b" and "n = node s"
    and "M (resolve (disk n) p) = Some (Reg b)" and "p \<noteq> []" and "openable (disk n) (resolve (disk n) p)"
    and "copy_name d n \<noteq> []" and "M (place s (copy_name d n)) = None"
    and "mk = Some d \<and> new_dir M s d \<and> place s d \<noteq> place s (copy_name d n) \<or> mk = None \<and> d = nvmepath n"
    and "N = (case mk of Some d \<Rightarrow> M(place s d \<mapsto> Dir) | None \<Rightarrow> M)(place s (copy_name d n) \<mapsto> Reg b)"
  shows "mover_copy_one mk True (seen M n) = seen N (next_file (n\<lparr>path_cache_map := (path_cache_map n)(p \<mapsto> copy_name d n)\<rparr>))"
  using assms(9)
proof
  assume mk: "mk = Some d \<and> new_dir M s d \<and> place s d \<noteq> place s (copy_name d n)"
  then have "resolve (disk n) p \<noteq> place s d" using assms(4) by (auto simp: new_dir_def assms(3))
  moreover have "place s (copy_name d n) \<noteq> place s d" using mk by metis
  ultimately show ?thesis
    using mk assms(1,4-8,10)
    by (simp add: mover_copy_one_def seen_def fs_mkdir_def fs_copy_def canonical_in_def file_bytes_def next_file_def
        copy_name_def assms(3) Let_def)
next
  assume "mk = None \<and> d = nvmepath n"
  with assms(1,4-8,10) show ?thesis
    by (simp add: mover_copy_one_def seen_def fs_copy_def canonical_in_def file_bytes_def next_file_def copy_name_def
        assms(3) Let_def)
qed

lemma copy_refused: "local_list n \<noteq> [] \<Longrightarrow> mover_copy_one None False (seen M n) = seen M (next_file n)"
  by (cases "local_list n")
    (simp_all add: mover_copy_one_def fs_copy_def next_file_def seen_def Let_def split: option.split)

lemma mover_step_seen:
  assumes "mover n \<noteq> Mover_copying" and "mover_step n m"
  shows "mover_step (seen M n) (seen M m) \<and> nodes (disk m) = nodes (disk n) \<and>
    (relies_on M n \<longrightarrow> relies_on M m)"
  using assms(2)
proof (cases rule: mover_step.cases)
  case step_spurious
  then have "seen M m = (seen M n)\<lparr>mover := Mover_woken\<rparr>" by (simp add: seen_def)
  moreover have "mover (seen M n) = Mover_waiting" using step_spurious by simp
  ultimately have "mover_step (seen M n) (seen M m)" using mover_step.step_spurious [of "seen M n"] by simp
  with step_spurious show ?thesis by (simp add: relies_on_def keeps_name_def)
next
  case step_wake
  then have "seen M m = mover_wake (seen M n)" by (simp add: mover_wake_def drain_append seen_def)
  moreover have "mover (seen M n) = Mover_woken" using step_wake by simp
  ultimately have "mover_step (seen M n) (seen M m)" using mover_step.step_wake [of "seen M n"] by simp
  moreover have "keeps_name m p \<longleftrightarrow> keeps_name n p" for p
    using step_wake by (auto simp: keeps_name_def mover_wake_def drain_append)
  ultimately show ?thesis using step_wake by (simp add: relies_on_def)
next
  case step_wait
  then have "seen M m = mover_wait (seen M n)" by (simp add: mover_wait_def seen_def)
  moreover have "mover (seen M n) = Mover_looping" using step_wait by simp
  ultimately have "mover_step (seen M n) (seen M m)" using mover_step.step_wait [of "seen M n"] by simp
  with step_wait show ?thesis by (simp add: relies_on_def keeps_name_def)
qed (use assms(1) in simp)

lemma lags_behindE:
  assumes "lags_behind N0 s n"
  obtains M where "n = seen M (node s)" and "M \<subseteq>\<^sub>m files s" and "dom N0 \<subseteq> dom M" and "relies_on M (node s)"
    and "unfinished M s" and "cut_ok s"
  using assms by (auto simp: lags_behind_def)

lemma lags_behind_seen:
  "M \<subseteq>\<^sub>m files t \<Longrightarrow> dom N0 \<subseteq> dom M \<Longrightarrow> relies_on M (node t) \<Longrightarrow> phase t = Between \<Longrightarrow> cut_ok t \<Longrightarrow>
   lags_behind N0 t (seen M (node t))"
  by (auto simp: lags_behind_def unfinished_def)

text \<open>The pieces of a round up to its end are not visible to the other node.\<close>

lemma lags_create:
  assumes "lags_behind N0 s n" and "phase s = Made_dir d" and "dst = copy_name d (node s)"
    and "canonical_in (disk (node s)) (hd (local_list (node s))) = Some c"
    and "openable (disk (node s)) c" and "files s (place s dst) = None"
    and "t = (set_files ((files s)(place s dst \<mapsto> Reg [])) s)\<lparr>phase := Writing dst b\<rparr>" and "cut_ok t"
  shows "lags_behind N0 t n"
proof -
  obtain M where M: "n = seen M (node s)" "M \<subseteq>\<^sub>m files s" "dom N0 \<subseteq> dom M" "relies_on M (node s)" "unfinished M s"
    using lags_behindE [OF assms(1)] by metis
  have none: "M (place s dst) = None" by (rule map_le_None [OF M(2) assms(6)])
  have "new_dir M t d \<or> d = nvmepath (node s)"
    using M(5) assms(2,6) by (auto simp: unfinished_def new_dir_def assms(7) set_files_def)
  moreover have "c = place s (hd (local_list (node s)))" using assms(4) by (auto simp: canonical_in_Some)
  ultimately have "unfinished M t"
    using none assms(3,5) by (auto simp: unfinished_def assms(7) set_files_def copy_name_def seen_def)
  then show ?thesis by (rule lags_set_files [OF assms(1) M(1,2) none assms(8,7) _ M(3,4)])
qed

lemma lags_write:
  assumes "lags_behind N0 s n" and "phase s = Writing dst b" and "files s (place s dst) = Some (Reg v)"
    and "t = set_files ((files s)(place s dst \<mapsto> Reg v')) s" and "cut_ok t"
  shows "lags_behind N0 t n"
proof -
  obtain M where M: "n = seen M (node s)" "M \<subseteq>\<^sub>m files s" "dom N0 \<subseteq> dom M" "relies_on M (node s)" "unfinished M s"
    using lags_behindE [OF assms(1)] by metis
  have none: "M (place s dst) = None" using M(5) assms(2) by (simp add: unfinished_def)
  have t: "t = (set_files ((files s)(place s dst \<mapsto> Reg v')) s)\<lparr>phase := Writing dst b\<rparr>"
    using assms(2,4) by (simp add: set_files_def)
  have "new_dir M t d" if "new_dir M s d" for d
    using that assms(3) by (auto simp: new_dir_def assms(4) set_files_def)
  then have "unfinished M t"
    using M(5) assms(2) by (auto simp: unfinished_def t set_files_def copy_name_def seen_def)
  then show ?thesis by (rule lags_set_files [OF assms(1) M(1,2) none assms(5) t _ M(3,4)])
qed

lemma keeps_name_next: "local_list n \<noteq> [] \<Longrightarrow> keeps_name (next_file n) p \<Longrightarrow> keeps_name n p"
  by (auto simp: keeps_name_def next_file_def dest: list.set_sel(2))

lemma relies_on_next: "relies_on M n \<Longrightarrow> local_list n \<noteq> [] \<Longrightarrow> relies_on M (next_file n)"
  unfolding relies_on_def using keeps_name_next [of n] by (auto simp: next_file_def)

lemma lags_throw:
  assumes "lags_behind N0 s n" and "phase s \<noteq> Between" and "t = s\<lparr>phase := Between, node := next_file (node s)\<rparr>"
    and "cut_ok t"
  shows "\<exists>n'. mover_step n n' \<and> lags_behind N0 t n'"
proof -
  obtain M where M: "n = seen M (node s)" "M \<subseteq>\<^sub>m files s" "dom N0 \<subseteq> dom M" "relies_on M (node s)" and ok: "cut_ok s"
    using lags_behindE [OF assms(1)] by metis
  have cp: "mover (node s) = Mover_copying" using cut_okD(2) [OF ok assms(2)] .
  then have l: "local_list (node s) \<noteq> []" using cut_ok_node [OF ok] by (simp add: server_ok_def mover_ok_def)
  have "mover_step n (mover_copy_one None False n)"
    using cp M(1) by (intro step_copy) (simp_all add: fresh_for_def)
  moreover have "mover_copy_one None False n = seen M (next_file (node s))"
    using copy_refused [OF l] M(1) by simp
  moreover have "lags_behind N0 t (seen M (node t))"
    by (rule lags_behind_seen [OF _ M(3)])
      (use M(2) relies_on_next [OF M(4) l] assms(4) in \<open>simp_all add: assms(3) next_file_def\<close>)
  ultimately show ?thesis by (auto simp: assms(3))
qed

text \<open>The end of a round is the whole round of the other node.\<close>

lemma relies_on_record:
  assumes "relies_on M n" and "M \<subseteq>\<^sub>m N" and "N (resolve (disk n) q) \<noteq> None" and "N (resolve (disk n) p) \<noteq> None"
  shows "relies_on N (n\<lparr>path_cache_map := (path_cache_map n)(p \<mapsto> q)\<rparr>)"
proof -
  have N: "N x \<noteq> None" if "M x \<noteq> None" for x using that assms(2) by (metis domIff map_le_def)
  have "keeps_name n r \<or> r = p \<or> r = q" if "keeps_name (n\<lparr>path_cache_map := (path_cache_map n)(p \<mapsto> q)\<rparr>) r" for r
    using that by (auto simp: keeps_name_def ran_def split: if_splits)
  then have "N (resolve (disk n) r) \<noteq> None" if "keeps_name (n\<lparr>path_cache_map := (path_cache_map n)(p \<mapsto> q)\<rparr>) r" for r
    using that N relies_onD(1) [OF assms(1), of r] assms(3,4) by metis
  moreover have "open_files_in N (disk n)"
    using N relies_onD(2) [OF assms(1)] by (auto simp: open_files_in_def)
  ultimately show ?thesis by (simp add: relies_on_def)
qed

lemma lags_record:
  assumes "lags_behind N0 s n" and "phase s = Writing dst b" and "files s (place s dst) = Some (Reg b)"
    and "t = s\<lparr>phase := Between, node := next_file ((node s)\<lparr>path_cache_map :=
      (path_cache_map (node s))(hd (local_list (node s)) \<mapsto> dst)\<rparr>)\<rparr>" and "cut_ok t"
  shows "\<exists>n'. mover_step n n' \<and> lags_behind N0 t n'"
proof -
  obtain M where M: "n = seen M (node s)" "M \<subseteq>\<^sub>m files s" "dom N0 \<subseteq> dom M" "relies_on M (node s)" "unfinished M s"
    and ok: "cut_ok s" using lags_behindE [OF assms(1)] by metis
  have cp: "mover (node s) = Mover_copying" using cut_okD(2) [OF ok] assms(2) by simp
  then obtain p ps where l: "local_list (node s) = p # ps"
    using cut_ok_node [OF ok] by (auto simp: server_ok_def mover_ok_def neq_Nil_conv)
  obtain d where d: "dst = copy_name d (node s)" "new_dir M s d \<or> d = nvmepath (node s)"
    and none: "M (place s dst) = None" and op: "openable (disk (node s)) (place s p)"
    using M(5) assms(2) l by (auto simp: unfinished_def)
  have src: "bytes_at (disk (settled s)) p = Some b" using cut_okD(5) [OF ok assms(2)] l by simp
  then have p: "p \<noteq> []" "settled s = seen ((files s)(place s dst := None)) (node s)"
    using assms(2) by (auto simp: bytes_at_def canonical_in_def settled_def)
  have Mp: "M (place s p) \<noteq> None" using relies_onD(1) [OF M(4), of p] p(1) l by (simp add: keeps_name_def)
  then have "M (place s p) = files s (place s p)" "place s p \<noteq> place s dst"
    using M(2) none by (auto simp: map_le_def domIff)
  then have Mb: "M (place s p) = Some (Reg b)"
    using src p by (auto simp: bytes_at_def canonical_in_def file_bytes_def Let_def split: if_splits option.splits node.splits)
  define mk where "mk = (if new_dir M s d then Some d else None)"
  define N where "N = (case mk of Some d \<Rightarrow> M(place s d \<mapsto> Dir) | None \<Rightarrow> M)(place s dst \<mapsto> Reg b)"
  have apart: "place s d \<noteq> place s dst" if "new_dir M s d" using that assms(3) by (auto simp: new_dir_def)
  have "mover_copy_one mk True n = seen N (next_file ((node s)\<lparr>path_cache_map := (path_cache_map (node s))(p \<mapsto> dst)\<rparr>))"
    unfolding M(1) d(1)
    by (rule copy_at_once [where d = d and s = s and b = b and M = M and n = "node s" and p = p, OF l _ refl Mb p(1) op])
      (use assms(2) d cut_okD(3) [OF ok assms(2)] none apart in \<open>auto simp: mk_def N_def\<close>)
  moreover have "mover_step n (mover_copy_one mk True n)"
    using cp M(1) by (intro step_copy) (auto simp: fresh_for_def mk_def new_dir_def)
  moreover have NM: "M \<subseteq>\<^sub>m N" "N \<subseteq>\<^sub>m files s"
    using M(2) none assms(3) apart by (auto simp: N_def mk_def new_dir_def intro!: map_le_outside map_le_upd)
  have Nd: "N (place s dst) \<noteq> None" "N (place s p) \<noteq> None"
    using map_le_implies_dom_le [OF NM(1)] Mp by (auto simp: N_def)
  have "lags_behind N0 t (seen N (node t))"
  proof (rule lags_behind_seen)
    show "relies_on N (node t)"
      using relies_on_record [OF M(4) NM(1) Nd] l by (simp add: assms(4)) (rule relies_on_next, simp_all)
    show "dom N0 \<subseteq> dom N" using M(3) map_le_implies_dom_le [OF NM(1)] by blast
  qed (use NM(2) assms(5) in \<open>simp_all add: assms(4) next_file_def\<close>)
  ultimately show ?thesis using l by (auto simp: assms(4))
qed

lemma lags_piece:
  assumes "lags_behind N0 s n" and "piece_step s t"
  shows "\<exists>n'. mover_step\<^sup>*\<^sup>* n n' \<and> lags_behind N0 t n'"
proof -
  obtain M where M: "n = seen M (node s)" "M \<subseteq>\<^sub>m files s" "dom N0 \<subseteq> dom M" "relies_on M (node s)" "unfinished M s"
    and ok: "cut_ok s" using lags_behindE [OF assms(1)] by metis
  note t = cut_ok_piece [OF ok assms(2)]
  have one: "\<exists>n'. mover_step\<^sup>*\<^sup>* n n' \<and> lags_behind N0 t n'" if "mover_step n n'" "lags_behind N0 t n'" for n'
    using that by blast
  from assms(2) show ?thesis
  proof (cases rule: piece_step.cases)
    case (piece_wait m)
    have "phase s = Between" using cut_okD(2) [OF ok] piece_wait(2) by blast
    with mover_step_seen [OF piece_wait(2,3), of M] M t show ?thesis
      using lags_behind_seen [of M t N0] one [of "seen M m"] by (simp add: piece_wait(1))
  next
    case (piece_mkdir d)
    have none: "M (place s d) = None" by (rule map_le_None [OF M(2) piece_mkdir(4)])
    then have "unfinished M t" by (simp add: unfinished_def new_dir_def piece_mkdir(1) set_files_def)
    then have "lags_behind N0 t n"
      by (rule lags_set_files [OF assms(1) M(1,2) none t piece_mkdir(1) _ M(3,4)])
    then show ?thesis by blast
  next
    case piece_no_dir
    with M t show ?thesis by (auto simp: lags_behind_def unfinished_def intro!: exI [of _ n] exI [of _ M])
  next
    case (piece_create d dst c b)
    with lags_create [OF assms(1) piece_create(2,3,5,7,8,1) t] show ?thesis by blast
  next
    case (piece_write dst b k m)
    with lags_write [OF assms(1) piece_write(2,3,1) t] show ?thesis by blast
  next
    case (piece_record dst b)
    with lags_record [OF assms(1) piece_record(2,3,1) t] one show ?thesis by blast
  next
    case piece_throw
    with lags_throw [OF assms(1) piece_throw(2,1) t] one show ?thesis by blast
  qed
qed

section \<open>Runs\<close>

text \<open>A node that works call by call, with the answers it has given.\<close>

inductive asked_step ::
  "rpc_env set \<Rightarrow> (path \<rightharpoonup> node) \<Rightarrow> cut_node \<times> reply_entry list \<Rightarrow> cut_node \<times> reply_entry list \<Rightarrow> bool"
  for E :: "rpc_env set" and N0 :: "path \<rightharpoonup> node" where
  asked_rpc: "env \<in> E \<Longrightarrow> asks_ok N0 s req \<Longrightarrow> run_handler env req (node s) = Inr (out, data, n) \<Longrightarrow>
    asked_step E N0 (s, as) (s\<lparr>node := n\<rparr>, as @ [(h, req, out, data)])"
| asked_piece: "piece_step s t \<Longrightarrow> asked_step E N0 (s, as) (t, as)"

lemma whole_movers: "mover_step\<^sup>*\<^sup>* n n' \<Longrightarrow> (whole_step E)\<^sup>*\<^sup>* \<lparr>wnode = n, history = as\<rparr> \<lparr>wnode = n', history = as\<rparr>"
proof (induction rule: rtranclp_induct)
  case (step m m')
  have "whole_step E \<lparr>wnode = m, history = as\<rparr> \<lparr>wnode = m', history = as\<rparr>"
    using whole_mover [of "\<lparr>wnode = m, history = as\<rparr>" m' E] step(2) by simp
  with step(3) show ?case by (rule rtranclp.rtrancl_into_rtrancl)
qed simp

lemma lags_asked_step:
  assumes "lags_behind N0 s n" and "asked_step E N0 (s, as) (t, bs)"
  shows "\<exists>n'. (whole_step E)\<^sup>*\<^sup>* \<lparr>wnode = n, history = as\<rparr> \<lparr>wnode = n', history = bs\<rparr> \<and> lags_behind N0 t n'"
  using assms(2)
proof (cases rule: asked_step.cases)
  case (asked_rpc env req out data m h)
  from lags_rpc [OF assms(1) asked_rpc(4,5)] obtain n' where
    n': "run_handler env req n = Inr (out, data, n')" "lags_behind N0 (s\<lparr>node := m\<rparr>) n'" by blast
  have "whole_step E \<lparr>wnode = n, history = as\<rparr> \<lparr>wnode = n', history = as @ [(h, req, out, data)]\<rparr>"
    using whole_rpc [OF asked_rpc(3), of req "\<lparr>wnode = n, history = as\<rparr>" out data n' h] n'(1) by simp
  with n'(2) asked_rpc(1,2) show ?thesis by blast
next
  case asked_piece
  with lags_piece [OF assms(1)] whole_movers [of n _ E as] show ?thesis by blast
qed

lemma lags_asked_run:
  assumes "(asked_step E N0)\<^sup>*\<^sup>* (s, as) (t, bs)" and "lags_behind N0 s n"
  shows "\<exists>n'. (whole_step E)\<^sup>*\<^sup>* \<lparr>wnode = n, history = as\<rparr> \<lparr>wnode = n', history = bs\<rparr> \<and> lags_behind N0 t n'"
  using assms(1)
proof (induction "(t, bs)" arbitrary: t bs rule: rtranclp_induct)
  case base
  with assms(2) show ?case by blast
next
  case (step x)
  obtain u cs where x: "x = (u, cs)" by (cases x)
  from step(3) [OF x] obtain m where m: "(whole_step E)\<^sup>*\<^sup>* \<lparr>wnode = n, history = as\<rparr> \<lparr>wnode = m, history = cs\<rparr>"
    "lags_behind N0 u m" by blast
  from lags_asked_step [OF m(2) step(2) [unfolded x]] m(1) show ?case by (meson rtranclp_trans)
qed

lemma lags_start:
  assumes "server_started n" and "open_files_in (nodes (disk n)) (disk n)"
  shows "lags_behind (nodes (disk n)) \<lparr>node = n, phase = Between\<rparr> n"
proof -
  have "cut_ok \<lparr>node = n, phase = Between\<rparr>"
    using server_started_ok [OF assms(1)] by (simp add: cut_ok_def settled_def)
  moreover have "relies_on (nodes (disk n)) n"
    using assms by (auto simp: relies_on_def keeps_name_def server_started_def)
  ultimately show ?thesis using lags_behind_seen [of "nodes (disk n)" "\<lparr>node = n, phase = Between\<rparr>"] by simp
qed

text \<open>The same run without its answers.\<close>

lemma asked_cut_step: "asked_step {env} N0 (s, as) (t, bs) \<Longrightarrow> cut_step env s t"
  by (erule asked_step.cases) (auto intro: cut_rpc cut_piece)

lemma asked_cut_run:
  assumes "(asked_step {env} N0)\<^sup>*\<^sup>* (s, as) (t, bs)" and "cut_start s"
  shows "reach cut_start (cut_step env) t"
  using assms(1)
proof (induction "(t, bs)" arbitrary: t bs rule: rtranclp_induct)
  case base
  with assms(2) show ?case by (simp add: reach_start)
next
  case (step x)
  obtain u cs where x: "x = (u, cs)" by (cases x)
  from step(3) [OF x] asked_cut_step [OF step(2) [unfolded x]] show ?case by (rule reach_step)
qed

end
