(* ===== verification/Races.thy ===== *)
theory Races
  imports Client
begin

text \<open>
  The beginning and the end of Mercury in a client that has several threads. The library's
  destructor stops Mercury while the progress thread may still use it
  (\<open>hvac_shutdown_comm\<close> in \<open>src/hvac_comm.cpp\<close>), and the first tracked opens start it after an
  unguarded test (\<open>hvac_track_file\<close> in \<open>src/hvac_client.cpp\<close>). Each is a small system of steps,
  with the order that the code leaves open as a parameter.
\<close>

section \<open>Shutdown against the progress thread\<close>

datatype shutdown_pc =
    Sd_enter
  | Sd_flagged       \<comment> \<open>flag set, context not NULL\<close>
  | Sd_destroyed     \<comment> \<open>after \<open>HG_Context_destroy\<close>\<close>
  | Sd_returned
  | Sd_aborted       \<comment> \<open>a failed assertion\<close>

text \<open>\<open>late_calls\<close> are the calls that begin after the context was destroyed.\<close>

record ending =
  end_comm :: comm
  end_pc :: shutdown_pc
  destroyed :: bool
  progress_at :: progress_pc
  late_calls :: "hg_call list"

text \<open>
  \<open>joins\<close> demands that the progress thread has returned before its context is destroyed; the
  code does not ask.
\<close>

inductive ending_step :: "hg_env \<Rightarrow> bool \<Rightarrow> ending \<Rightarrow> ending \<Rightarrow> bool"
  for env :: hg_env and joins :: bool where
  end_flag: "end_pc s = Sd_enter \<Longrightarrow>
    ending_step env joins s (s\<lparr>end_comm := (end_comm s)\<lparr>shutdown_flags := True\<rparr>,
      end_pc := (if hg_context (end_comm s) then Sd_flagged else Sd_returned)\<rparr>)"
| end_destroy: "end_pc s = Sd_flagged \<Longrightarrow> (joins \<longrightarrow> progress_at s = P_return) \<Longrightarrow>
    ending_step env joins s (s\<lparr>destroyed := True,
      end_pc := (if hg_context_destroy env then Sd_destroyed else Sd_aborted)\<rparr>)"
| end_finalize: "end_pc s = Sd_destroyed \<Longrightarrow>
    ending_step env joins s (s\<lparr>end_pc := (if hg_finalize env then Sd_returned else Sd_aborted)\<rparr>)"
| end_progress: "progress_step (shutdown_flags (end_comm s)) r n (progress_at s) = (pc, call) \<Longrightarrow>
    ending_step env joins s (s\<lparr>progress_at := pc, late_calls := late_calls s @
      (if destroyed s then (case call of None \<Rightarrow> [] | Some c \<Rightarrow> [c]) else [])\<rparr>)"

definition ending_start :: "comm \<Rightarrow> ending \<Rightarrow> bool" where
  "ending_start c s \<longleftrightarrow> end_comm s = c \<and> end_pc s = Sd_enter \<and> \<not> destroyed s \<and> progress_at s = P_outer \<and>
     late_calls s = []"

text \<open>
  The parts of the shutdown are \<open>hvac_shutdown_comm\<close>; after the flag at most one call can
  still begin, and with a join none.
\<close>

definition ending_ok :: "hg_env \<Rightarrow> bool \<Rightarrow> comm \<Rightarrow> ending \<Rightarrow> bool" where
  "ending_ok env joins c s \<longleftrightarrow>
     (end_pc s = Sd_enter \<longrightarrow> end_comm s = c \<and> \<not> destroyed s) \<and>
     (end_pc s = Sd_flagged \<longrightarrow> \<not> destroyed s) \<and>
     (end_pc s \<noteq> Sd_enter \<longrightarrow> end_comm s = c\<lparr>shutdown_flags := True\<rparr>) \<and>
     (end_pc s \<in> {Sd_flagged, Sd_destroyed, Sd_aborted} \<longrightarrow> hg_context c) \<and>
     (end_pc s = Sd_destroyed \<longrightarrow> hg_context_destroy env) \<and>
     (end_pc s = Sd_returned \<longrightarrow> hvac_shutdown_comm env c = Inr (end_comm s)) \<and>
     (end_pc s = Sd_aborted \<longrightarrow> hvac_shutdown_comm env c = Inl Assert_failed) \<and>
     length (late_calls s) + (if destroyed s then length (about_to_call (progress_at s)) else 0) \<le> 1 \<and>
     (destroyed s \<and> joins \<longrightarrow> progress_at s = P_return \<and> late_calls s = []) \<and>
     (\<not> destroyed s \<longrightarrow> late_calls s = [])"

lemma about_to_call_le: "length (about_to_call pc) \<le> 1"
  by (simp add: about_to_call_def split: progress_pc.split)

lemma ending_ok_step:
  assumes "ending_ok env joins c s" and "ending_step env joins s t"
  shows "ending_ok env joins c t"
  using assms(2)
proof (cases rule: ending_step.cases)
  case end_flag
  with assms(1) show ?thesis by (auto simp: ending_ok_def hvac_shutdown_comm_def)
next
  case end_destroy
  with assms(1) about_to_call_le [of "progress_at s"] show ?thesis
    by (auto simp: ending_ok_def hvac_shutdown_comm_def assert_that_def)
next
  case end_finalize
  with assms(1) show ?thesis by (auto simp: ending_ok_def hvac_shutdown_comm_def assert_that_def)
next
  case (end_progress r n pc call)
  show ?thesis
  proof (cases "destroyed s")
    case True
    then have "shutdown_flags (end_comm s)" using assms(1) by (auto simp: ending_ok_def)
    with end_progress(2) progress_step_shutdown(2) [of "progress_at s" r n]
    have "about_to_call (progress_at s) = (case call of None \<Rightarrow> [] | Some c \<Rightarrow> [c]) @ about_to_call pc" by simp
    moreover have "progress_at s = P_return \<Longrightarrow> pc = P_return \<and> call = None"
      using end_progress(2) by (simp add: progress_step_def)
    ultimately show ?thesis using assms(1) True by (auto simp: ending_ok_def end_progress(1))
  next
    case False
    with assms(1) show ?thesis by (simp add: ending_ok_def end_progress(1))
  qed
qed

interpretation ending: inductive_invariant "ending_start c" "ending_step env joins" "ending_ok env joins c"
  for c env joins
proof unfold_locales
  show "ending_ok env joins c s" if "ending_start c s" for s
    using that by (simp add: ending_ok_def ending_start_def)
qed (rule ending_ok_step)

text \<open>The two bad endings.\<close>

lemma ending_run:
  assumes "reach (ending_start c) (ending_step env joins) s"
    and "progress_step (shutdown_flags (end_comm s)) r n (progress_at s) = (pc, call)"
  shows "reach (ending_start c) (ending_step env joins) (s\<lparr>progress_at := pc, late_calls := late_calls s @
      (if destroyed s then (case call of None \<Rightarrow> [] | Some c \<Rightarrow> [c]) else [])\<rparr>)"
  by (rule reach_step [OF assms(1) end_progress [OF assms(2)]])

lemma progress_reaches:
  assumes "\<not> shutdown_flags c"
  shows "reach (ending_start c) (ending_step env joins)
      \<lparr>end_comm = c, end_pc = Sd_enter, destroyed = False, progress_at = P_trigger, late_calls = []\<rparr>"
    and "reach (ending_start c) (ending_step env joins)
      \<lparr>end_comm = c, end_pc = Sd_enter, destroyed = False, progress_at = P_in_progress, late_calls = []\<rparr>"
proof -
  let ?s = "\<lambda>pc. \<lparr>end_comm = c, end_pc = Sd_enter, destroyed = False, progress_at = pc, late_calls = []\<rparr>"
  have r0: "reach (ending_start c) (ending_step env joins) (?s P_outer)"
    by (rule reach_start) (simp add: ending_start_def)
  have go: "reach (ending_start c) (ending_step env joins) (?s pc')"
    if "reach (ending_start c) (ending_step env joins) (?s pc)" "fst (progress_step False 0 0 pc) = pc'" for pc pc'
    using ending_run [OF that(1), of 0 0 pc' "snd (progress_step False 0 0 pc)"] that(2) assms
    by (auto simp: prod_eq_iff)
  have p: "fst (progress_step False 0 0 P_outer) = P_trigger" "fst (progress_step False 0 0 P_trigger) = P_in_trigger"
    "fst (progress_step False 0 0 P_in_trigger) = P_check" "fst (progress_step False 0 0 P_check) = P_progress"
    "fst (progress_step False 0 0 P_progress) = P_in_progress"
    by (simp_all add: progress_step_def)
  show r1: "reach (ending_start c) (ending_step env joins) (?s P_trigger)" by (rule go [OF r0 p(1)])
  show "reach (ending_start c) (ending_step env joins) (?s P_in_progress)"
    by (rule go [OF go [OF go [OF go [OF r1 p(2)] p(3)] p(4)] p(5)])
qed

lemma ending_destroys:
  assumes "reach (ending_start c) (ending_step env False)
      \<lparr>end_comm = c, end_pc = Sd_enter, destroyed = False, progress_at = pc, late_calls = []\<rparr>"
    and "hg_context c" and "hg_context_destroy env"
  shows "reach (ending_start c) (ending_step env False)
      \<lparr>end_comm = c\<lparr>shutdown_flags := True\<rparr>, end_pc = Sd_destroyed, destroyed = True, progress_at = pc, late_calls = []\<rparr>"
  using reach_step [OF reach_step [OF assms(1) end_flag] end_destroy] assms(2,3) by simp

text \<open>Waiting for the thread would not block the shutdown: once the flag is set the thread returns.\<close>

lemma progress_steps_to_return:
  assumes "end_pc s = Sd_flagged" and "shutdown_flags (end_comm s)" and "progress_left (progress_at s) = k"
  shows "\<exists>u. (ending_step env joins)\<^sup>*\<^sup>* s u \<and> end_pc u = Sd_flagged \<and> progress_at u = P_return"
  using assms
proof (induction k arbitrary: s)
  case 0
  then have "progress_at s = P_return" by (cases "progress_at s") simp_all
  with 0 show ?case by blast
next
  case (Suc k)
  obtain pc call where st: "progress_step True 0 0 (progress_at s) = (pc, call)" by fastforce
  define t where "t = s\<lparr>progress_at := pc, late_calls := late_calls s @
    (if destroyed s then (case call of None \<Rightarrow> [] | Some c \<Rightarrow> [c]) else [])\<rparr>"
  have "ending_step env joins s t"
    unfolding t_def by (rule end_progress [of s 0 0]) (use Suc.prems st in simp)
  moreover have "progress_left (progress_at t) = k"
    using progress_step_shutdown(1) [of 0 0 "progress_at s"] Suc.prems(3) st by (simp add: t_def)
  with Suc.IH [of t] Suc.prems obtain u where "(ending_step env joins)\<^sup>*\<^sup>* t u" "end_pc u = Sd_flagged"
      "progress_at u = P_return"
    by (auto simp: t_def)
  ultimately show ?case by (meson converse_rtranclp_into_rtranclp)
qed

lemma ending_joins:
  assumes "ending_ok env True c s" and "end_pc s = Sd_flagged"
  shows "\<exists>u. (ending_step env True)\<^sup>*\<^sup>* s u \<and> destroyed u"
proof -
  have "shutdown_flags (end_comm s)" using assms by (simp add: ending_ok_def)
  then obtain u where u: "(ending_step env True)\<^sup>*\<^sup>* s u" "end_pc u = Sd_flagged" "progress_at u = P_return"
    using progress_steps_to_return [OF assms(2)] by blast
  define v where "v = u\<lparr>destroyed := True,
    end_pc := (if hg_context_destroy env then Sd_destroyed else Sd_aborted)\<rparr>"
  have "ending_step env True u v"
    unfolding v_def by (rule end_destroy) (use u in simp_all)
  with u(1) have "(ending_step env True)\<^sup>*\<^sup>* s v" by (rule rtranclp.rtrancl_into_rtrancl)
  moreover have "destroyed v" by (simp add: v_def)
  ultimately show ?thesis by blast
qed

section \<open>The first opens of several threads\<close>

text \<open>
  The block \<open>if (!g_mercury_init)\<close> of \<open>hvac_track_file\<close>: a thread has not come to the test, has
  found the flag clear and is starting Mercury, or is past the block.
\<close>

datatype begin_pc = Bg_before | Bg_starting | Bg_past

record ('o, 'w) beginning =
  begin_proc :: "('o, 'w) proc"
  begin_pcs :: "nat \<Rightarrow> begin_pc"

text \<open>\<open>guarded\<close> demands that no thread tests the flag while another starts Mercury.\<close>

inductive begin_step ::
  "('o, 'a, 'w) cenv \<Rightarrow> bool \<Rightarrow> ('o, 'w) beginning \<Rightarrow> ('o, 'w) beginning \<Rightarrow> bool"
  for e :: "('o, 'a, 'w) cenv" and guarded :: bool where
  bg_test: "begin_pcs s t = Bg_before \<Longrightarrow> (guarded \<longrightarrow> (\<forall>u. begin_pcs s u \<noteq> Bg_starting)) \<Longrightarrow>
    begin_step e guarded s (s\<lparr>begin_pcs := (begin_pcs s)
      (t := (if g_mercury_init (begin_proc s) then Bg_past else Bg_starting))\<rparr>)"
| bg_start: "begin_pcs s t = Bg_starting \<Longrightarrow> hvac_init_comm (hgenv e) (getenv e) False (begin_proc s) = Inr p1 \<Longrightarrow>
    hvac_client_comm_register_rpc (hgenv e) (l4c p1) = Inr p2 \<Longrightarrow>
    begin_step e guarded s (s\<lparr>begin_proc := p2\<lparr>g_mercury_init := True\<rparr>, begin_pcs := (begin_pcs s)(t := Bg_past)\<rparr>)"

definition begin_start :: "('o, 'w) proc \<Rightarrow> ('o, 'w) beginning \<Rightarrow> bool" where
  "begin_start p s \<longleftrightarrow> begin_proc s = p \<and> begin_pcs s = (\<lambda>_. Bg_before) \<and> \<not> g_mercury_init p"

text \<open>Guarded, whoever is past the block finds the state that one \<open>ensure_mercury\<close> gives.\<close>

definition begin_ok :: "('o, 'a, 'w) cenv \<Rightarrow> ('o, 'w) proc \<Rightarrow> ('o, 'w) beginning \<Rightarrow> bool" where
  "begin_ok e p s \<longleftrightarrow> \<not> g_mercury_init p \<and>
     (begin_proc s = p \<and> (\<forall>t. begin_pcs s t \<noteq> Bg_past) \<and>
        (\<forall>t u. begin_pcs s t = Bg_starting \<longrightarrow> begin_pcs s u = Bg_starting \<longrightarrow> t = u) \<or>
      ensure_mercury e p = Inr (begin_proc s) \<and> (\<forall>t. begin_pcs s t \<noteq> Bg_starting))"

lemma ensure_mercury_sets: "ensure_mercury e p = Inr q \<Longrightarrow> g_mercury_init q"
  by (auto simp: ensure_mercury_def and_then_eq_Inr split: if_splits)

lemma begin_ok_step:
  assumes "begin_ok e p s" and "begin_step e True s t"
  shows "begin_ok e p t"
  using assms(2)
proof (cases rule: begin_step.cases)
  case (bg_test u)
  then have none: "\<forall>v. begin_pcs s v \<noteq> Bg_starting" by blast
  from assms(1) consider (clear) "begin_proc s = p" "\<not> g_mercury_init p" "\<forall>v. begin_pcs s v \<noteq> Bg_past"
    | (set) "ensure_mercury e p = Inr (begin_proc s)" "\<not> g_mercury_init p"
    by (auto simp: begin_ok_def)
  then show ?thesis
  proof cases
    case clear
    with none show ?thesis by (simp add: begin_ok_def bg_test(1))
  next
    case set
    with none ensure_mercury_sets [OF set(1)] show ?thesis by (simp add: begin_ok_def bg_test(1))
  qed
next
  case (bg_start u p1 p2)
  then have p: "begin_proc s = p" "\<not> g_mercury_init p" "\<forall>v. begin_pcs s v = Bg_starting \<longrightarrow> v = u"
    using assms(1) by (auto simp: begin_ok_def)
  have "ensure_mercury e p = Inr (p2\<lparr>g_mercury_init := True\<rparr>)"
    using bg_start(3,4) p(1,2) by (simp add: ensure_mercury_def)
  with p(2,3) show ?thesis by (auto simp: begin_ok_def bg_start(1))
qed

interpretation beginning: inductive_invariant "begin_start p" "begin_step e True" "begin_ok e p" for p e
proof unfold_locales
  show "begin_ok e p s" if "begin_start p s" for s
    using that by (simp add: begin_ok_def begin_start_def)
qed (rule begin_ok_step)

text \<open>Unguarded, two threads that both find the flag clear both start Mercury.\<close>

lemma init_comm_threads:
  assumes "ge ''PMI_RANK'' = Some rank" and "hg_thread_create env"
  shows "\<exists>q. hvac_init_comm env ge False p = Inr q \<and> progress_threads q = progress_threads p + 1"
  using assms by (simp add: hvac_init_comm_def Let_def)

lemma register_rpc_threads:
  assumes "hg_disable_response env"
  shows "\<exists>q. hvac_client_comm_register_rpc env p = Inr q \<and> progress_threads q = progress_threads p"
  using assms by (simp add: hvac_client_comm_register_rpc_def register_defs Let_def assert_that_def)

text \<open>One start starts one thread.\<close>

lemma one_start:
  assumes "getenv e ''PMI_RANK'' = Some rank" and "hg_thread_create (hgenv e)" and "hg_disable_response (hgenv e)"
  shows "\<exists>p1 p2. hvac_init_comm (hgenv e) (getenv e) False q = Inr p1 \<and>
    hvac_client_comm_register_rpc (hgenv e) (l4c p1) = Inr p2 \<and> progress_threads p2 = progress_threads q + 1"
proof -
  obtain p1 where "hvac_init_comm (hgenv e) (getenv e) False q = Inr p1" "progress_threads p1 = progress_threads q + 1"
    using init_comm_threads [where p = q and ge = "getenv e" and rank = rank] assms(1,2) by blast
  moreover obtain p2 where "hvac_client_comm_register_rpc (hgenv e) (l4c p1) = Inr p2"
      "progress_threads p2 = progress_threads (l4c p1)"
    using register_rpc_threads [where p = "l4c p1", OF assms(3)] by blast
  ultimately show ?thesis by (auto simp: l4c_def)
qed

lemma ensure_mercury_one_thread:
  assumes "getenv e ''PMI_RANK'' = Some rank" and "hg_thread_create (hgenv e)" and "hg_disable_response (hgenv e)"
    and "\<not> g_mercury_init p"
  shows "\<exists>q. ensure_mercury e p = Inr q \<and> progress_threads q = progress_threads p + 1"
  using one_start [OF assms(1-3), of p] assms(4) by (auto simp: ensure_mercury_def)

lemma begin_twice:
  fixes p :: "('o, 'w) proc"
  assumes "getenv e ''PMI_RANK'' = Some rank" and "hg_thread_create (hgenv e)" and "hg_disable_response (hgenv e)"
    and "\<not> g_mercury_init p" and "t \<noteq> u"
  shows "\<exists>s. reach (begin_start p) (begin_step e False) s \<and> begin_pcs s t = Bg_past \<and> begin_pcs s u = Bg_past \<and>
    progress_threads (begin_proc s) = progress_threads p + 2"
proof -
  let ?r = "reach (begin_start p) (begin_step e False)"
  note start = one_start [OF assms(1-3)]
  obtain p1 p2 where p2: "hvac_init_comm (hgenv e) (getenv e) False p = Inr p1"
      "hvac_client_comm_register_rpc (hgenv e) (l4c p1) = Inr p2" "progress_threads p2 = progress_threads p + 1"
    using start [of p] by blast
  let ?p2 = "p2\<lparr>g_mercury_init := True\<rparr>"
  obtain p3 p4 where p4: "hvac_init_comm (hgenv e) (getenv e) False ?p2 = Inr p3"
      "hvac_client_comm_register_rpc (hgenv e) (l4c p3) = Inr p4" "progress_threads p4 = progress_threads ?p2 + 1"
    using start [of ?p2] by blast
  define s0 where "s0 = \<lparr>begin_proc = p, begin_pcs = (\<lambda>_. Bg_before)\<rparr>"
  define s2 where "s2 = s0\<lparr>begin_pcs := (\<lambda>_. Bg_before)(t := Bg_starting, u := Bg_starting)\<rparr>"
  have "?r s0" by (rule reach_start) (simp add: begin_start_def s0_def assms(4))
  then have "?r (s0\<lparr>begin_pcs := (\<lambda>_. Bg_before)(t := Bg_starting)\<rparr>)"
    using bg_test [of s0 t False e] assms(4) by (auto simp: s0_def intro: reach_step)
  then have "?r s2"
    using bg_test [of "s0\<lparr>begin_pcs := (\<lambda>_. Bg_before)(t := Bg_starting)\<rparr>" u False e] assms(4,5)
    by (auto simp: s0_def s2_def intro: reach_step)
  define s3 where "s3 = s2\<lparr>begin_proc := ?p2, begin_pcs := (begin_pcs s2)(t := Bg_past)\<rparr>"
  define s4 where "s4 = s3\<lparr>begin_proc := p4\<lparr>g_mercury_init := True\<rparr>, begin_pcs := (begin_pcs s3)(u := Bg_past)\<rparr>"
  have "begin_step e False s2 s3"
    unfolding s3_def by (rule bg_start [where ?p1.0 = p1]) (use p2 assms(5) in \<open>simp_all add: s2_def s0_def\<close>)
  with \<open>?r s2\<close> have "?r s3" by (rule reach_step)
  moreover have "begin_step e False s3 s4"
    unfolding s4_def by (rule bg_start [where ?p1.0 = p3]) (use p4 assms(5) in \<open>simp_all add: s3_def s2_def\<close>)
  ultimately have "?r s4" by (rule reach_step)
  then show ?thesis
    using p2(3) p4(3) assms(5) by (intro exI [of _ s4]) (simp add: s4_def s3_def)
qed

end
