(* ===== verification/Test_Program.thy ===== *)
theory Test_Program
  imports Job Hazards Bring_Up
begin

unbundle bit_operations_syntax

text \<open>
  \<open>src/tests/basic_test.c\<close> and its MPI variant \<open>basic_test_mod.c\<close>, the programs the repository
  tests the library with. The first opens its
  file, reads it into a buffer, prints the buffer and closes the file, again and again, under
  the preloaded library. It runs here against servers that serve others and copy files in
  between, and it prints the file each time.
\<close>

section \<open>The program\<close>

text \<open>The name of the test file; \<open>rand() % FILE_COUNT\<close> is 0, as there is one file.\<close>

definition test_file_name :: "cint \<Rightarrow> cint \<Rightarrow> path" where
  "test_file_name pid n = take 255 (''./testfile.'' @ dec_int (sint pid) @ ''.4096.'' @ dec_int (sint n))"

text \<open>
  One round of a loop of \<open>test_file_read\<close>: the output, the buffer and the process afterwards.
  The buffer is printed with \<open>%s\<close>, up to its first zero, which must be there.
\<close>

definition test_round ::
  "('o, 'a, 'w) cenv \<Rightarrow> path \<Rightarrow> byte list \<Rightarrow> ('o, 'w) proc \<Rightarrow> (byte list \<times> byte list \<times> ('o, 'w) proc) outcome" where
  "test_round e tfn buf p = and_then (wrap_open e tfn O_RDONLY 0x1A4 p) (\<lambda>(testfile, p1).
     if testfile = -1 then Inl (Exit_process 1)
     else and_then (wrap_read e testfile (Some buf) 4096 p1) (\<lambda>(_, buf', p2). case buf' of
         None \<Rightarrow> Inl Undefined_behaviour
       | Some mem \<Rightarrow> if 0 \<notin> set mem then Inl Undefined_behaviour
           else and_then (wrap_close e testfile p2) (\<lambda>(_, p3). Inr (takeWhile (\<lambda>x. x \<noteq> 0) mem, mem, p3))))"

text \<open>
  A loop, one round for each element of the list; the element says what becomes of the world
  before the round begins.
\<close>

fun test_loop ::
  "('o, 'a, 'w) cenv \<Rightarrow> path \<Rightarrow> ('w \<Rightarrow> 'w) list \<Rightarrow> byte list \<Rightarrow> ('o, 'w) proc
    \<Rightarrow> (byte list list \<times> byte list \<times> ('o, 'w) proc) outcome" where
  "test_loop e tfn [] buf p = Inr ([], buf, p)"
| "test_loop e tfn (m # ms) buf p =
     and_then (test_round e tfn buf (p\<lparr>net := m (net p)\<rparr>)) (\<lambda>(out, buf1, p1).
     and_then (test_loop e tfn ms buf1 p1) (\<lambda>(outs, buf2, p2). Inr (out # outs, buf2, p2)))"

text \<open>
  \<open>test_file_read\<close>: two loops, and a \<open>fork\<close> in between, in which the parent goes on as it was.
\<close>

definition test_file_read ::
  "('o, 'a, 'w) cenv \<Rightarrow> cint \<Rightarrow> ('w \<Rightarrow> 'w) list \<Rightarrow> ('w \<Rightarrow> 'w) list \<Rightarrow> byte list \<Rightarrow> ('o, 'w) proc
    \<Rightarrow> (byte list list \<times> ('o, 'w) proc) outcome" where
  "test_file_read e pid ms1 ms2 buf p = (let tfn = test_file_name pid 0 in
     and_then (test_loop e tfn ms1 buf p) (\<lambda>(outs1, buf1, p1).
     and_then (test_loop e tfn ms2 buf1 p1) (\<lambda>(outs2, _, p2). Inr (outs1 @ outs2, p2))))"

text \<open>
  \<open>generate_files\<close>: each file is opened for writing and gets the buffer, which begins with a line
  of text. \<open>cleanup_files\<close> removes the files with \<open>unlink\<close>, which the library does not intercept.
\<close>

definition O_TRUNC :: cint where "O_TRUNC = 512"

definition test_text :: "cint \<Rightarrow> string" where
  "test_text n = ''This is file '' @ dec_int (sint n) @ '' and this was a successfully redirected read'' @ [newline]"

fun generate_files ::
  "('o, 'a, 'w) cenv \<Rightarrow> cint \<Rightarrow> cint list \<Rightarrow> byte list \<Rightarrow> ('o, 'w) proc \<Rightarrow> ('o, 'w) proc outcome" where
  "generate_files e pid [] buf p = Inr p"
| "generate_files e pid (lcv # lcvs) buf p =
     and_then (wrap_open e (test_file_name pid lcv) (O_WRONLY OR O_CREAT OR O_TRUNC) 0x1A4 p) (\<lambda>(testfile, p1).
       if testfile = -1 then Inl (Exit_process 1)
       else let buf1 = overlay (map of_char (test_text lcv) @ [0]) buf in
         and_then (wrap_write e testfile (Some buf1) 4096 p1) (\<lambda>(_, p2).
         and_then (wrap_close e testfile p2) (\<lambda>(_, p3). generate_files e pid lcvs buf1 p3)))"

definition cleanup_files :: "(path \<Rightarrow> 'o \<Rightarrow> 'o) \<Rightarrow> cint \<Rightarrow> cint list \<Rightarrow> ('o, 'w) proc \<Rightarrow> ('o, 'w) proc" where
  "cleanup_files real_unlink pid lcvs p = p\<lparr>os := fold (\<lambda>lcv. real_unlink (test_file_name pid lcv)) lcvs (os p)\<rparr>"

definition test_main ::
  "('o, 'a, 'w) cenv \<Rightarrow> (path \<Rightarrow> 'o \<Rightarrow> 'o) \<Rightarrow> cint \<Rightarrow> ('w \<Rightarrow> 'w) \<Rightarrow> ('w \<Rightarrow> 'w) \<Rightarrow> byte list \<Rightarrow> byte list \<Rightarrow> ('o, 'w) proc
    \<Rightarrow> (byte list list \<times> ('o, 'w) proc) outcome" where
  "test_main e real_unlink pid m1 m2 buf1 buf2 p =
     and_then (generate_files e pid [0] buf1 p) (\<lambda>p1.
     and_then (test_file_read e pid [m1] [m2] buf2 p1) (\<lambda>(outs, p2).
       Inr (outs, cleanup_files real_unlink pid [0] p2)))"

text \<open>The files are written by the system alone: no server and no table hears of them.\<close>

lemma write_flags:
  "\<not> readable_flags (O_WRONLY OR O_CREAT OR O_TRUNC)" "(O_WRONLY OR O_CREAT OR O_TRUNC) AND O_CREAT \<noteq> 0"
  by (simp_all add: readable_flags_def open_flag_defs O_TRUNC_def O_CREAT_def)

lemma generate_files_local:
  assumes "generate_files e pid lcvs buf p = Inr q" and "\<not> redirect_off p" and "\<forall>f. dlsym e f"
    and "\<forall>path md w. fd_map p (fst (real_open e path (O_WRONLY OR O_CREAT OR O_TRUNC) md w)) = None"
  shows "net q = net p \<and> fd_map q = fd_map p \<and> fd_redir_map q = fd_redir_map p"
  using assms
proof (induction lcvs arbitrary: buf p)
  case Nil
  then show ?case by simp
next
  case (Cons lcv lcvs)
  let ?tfn = "test_file_name pid lcv"
  obtain fd w where real: "real_open e ?tfn (O_WRONLY OR O_CREAT OR O_TRUNC) 0x1A4 (os p) = (fd, w)" by fastforce
  have real': "real_open e ?tfn (O_WRONLY OR O_CREAT OR O_TRUNC)
      (if (O_WRONLY OR O_CREAT OR O_TRUNC) AND O_CREAT \<noteq> 0 then 0x1A4 else 0) (os p) = (fd, w)"
    using real write_flags(2) by simp
  obtain p1 where p1: "wrap_open e ?tfn (O_WRONLY OR O_CREAT OR O_TRUNC) 0x1A4 p = Inr (fd, p1)"
    "p1 = p\<lparr>os := w\<rparr> \<or> p1 = l4c (p\<lparr>os := w\<rparr>)"
    using wrap_open_untracked [OF Cons.prems(2) spec [OF Cons.prems(3)] real'] write_flags(1) by blast
  define buf1 where "buf1 = overlay (map of_char (test_text lcv) @ [0]) buf"
  have free: "fd_map p1 fd = None" using Cons.prems(4) real p1(2) by (auto dest!: spec [where x = ?tfn] spec [where x = "0x1A4"] spec [where x = "os p"])
  obtain w2 where w2: "wrap_write e fd (Some buf1) 4096 p1 = Inr (fst (real_write e fd (Some buf1) 4096 (os p1)), p1\<lparr>os := w2\<rparr>)"
    using Cons.prems(3) by (simp add: wrap_write_def MAP_OR_FAIL_def case_prod_beta)
  obtain r p3 where p3: "wrap_close e fd (p1\<lparr>os := w2\<rparr>) = Inr (r, p3)" "generate_files e pid lcvs buf1 p3 = Inr q"
    using Cons.prems(1) p1(1) w2 by (auto simp: and_then_eq_Inr Let_def buf1_def [symmetric] split: if_splits)
  have off: "\<not> redirect_off (p1\<lparr>os := w2\<rparr>)" using Cons.prems(2) p1(2) by (auto simp: redirect_off_def)
  have same: "net p3 = net p \<and> fd_map p3 = fd_map p \<and> fd_redir_map p3 = fd_redir_map p \<and> \<not> redirect_off p3"
    using p3(1) free off Cons.prems(2,3) p1(2)
    by (auto simp: wrap_close_def MAP_OR_FAIL_def hvac_get_path_def case_prod_beta redirect_off_def split: if_splits)
  with Cons.IH [OF p3(2)] Cons.prems(3,4) show ?case by simp
qed

text \<open>The bytes that \<open>generate_files\<close> writes to its file number \<open>n\<close>, and that it can write them.\<close>

definition test_file_bytes :: "cint \<Rightarrow> byte list \<Rightarrow> byte list" where
  "test_file_bytes n buf = overlay (map of_char (test_text n) @ [0]) buf"

lemma test_file_bytes_first:
  assumes "length buf = 4096"
  shows "length (test_file_bytes 0 buf) = 4096" "0 \<in> set (test_file_bytes 0 buf)"
    "takeWhile (\<lambda>x. x \<noteq> 0) (test_file_bytes 0 buf) = map of_char (test_text 0)"
proof -
  have "dec_int (sint (0 :: cint)) = ''0''" by code_simp
  then have t: "test_text 0 = ''This is file 0 and this was a successfully redirected read'' @ [newline]"
    by (simp add: test_text_def)
  have n: "\<forall>x \<in> set (map of_char (test_text 0) :: byte list). x \<noteq> 0" unfolding t by (simp add: newline_def)
  have "length (test_text 0) < 4095" unfolding t by simp
  with assms show "length (test_file_bytes 0 buf) = 4096" by (simp add: test_file_bytes_def overlay_def)
  show "0 \<in> set (test_file_bytes 0 buf)" by (simp add: test_file_bytes_def overlay_def)
  show "takeWhile (\<lambda>x. x \<noteq> 0) (test_file_bytes 0 buf) = map of_char (test_text 0)"
    unfolding test_file_bytes_def overlay_def append_assoc using n by (subst takeWhile_append2) auto
qed

lemma l4c_on: "\<not> redirect_off p \<Longrightarrow> l4c p = p"
  by (simp add: redirect_off_def l4c_def)

lemma generate_file_writes:
  fixes e :: "('o, 'a, 'w) cenv" and p :: "('o, 'w) proc"
  assumes "\<not> redirect_off p" and "\<forall>f. dlsym e f" and "fd_map p fd = None" and "fd \<noteq> -1"
    and "real_open e (test_file_name pid n) (O_WRONLY OR O_CREAT OR O_TRUNC) 0x1A4 (os p) = (fd, w1)"
    and "real_write e fd (Some (test_file_bytes n buf)) 4096 w1 = (r, w2)" and "real_close e fd w2 = (rc, w3)"
  shows "generate_files e pid [n] buf p = Inr (p\<lparr>os := w3\<rparr>)"
proof -
  have l4c: "l4c (p\<lparr>os := w\<rparr>) = p\<lparr>os := w\<rparr>" for w using assms(1) by (intro l4c_on) (simp add: redirect_off_def)
  have "real_open e (test_file_name pid n) (O_WRONLY OR O_CREAT OR O_TRUNC)
      (if (O_WRONLY OR O_CREAT OR O_TRUNC) AND O_CREAT \<noteq> 0 then 0x1A4 else 0) (os p) = (fd, w1)"
    using assms(5) write_flags(2) by simp
  from wrap_open_untracked [OF assms(1) spec [OF assms(2)] this] write_flags(1)
  have "wrap_open e (test_file_name pid n) (O_WRONLY OR O_CREAT OR O_TRUNC) 0x1A4 p = Inr (fd, p\<lparr>os := w1\<rparr>)"
    unfolding l4c by blast
  moreover have "wrap_write e fd (Some (test_file_bytes n buf)) 4096 (p\<lparr>os := w1\<rparr>) = Inr (r, p\<lparr>os := w2\<rparr>)"
    using assms(2,6) by (simp add: wrap_write_def MAP_OR_FAIL_def)
  moreover have "wrap_close e fd (p\<lparr>os := w2\<rparr>) = Inr (rc, p\<lparr>os := w3\<rparr>)"
    using assms(1,2,3,7) l4c by (simp add: wrap_close_def MAP_OR_FAIL_def hvac_get_path_def redirect_off_def)
  ultimately show ?thesis using assms(4) by (simp add: test_file_bytes_def [symmetric])
qed

section \<open>What the rest of the job may do\<close>

abbreviation node_run :: "server \<Rightarrow> server \<Rightarrow> bool" where
  "node_run \<equiv> (\<lambda>s t. \<exists>env. server_step env s t)\<^sup>*\<^sup>*"

text \<open>The server can open the file, or its copy: it has a descriptor left.\<close>

definition can_open :: "server \<Rightarrow> path \<Rightarrow> bool" where
  "can_open s c \<longleftrightarrow> fst (posix_open (disk s) (redirected s c)) \<noteq> -1"

text \<open>
  The node at \<open>a\<close> goes on running, by requests of others and its mover, and does not use up its
  descriptors.
\<close>

definition keeps_serving :: "string \<Rightarrow> path \<Rightarrow> (cluster \<Rightarrow> cluster) \<Rightarrow> bool" where
  "keeps_serving a c m \<longleftrightarrow> (\<forall>w s. w a = Some s \<longrightarrow> can_open s c \<longrightarrow>
     (\<exists>t. m w a = Some t \<and> node_run s t \<and> can_open t c))"

lemma keeps_serving_id: "keeps_serving a c (\<lambda>w. w)"
  by (auto simp: keeps_serving_def)

lemma can_open_served:
  assumes "served c s s'"
  shows "can_open s' c = can_open s c"
proof -
  have "fst (posix_open (disk s') q) = fst (posix_open (disk s) q)" for q
    using assms by (simp add: served_def posix_open_def canonical_in_def Let_def split: option.split)
  then show ?thesis using assms by (simp add: can_open_def redirected_def served_def)
qed

lemma run_handler_registry:
  assumes "run_handler env req s = Inr (out, data, s')"
  shows "registry s' = registry s"
proof (cases req)
  case (Read_in i)
  with read_quiet [OF assms[unfolded Read_in]] show ?thesis by (simp add: quiet_def)
qed (use assms in \<open>auto simp: run_handler_def hvac_open_rpc_handler_def hvac_seek_rpc_handler_def
  hvac_close_rpc_handler_def hvac_result Let_def case_prod_beta data_cond_signal_def
  split: option.splits if_splits\<close>)

lemma server_step_keeps:
  assumes "server_step env s t" and "server_ok s"
  shows "server_ok t \<and> registry t = registry s \<and> (\<forall>c b. bytes_at (disk s) c = Some b \<longrightarrow> bytes_at (disk t) c = Some b)"
  using assms(1)
proof (cases rule: server_step.cases)
  case (step_rpc req out data)
  have "bytes_at (disk t) c = bytes_at (disk s) c" for c
    using run_handler_files [OF step_rpc] by (intro bytes_at_cong) simp_all
  with run_handler_registry [OF step_rpc] server_ok_handler [OF assms(2) step_rpc] show ?thesis by simp
next
  case step_mover
  have "registry t = registry s" using step_mover by (cases rule: mover_step.cases) simp_all
  moreover have "bytes_at (disk t) c = Some b" if "bytes_at (disk s) c = Some b" for c b
    using step_mover that mover_copy_one_keeps_bytes by (cases rule: mover_step.cases) simp_all
  ultimately show ?thesis using server_ok_mover [OF step_mover assms(2)] by blast
qed

lemma node_run_keeps:
  "node_run s t \<Longrightarrow> server_ok s \<Longrightarrow> server_ok t \<and> registry t = registry s \<and>
   (\<forall>c b. bytes_at (disk s) c = Some b \<longrightarrow> bytes_at (disk t) c = Some b)"
proof (induction rule: rtranclp_induct)
  case (step t u)
  then show ?case using server_step_keeps [of _ t u] by fastforce
qed simp

section \<open>Rounds\<close>

text \<open>
  A process between two rounds: nothing pending, a server \<open>a\<close> that holds the bytes \<open>b\<close> of the
  file, and its address to be had. \<open>I\<close> says of the system, whose state is outside the model, that
  the file is there for the process.
\<close>

definition between_rounds ::
  "('o, string, cluster) cenv \<Rightarrow> string option \<Rightarrow> path \<Rightarrow> string \<Rightarrow> byte list \<Rightarrow> ('o \<Rightarrow> bool) \<Rightarrow> ('o, cluster) proc
    \<Rightarrow> bool" where
  "between_rounds E dir c a b I p \<longleftrightarrow> \<not> redirect_off p \<and> g_mercury_init p \<and> pending p = [] \<and> progress_runs p \<and>
     g_hvac_server_count p \<noteq> 0 \<and> hvac_data_dir p = dir \<and> I (os p) \<and>
     (\<forall>w. I w \<longrightarrow> server_of E (p\<lparr>os := w\<rparr>) c = Some a) \<and>
     (\<exists>s. net p a = Some s \<and> server_ok s \<and> bytes_at (disk s) c = Some b \<and> can_open s c \<and>
       registry s (hvac_client_open_id p) = Some K_open \<and> registry s (hvac_client_rpc_id p) = Some K_read \<and>
       registry s (hvac_client_seek_id p) = Some K_seek \<and> registry s (hvac_client_close_id p) = Some K_close)"

text \<open>
  As long as \<open>I\<close> holds the file can be opened and is in the data directory, and neither this nor a
  close changes it.
\<close>

definition test_file_there ::
  "('o, string, cluster) cenv \<Rightarrow> string option \<Rightarrow> path \<Rightarrow> path \<Rightarrow> ('o \<Rightarrow> bool) \<Rightarrow> bool" where
  "test_file_there E dir path c I \<longleftrightarrow> (\<forall>w. I w \<longrightarrow> (\<exists>fd w1. real_open E path O_RDONLY 0 w = (fd, w1) \<and> fd \<noteq> -1 \<and>
     in_data_dir E w1 dir path c \<and> I w1 \<and> I (snd (real_close E fd w1))))"

lemma server_of_net: "server_of E (p\<lparr>net := n, os := w\<rparr>) c = server_of E (p\<lparr>os := w\<rparr>) c"
  by (simp add: server_of_def host_index_def hvac_client_comm_lookup_addr_def Let_def l4c_def split: option.split)

lemma between_rounds_moves:
  assumes "between_rounds E dir c a b I p" and "keeps_serving a c m"
  shows "between_rounds E dir c a b I (p\<lparr>net := m (net p)\<rparr>)"
proof -
  obtain s where s: "net p a = Some s" "server_ok s" "bytes_at (disk s) c = Some b" "can_open s c"
    "registry s (hvac_client_open_id p) = Some K_open" "registry s (hvac_client_rpc_id p) = Some K_read"
    "registry s (hvac_client_seek_id p) = Some K_seek" "registry s (hvac_client_close_id p) = Some K_close"
    using assms(1) unfolding between_rounds_def by blast
  then obtain t where t: "m (net p) a = Some t" "node_run s t" "can_open t c"
    using assms(2) unfolding keeps_serving_def by blast
  from node_run_keeps [OF t(2) s(2)] s t(1,3) assms(1) show ?thesis
    by (simp add: between_rounds_def server_of_net redirect_off_def)
qed

text \<open>One round prints the file, and leaves a process ready for the next.\<close>

lemma test_round_reads:
  fixes e :: "('o, string, cluster) cenv" and p :: "('o, cluster) proc" and dt :: i64 and lf :: bool
  defines "E \<equiv> deployed e dt lf"
  assumes r: "between_rounds E dir c a b I p" and site: "test_file_there E dir path c I"
    and zero: "0 \<in> set (overlay (take 4096 b) buf)"
  shows "\<exists>q. test_round E path buf p = Inr (takeWhile (\<lambda>x. x \<noteq> 0) (overlay (take 4096 b) buf),
      overlay (take 4096 b) buf, q) \<and> between_rounds E dir c a b I q"
proof -
  obtain fd w where real: "real_open E path O_RDONLY 0 (os p) = (fd, w)" "fd \<noteq> -1" "in_data_dir E w dir path c"
    and I: "I w" "I (snd (real_close E fd w))"
    using site r unfolding test_file_there_def between_rounds_def by blast
  obtain ret w1 where cl: "real_close E fd w = (ret, w1)" by fastforce
  have flags: "O_RDONLY AND O_CREAT = 0" "readable_flags O_RDONLY"
    by (simp_all add: open_flag_defs readable_flags_def)
  obtain t where open_ok: "net p a = Some t" and s: "server_ok t" "bytes_at (disk t) c = Some b" "registry t (hvac_client_open_id p) = Some K_open"
    "registry t (hvac_client_rpc_id p) = Some K_read" "registry t (hvac_client_seek_id p) = Some K_seek"
    "registry t (hvac_client_close_id p) = Some K_close" "can_open t c"
    using r by (auto simp: between_rounds_def)
  have ready: "open_ready E p w path c a t"
    using r open_ok real(3) s(3) I(1) by (simp add: open_ready_def between_rounds_def)
  obtain rfd ps where po: "posix_open (disk t) (redirected t c) = (rfd, ps)" by fastforce
  have real': "real_open E path O_RDONLY (if O_RDONLY AND O_CREAT \<noteq> 0 then 0x1A4 else 0) (os p) = (fd, w)"
    using real(1) flags(1) by simp
  have rfd: "rfd \<noteq> -1" using s(7) po by (simp add: can_open_def)
  obtain p1 where p1: "wrap_open E path O_RDONLY 0x1A4 p = Inr (fd, p1)" "tracked_view E p1 fd = Some (b, 0)"
    "remote_end E p1 fd = Some (a, rfd)" and close: "\<forall>p2. only_reads a p1 p2 \<longrightarrow>
      (\<exists>p3 s3. wrap_close E fd p2 = Inr (ret, p3) \<and> os p3 = w1 \<and> net p3 a = Some s3 \<and> served c t s3 \<and>
        same_ids p p3 \<and> pending p3 = [] \<and> \<not> redirect_off p3 \<and> knows E p3 c a)"
    using session_open [OF ready [unfolded E_def] flags(2) real' [unfolded E_def] real(2) cl [unfolded E_def]
        s(1,4,5,6,2) po rfd]
    unfolding E_def by blast
  obtain p2 where p2: "wrap_read E fd (Some buf) 4096 p1 = Inr (of_nat (length (take 4096 b)),
      Some (overlay (take 4096 b) buf), p2)" "only_reads a p1 p2"
    using wrap_read_only [OF p1(2,3) [unfolded E_def], of 4096 buf] unfolding E_def by (auto simp: max_rw_def)
  obtain p3 s3 where p3: "wrap_close E fd p2 = Inr (ret, p3)" "os p3 = w1" "net p3 a = Some s3" "served c t s3"
    "same_ids p p3" "pending p3 = []" "\<not> redirect_off p3" "knows E p3 c a"
    using close p2(2) by blast
  have "bytes_at (disk s3) c = Some b"
    using s(2) p3(4) bytes_at_cong [of "disk s3" "disk t" c] by (simp add: served_def)
  moreover have "server_of E (p3\<lparr>os := w\<rparr>) c = Some a" for w
    using p3(8) by (auto simp: knows_def server_of_def host_index_def hvac_client_comm_lookup_addr_def)
  ultimately have "between_rounds E dir c a b I p3"
    using r p3 s can_open_served [OF p3(4)] I(2) cl by (simp add: between_rounds_def same_ids_def served_def)
  with p1(1) p2(1) p3(1) real(2) zero show ?thesis by (simp add: test_round_def)
qed

lemma overlay_again: "overlay d (overlay d buf) = overlay d buf"
  by (simp add: overlay_def)

lemma test_loop_reads:
  assumes "between_rounds (deployed e dt lf) dir c a b I p" and "test_file_there (deployed e dt lf) dir path c I"
    and "\<forall>m \<in> set ms. keeps_serving a c m" and "0 \<in> set (overlay (take 4096 b) buf)"
  shows "\<exists>buf' q. test_loop (deployed e dt lf) path ms buf p
      = Inr (replicate (length ms) (takeWhile (\<lambda>x. x \<noteq> 0) (overlay (take 4096 b) buf)), buf', q) \<and>
    overlay (take 4096 b) buf' = overlay (take 4096 b) buf \<and> between_rounds (deployed e dt lf) dir c a b I q"
  using assms
proof (induction ms arbitrary: buf p)
  case Nil
  then show ?case by simp
next
  case (Cons m ms)
  let ?o = "overlay (take 4096 b) buf"
  have r: "between_rounds (deployed e dt lf) dir c a b I (p\<lparr>net := m (net p)\<rparr>)"
    using between_rounds_moves [OF Cons.prems(1), of m] Cons.prems(3) by simp
  obtain q where q: "test_round (deployed e dt lf) path buf (p\<lparr>net := m (net p)\<rparr>)
      = Inr (takeWhile (\<lambda>x. x \<noteq> 0) ?o, ?o, q)" "between_rounds (deployed e dt lf) dir c a b I q"
    using test_round_reads [OF r Cons.prems(2,4)] by blast
  from Cons.IH [OF q(2) Cons.prems(2), of ?o] Cons.prems(3,4) q(1) show ?case
    by (auto simp: overlay_again)
qed

section \<open>From the start\<close>

text \<open>
  The file the program writes is not tracked, so the open of its first round is the one that
  starts Mercury. The round is the round of a process in which Mercury runs already.
\<close>

lemma test_loop_warm:
  assumes "client_env_ok E" and "\<not> redirect_off p" and "test_file_there E (hvac_data_dir p) path c I" and "I (os p)"
  shows "test_loop E path (m # ms) buf p = test_loop E path (m # ms) buf (warm E p)"
proof -
  let ?p = "p\<lparr>net := m (net p)\<rparr>"
  obtain fd w where real: "real_open E path O_RDONLY 0 (os p) = (fd, w)" "fd \<noteq> -1"
    "in_data_dir E w (hvac_data_dir p) path c"
    using assms(3,4) unfolding test_file_there_def by blast
  have flags: "O_RDONLY AND O_CREAT = 0" "readable_flags O_RDONLY"
    by (simp_all add: open_flag_defs readable_flags_def)
  have "wrap_open E path O_RDONLY 0x1A4 ?p = wrap_open E path O_RDONLY 0x1A4 (warm E ?p)"
    by (rule wrap_open_warm [OF assms(1) _ flags(2) _ real(2)])
      (use assms(2) real(1,3) flags(1) in \<open>simp_all add: redirect_off_def\<close>)
  moreover have "warm E ?p = (warm E p)\<lparr>net := m (net (warm E p))\<rparr>"
    by (simp add: warm_world(2) [OF assms(1)] warm_frame [OF assms(1)])
  ultimately show ?thesis by (simp add: test_round_def)
qed

text \<open>A process fresh from the constructor, once Mercury runs, is between two rounds.\<close>

lemma boot_between_rounds:
  fixes e :: "('o, string, cluster) cenv" and dt :: i64 and lf :: bool
  defines "E \<equiv> deployed e dt lf"
  assumes site: "\<And>w. I w \<Longrightarrow> client_site_ok E job n a rank str w path c \<and>
      read_config E w (ports_cfg_name job) = Some (ports_line rank str)"
    and server: "ws a = Some s" "server_ok s" "bytes_at (disk s) c = Some b" "can_open s c"
      "dispatch_ok senv (registry s)" "hg_register (hgenv E) = hg_register senv"
    and p: "hvac_client_init E (client_boot w0 ws0) = Inr p" and w: "I w"
  shows "between_rounds E (getenv E ''HVAC_DATA_DIR'') c a b I (warm E (p\<lparr>os := w, net := ws\<rparr>))"
proof -
  let ?q = "\<lambda>w. warm E (p\<lparr>os := w, net := ws\<rparr>)"
  have env: "client_env_ok E" using site [OF w] by (simp add: client_site_ok_def)
  have init: "hvac_client_init E (client_boot w0 ws) = Inr (p\<lparr>net := ws\<rparr>)" "os p = w0"
    "hvac_data_dir p = getenv E ''HVAC_DATA_DIR''"
  proof -
    have start: "hvac_client_init E (client_boot w0 v) = Inr ((client_boot w0 v)\<lparr>g_hvac_server_count := atoi n,
        hvac_data_dir := getenv E ''HVAC_DATA_DIR'', g_hvac_initialized := True, g_disable_redirect := False\<rparr>)" for v
      by (rule client_init_starts) (use site [OF w] in \<open>simp_all add: client_site_ok_def\<close>)
    from start [of ws0] start [of ws] p
    show "hvac_client_init E (client_boot w0 ws) = Inr (p\<lparr>net := ws\<rparr>)" "os p = w0"
      "hvac_data_dir p = getenv E ''HVAC_DATA_DIR''"
      by (auto simp: client_boot_def)
  qed
  have ready: "open_ready E (?q v) v path c a s \<and> registry s (hvac_client_rpc_id (?q v)) = Some K_read \<and>
      registry s (hvac_client_seek_id (?q v)) = Some K_seek \<and>
      registry s (hvac_client_close_id (?q v)) = Some K_close" if v: "I v" for v
  proof -
    have "p\<lparr>net := ws, os := v\<rparr> = p\<lparr>os := v, net := ws\<rparr>" by simp
    with client_ready_after_init [of e dt lf job n a rank str v path c senv s ws w0] site [OF v] server init(1)
    show ?thesis unfolding E_def by auto
  qed
  have "server_of E ((?q w)\<lparr>os := v\<rparr>) c = Some a" if v: "I v" for v
  proof -
    have "?q v = (?q w)\<lparr>os := v\<rparr>" by (simp add: warm_world [OF env])
    with ready [OF v] show ?thesis by (simp add: open_ready_def)
  qed
  moreover have "hvac_data_dir (?q w) = getenv E ''HVAC_DATA_DIR''" "os (?q w) = w"
    using warm_switches(1) [OF env, of "p\<lparr>os := w, net := ws\<rparr>"] init(3) warm_frame(6) [OF env, of "p\<lparr>os := w, net := ws\<rparr>"]
    by simp_all
  ultimately show ?thesis using ready [OF w] server w by (simp add: between_rounds_def open_ready_def)
qed

text \<open>The rounds of both loops, the first of which starts Mercury.\<close>

lemma test_rounds_from_start:
  fixes e :: "('o, string, cluster) cenv" and p :: "('o, cluster) proc" and dt :: i64 and lf :: bool
  defines "E \<equiv> deployed e dt lf"
  assumes start: "client_env_ok E" "\<not> redirect_off p" "hvac_data_dir p = dir" "I (os p)"
    and there: "test_file_there E dir (test_file_name pid 0) c I"
    and round: "between_rounds E dir c a b I (warm E (p\<lparr>net := m1 (net p)\<rparr>))"
    and moves: "\<forall>m \<in> set (ms1 @ ms2). keeps_serving a c m"
    and zero: "0 \<in> set (overlay (take 4096 b) buf)"
  shows "\<exists>q. test_file_read E pid (m1 # ms1) ms2 buf p = Inr (replicate (Suc (length (ms1 @ ms2)))
      (takeWhile (\<lambda>x. x \<noteq> 0) (overlay (take 4096 b) buf)), q) \<and> between_rounds E dir c a b I q"
proof -
  let ?out = "takeWhile (\<lambda>x. x \<noteq> 0) (overlay (take 4096 b) buf)" and ?path = "test_file_name pid 0"
  let ?p = "p\<lparr>net := m1 (net p)\<rparr>" and ?id = "\<lambda>w. w :: cluster"
  have "\<forall>m \<in> set (?id # ms1). keeps_serving a c m" using moves keeps_serving_id by simp
  then obtain buf1 p1 where one: "test_loop E ?path (?id # ms1) buf (warm E ?p)
      = Inr (replicate (length (?id # ms1)) ?out, buf1, p1)"
    "overlay (take 4096 b) buf1 = overlay (take 4096 b) buf" "between_rounds E dir c a b I p1"
    using test_loop_reads [OF round [unfolded E_def] there [unfolded E_def] _ zero, of "?id # ms1"]
    unfolding E_def by blast
  obtain buf2 q where two: "test_loop E ?path ms2 buf1 p1 = Inr (replicate (length ms2) ?out, buf2, q)"
    "between_rounds E dir c a b I q"
    using test_loop_reads [OF one(3) [unfolded E_def] there [unfolded E_def], of ms2 buf1] moves zero one(2)
    unfolding E_def by auto
  have "test_loop E ?path (m1 # ms1) buf p = test_loop E ?path (?id # ms1) buf ?p" by simp
  also have "\<dots> = test_loop E ?path (?id # ms1) buf (warm E ?p)"
    by (rule test_loop_warm [where c = c and I = I])
      (use start there in \<open>simp_all add: redirect_off_def\<close>)
  finally show ?thesis using two(2) by (simp add: test_file_read_def one(1) two(1) replicate_add del: test_loop.simps)
qed

section \<open>The program under MPI\<close>

text \<open>
  \<open>src/tests/basic_test_mod.c\<close>: every process of an MPI job writes its share of 1000 files and
  then draws files at random; it reads those that fall to it, which is the \<open>rank\<close> that the
  number of the file gives modulo the number of processes. \<open>rs\<close> are the results of \<open>rand\<close>, which
  are not negative, each with what becomes of the world before its round begins; the barriers of
  MPI carry no data, and an \<open>MPI_Abort\<close> ends the process.
\<close>

definition mpi_file_count :: cint where "mpi_file_count = 1000"

definition mpi_text :: "cint \<Rightarrow> cint \<Rightarrow> string" where
  "mpi_text rank n = ''This is file '' @ dec_int (sint n) @ '' from process '' @ dec_int (sint rank)
     @ '' and this was a successfully redirected read'' @ [newline]"

fun mpi_generate_files ::
  "('o, 'a, 'w) cenv \<Rightarrow> cint \<Rightarrow> cint list \<Rightarrow> byte list \<Rightarrow> ('o, 'w) proc \<Rightarrow> ('o, 'w) proc outcome" where
  "mpi_generate_files e rank [] buf p = Inr p"
| "mpi_generate_files e rank (lcv # lcvs) buf p =
     and_then (wrap_open e (test_file_name rank lcv) (O_WRONLY OR O_CREAT OR O_TRUNC) 0x1A4 p) (\<lambda>(testfile, p1).
       if testfile = -1 then Inl (Exit_process 1)
       else let buf1 = overlay (map of_char (mpi_text rank lcv) @ [0]) buf in
         and_then (wrap_write e testfile (Some buf1) 4096 p1) (\<lambda>(_, p2).
         and_then (wrap_close e testfile p2) (\<lambda>(_, p3). mpi_generate_files e rank lcvs buf1 p3)))"

definition mpi_draw :: "cint \<Rightarrow> cint \<Rightarrow> cint \<times> path" where
  "mpi_draw sz r = (let id = r mod mpi_file_count; file_owner = id mod sz
     in (file_owner, test_file_name file_owner (id div sz)))"

fun mpi_test_file_read ::
  "('o, 'a, 'w) cenv \<Rightarrow> cint \<Rightarrow> cint \<Rightarrow> (cint \<times> ('w \<Rightarrow> 'w)) list \<Rightarrow> byte list \<Rightarrow> ('o, 'w) proc
    \<Rightarrow> (byte list list \<times> byte list \<times> ('o, 'w) proc) outcome" where
  "mpi_test_file_read e rank sz [] buf p = Inr ([], buf, p)"
| "mpi_test_file_read e rank sz ((r, m) # rs) buf p = (let (file_owner, tfn) = mpi_draw sz r in
     if file_owner = rank then
       and_then (test_round e tfn buf (p\<lparr>net := m (net p)\<rparr>)) (\<lambda>(out, buf1, p1).
       and_then (mpi_test_file_read e rank sz rs buf1 p1) (\<lambda>(outs, buf2, p2). Inr (out # outs, buf2, p2)))
     else mpi_test_file_read e rank sz rs buf (p\<lparr>net := m (net p)\<rparr>))"

text \<open>A loop up to a \<open>uint32_t\<close>, and \<open>main\<close> between \<open>MPI_Init\<close> and \<open>MPI_Finalize\<close>.\<close>

definition up_to :: "cint \<Rightarrow> cint list" where
  "up_to n = map of_nat [0..<unat n]"

definition mpi_main ::
  "('o, 'a, 'w) cenv \<Rightarrow> (path \<Rightarrow> 'o \<Rightarrow> 'o) \<Rightarrow> cint \<Rightarrow> cint \<Rightarrow> ('w \<Rightarrow> 'w) \<Rightarrow> (cint \<times> ('w \<Rightarrow> 'w)) list
    \<Rightarrow> byte list \<Rightarrow> byte list \<Rightarrow> ('o, 'w) proc \<Rightarrow> (byte list list \<times> ('o, 'w) proc) outcome" where
  "mpi_main e real_unlink rank sz m rs buf1 buf2 p = (let files_per_process = mpi_file_count div sz in
     and_then (mpi_generate_files e rank (up_to files_per_process) buf1 p) (\<lambda>p1.
     and_then (mpi_test_file_read e rank sz (take (unat (files_per_process * 2)) rs) buf2 (p1\<lparr>net := m (net p1)\<rparr>))
       (\<lambda>(outs, _, p2). Inr (outs, cleanup_files real_unlink rank (up_to files_per_process) p2))))"

text \<open>
  When the number of processes divides 1000 every file that is drawn has been written by the
  process it falls to. Otherwise there is a number that makes the process of rank 0 ask for one
  file more than it has written, and where that file is not there, the draw ends the job.
\<close>

lemma unat_draw:
  assumes "0 < unat sz"
  shows "unat (fst (mpi_draw sz r)) = unat r mod 1000 mod unat sz"
    "unat ((r mod mpi_file_count) div sz) = unat r mod 1000 div unat sz"
  by (simp_all add: mpi_draw_def Let_def mpi_file_count_def unat_mod_distrib unat_div_distrib)

lemma drawn_file_written:
  assumes "0 < unat sz" and "unat sz dvd 1000"
  shows "\<exists>lcv \<in> set (up_to (mpi_file_count div sz)).
    snd (mpi_draw sz r) = test_file_name (fst (mpi_draw sz r)) lcv"
proof -
  let ?lcv = "(r mod mpi_file_count) div sz"
  have "unat r mod 1000 div unat sz < 1000 div unat sz"
  proof -
    obtain k where k: "1000 = unat sz * k" using assms(2) unfolding dvd_def by blast
    have "unat r mod 1000 < k * unat sz" using k by (metis mod_less_divisor mult.commute zero_less_numeral)
    then have "unat r mod 1000 div unat sz < k" by (rule less_mult_imp_div_less)
    with k assms(1) show ?thesis by (metis nonzero_mult_div_cancel_left less_irrefl)
  qed
  then have "unat ?lcv < unat (mpi_file_count div sz)"
    using unat_draw(2) [OF assms(1)] by (simp add: mpi_file_count_def unat_div_distrib)
  then have "?lcv \<in> set (up_to (mpi_file_count div sz))"
    unfolding up_to_def set_map by (intro image_eqI [where x = "unat ?lcv"]) simp_all
  then show ?thesis by (intro bexI [of _ ?lcv]) (simp_all add: mpi_draw_def Let_def)
qed

lemma draw_of_missing_file:
  assumes "0 < unat sz" and "\<not> unat sz dvd 1000"
  shows "\<exists>r. unat r < 1000 \<and> mpi_draw sz r = (0, test_file_name 0 (mpi_file_count div sz)) \<and>
    mpi_file_count div sz \<notin> set (up_to (mpi_file_count div sz))"
proof -
  let ?n = "1000 div unat sz * unat sz"
  have "?n < 1000"
    using assms(2) div_times_less_eq_dividend [of 1000 "unat sz"] by (metis dvd_triv_right le_neq_implies_less)
  then have n: "unat (of_nat ?n :: cint) = ?n" unfolding unat_of_nat by (intro mod_less) simp
  have "unat (fst (mpi_draw sz (of_nat ?n))) = 0"
    using unat_draw(1) [OF assms(1), of "of_nat ?n"] n \<open>?n < 1000\<close> by (simp only: mod_less mod_mult_self2_is_0)
  then have "fst (mpi_draw sz (of_nat ?n)) = 0" by (simp add: unat_eq_zero)
  moreover have "unat ((of_nat ?n mod mpi_file_count) div sz) = unat (mpi_file_count div sz)"
    using unat_draw(2) [OF assms(1), of "of_nat ?n"] n \<open>?n < 1000\<close> assms(1)
    by (simp only: mod_less) (simp add: mpi_file_count_def unat_div_distrib)
  then have "(of_nat ?n mod mpi_file_count) div sz = mpi_file_count div sz" by (simp only: word_unat_eq_iff)
  ultimately have "mpi_draw sz (of_nat ?n) = (0, test_file_name 0 (mpi_file_count div sz))"
    by (simp add: mpi_draw_def Let_def)
  moreover have "x \<noteq> mpi_file_count div sz" if "x \<in> set (up_to (mpi_file_count div sz))" for x
    using that by (auto simp: up_to_def word_unat_eq_iff unat_of_nat)
  ultimately show ?thesis using n \<open>?n < 1000\<close> by (intro exI [of _ "of_nat ?n"]) auto
qed

lemma draw_of_missing_file_aborts:
  assumes "mpi_draw sz r = (rank, tfn)" and "dlsym e ''open''" and "\<not> redirect_off p"
    and "fst (real_open e tfn O_RDONLY 0 (os p)) = -1"
  shows "mpi_test_file_read e rank sz ((r, m) # rs) buf p = Inl (Exit_process 1)"
  using assms
  by (simp add: test_round_def wrap_open_def MAP_OR_FAIL_def track_fd_def redirect_off_def open_flag_defs
      case_prod_beta)

end
