(* ===== verification/Queue_Lock.thy ===== *)
theory Queue_Lock
  imports Server_Facts
begin

text \<open>
  The two threads of the daemon around \<open>data_mutex\<close>: the handler of a close
  (\<open>hvac_close_rpc_handler\<close> in \<open>src/hvac_comm.cpp\<close>) and the mover's outer loop
  (\<open>hvac_data_mover_fn\<close> in \<open>src/hvac_data_mover.cpp\<close>), cut at the operations on the mutex and on
  what the threads share. In \<open>Server\<close> a close is one step and the mutex does not appear; here
  the queue is seen to be guarded by it, no signal that finds the mover waiting comes without
  its file, and \<open>path_cache_map\<close> is seen to be accessed by both threads with no lock held.
\<close>

section \<open>The close in parts\<close>

text \<open>Up to the search in \<open>path_cache_map\<close>, which says whether the file is to be queued.\<close>

definition close_search :: "rpc_env \<Rightarrow> cint \<Rightarrow> 'a server_scheme \<Rightarrow> (bool \<times> 'a server_scheme) outcome" where
  "close_search env fd s = assert_that (get_input_ok env)
     (case posix_close (disk s) fd of (ret, ps) \<Rightarrow>
        let s1 = log_push ''close'' (elapsed env) (s\<lparr>disk := ps\<rparr>)
        in assert_that (ret = 0)
            (let s2 = flush_if_full env s1; (p, names) = map_index [] (fd_to_path s2) fd
             in Inr (\<not> map_has (path_cache_map s2) p, s2\<lparr>fd_to_path := names\<rparr>)))"

definition close_push :: "cint \<Rightarrow> 'a data_mover_scheme \<Rightarrow> 'a data_mover_scheme" where
  "close_push fd s = (case map_index [] (fd_to_path s) fd of (p, names) \<Rightarrow>
     s\<lparr>data_queue := data_queue s @ [p], fd_to_path := names\<rparr>)"

definition close_forget :: "cint \<Rightarrow> 'a data_mover_scheme \<Rightarrow> 'a data_mover_scheme" where
  "close_forget fd s = s\<lparr>fd_to_path := map_erase fd (fd_to_path s)\<rparr>"

lemma close_in_parts:
  "hvac_close_rpc_handler env \<lparr>close_fd = fd\<rparr> s = and_then (close_search env fd s) (\<lambda>(queue, s1).
     Inr (close_forget fd (if queue then close_push fd (data_cond_signal s1) else s1)))"
proof -
  obtain ret ps where c: "posix_close (disk s) fd = (ret, ps)" by fastforce
  define s2 where "s2 = flush_if_full env (log_push ''close'' (elapsed env) (s\<lparr>disk := ps\<rparr>))"
  obtain p names where p: "map_index [] (fd_to_path s2) fd = (p, names)" by fastforce
  then have again: "map_index [] names fd = (p, names)" by (auto simp: map_index_def split: option.splits)
  show ?thesis
    unfolding hvac_close_rpc_handler_def close_search_def c Let_def prod.case s2_def [symmetric]
      hvac_close_in_t.simps p
    by (simp add: assert_that_def close_push_def close_forget_def data_cond_signal_def again)
qed

section \<open>The threads\<close>

datatype daemon_thread = Handler | Mover

datatype close_pc =
    Cl_out            \<comment> \<open>in no close\<close>
  | Cl_lock cint      \<comment> \<open>about to take the mutex\<close>
  | Cl_signal cint    \<comment> \<open>about to signal, the mutex held, as in the next two\<close>
  | Cl_push cint
  | Cl_unlock cint
  | Cl_forget cint    \<comment> \<open>about to erase the name\<close>

datatype lock_pc =
    At_lock           \<comment> \<open>at the head of the outer loop\<close>
  | At_wait           \<comment> \<open>about to wait, the mutex held\<close>
  | In_wait           \<comment> \<open>the mutex released\<close>
  | At_relock         \<comment> \<open>woken, about to take the mutex again\<close>
  | At_drain          \<comment> \<open>about to empty the queue, the mutex held\<close>
  | At_unlock
  | At_copy           \<comment> \<open>at the head of the copy loop\<close>

text \<open>\<open>drains\<close> is a history: what the queue held each time it was emptied.\<close>

record locked_node =
  lnode :: server
  holder :: "daemon_thread option"
  close_at :: close_pc
  mover_at :: lock_pc
  drains :: "path list list"

text \<open>What a step accesses of the two containers, and whether it writes.\<close>

datatype shared = The_queue | The_cache

type_synonym accesses = "(shared \<times> bool) set"

definition request_accesses :: "rpc_in \<Rightarrow> accesses" where
  "request_accesses req = (case req of Open_in _ \<Rightarrow> {(The_cache, False)} | _ \<Rightarrow> {})"

inductive lock_step :: "rpc_env \<Rightarrow> locked_node \<Rightarrow> daemon_thread \<times> accesses \<Rightarrow> locked_node \<Rightarrow> bool"
  for env :: rpc_env where
  cl_other: "close_at s = Cl_out \<Longrightarrow> \<forall>i. req \<noteq> Close_in i \<Longrightarrow> run_handler env req (lnode s) = Inr (out, data, n) \<Longrightarrow>
    lock_step env s (Handler, request_accesses req) (s\<lparr>lnode := n\<rparr>)"
| cl_search: "close_at s = Cl_out \<Longrightarrow> close_search env fd (lnode s) = Inr (queue, n) \<Longrightarrow>
    lock_step env s (Handler, {(The_cache, False)})
      (s\<lparr>lnode := n, close_at := (if queue then Cl_lock fd else Cl_forget fd)\<rparr>)"
| cl_lock: "close_at s = Cl_lock fd \<Longrightarrow> holder s = None \<Longrightarrow>
    lock_step env s (Handler, {}) (s\<lparr>holder := Some Handler, close_at := Cl_signal fd\<rparr>)"
| cl_signal: "close_at s = Cl_signal fd \<Longrightarrow>
    lock_step env s (Handler, {}) (s\<lparr>lnode := data_cond_signal (lnode s), close_at := Cl_push fd,
      mover_at := (if mover_at s = In_wait then At_relock else mover_at s)\<rparr>)"
| cl_push: "close_at s = Cl_push fd \<Longrightarrow>
    lock_step env s (Handler, {(The_queue, True)}) (s\<lparr>lnode := close_push fd (lnode s), close_at := Cl_unlock fd\<rparr>)"
| cl_unlock: "close_at s = Cl_unlock fd \<Longrightarrow>
    lock_step env s (Handler, {}) (s\<lparr>holder := None, close_at := Cl_forget fd\<rparr>)"
| cl_forget: "close_at s = Cl_forget fd \<Longrightarrow>
    lock_step env s (Handler, {}) (s\<lparr>lnode := close_forget fd (lnode s), close_at := Cl_out\<rparr>)"
| mv_lock: "mover_at s = At_lock \<Longrightarrow> holder s = None \<Longrightarrow>
    lock_step env s (Mover, {}) (s\<lparr>holder := Some Mover, mover_at := At_wait\<rparr>)"
| mv_wait: "mover_at s = At_wait \<Longrightarrow>
    lock_step env s (Mover, {}) (s\<lparr>lnode := mover_wait (lnode s), holder := None, mover_at := In_wait\<rparr>)"
| mv_spurious: "mover_at s = In_wait \<Longrightarrow>
    lock_step env s (Mover, {}) (s\<lparr>lnode := (lnode s)\<lparr>mover := Mover_woken\<rparr>, mover_at := At_relock\<rparr>)"
| mv_relock: "mover_at s = At_relock \<Longrightarrow> holder s = None \<Longrightarrow>
    lock_step env s (Mover, {}) (s\<lparr>holder := Some Mover, mover_at := At_drain\<rparr>)"
| mv_drain: "mover_at s = At_drain \<Longrightarrow>
    lock_step env s (Mover, {(The_queue, True)})
      (s\<lparr>lnode := mover_wake (lnode s), mover_at := At_unlock, drains := drains s @ [data_queue (lnode s)]\<rparr>)"
| mv_unlock: "mover_at s = At_unlock \<Longrightarrow>
    lock_step env s (Mover, {}) (s\<lparr>holder := None, mover_at := At_copy\<rparr>)"
| mv_copy: "mover_at s = At_copy \<Longrightarrow> local_list (lnode s) \<noteq> [] \<Longrightarrow>
    fresh_for (disk (lnode s)) mk (hd (local_list (lnode s))) \<Longrightarrow> n = mover_copy_one mk ok (lnode s) \<Longrightarrow>
    lock_step env s (Mover, (if path_cache_map n = path_cache_map (lnode s) then {} else {(The_cache, True)}))
      (s\<lparr>lnode := n\<rparr>)"
| mv_again: "mover_at s = At_copy \<Longrightarrow> local_list (lnode s) = [] \<Longrightarrow>
    lock_step env s (Mover, {}) (s\<lparr>mover_at := At_lock\<rparr>)"

definition lock_run :: "rpc_env \<Rightarrow> locked_node \<Rightarrow> locked_node \<Rightarrow> bool" where
  "lock_run env s t \<longleftrightarrow> (\<exists>l. lock_step env s l t)"

definition lock_start :: "locked_node \<Rightarrow> bool" where
  "lock_start s \<longleftrightarrow> server_started (lnode s) \<and> mover (lnode s) = Mover_looping \<and> holder s = None \<and>
     close_at s = Cl_out \<and> mover_at s = At_lock \<and> drains s = []"

text \<open>
  A data race: both threads can take a step now, the steps access the same container, and one
  of them writes.
\<close>

definition races :: "rpc_env \<Rightarrow> locked_node \<Rightarrow> shared \<Rightarrow> bool" where
  "races env s x \<longleftrightarrow> (\<exists>A t B u v w. lock_step env s (Handler, A) t \<and> lock_step env s (Mover, B) u \<and>
     (x, v) \<in> A \<and> (x, w) \<in> B \<and> (v \<or> w))"

section \<open>The invariant\<close>

text \<open>The mover's point in \<open>Data_Mover\<close>, and who holds the mutex where.\<close>

definition mover_agrees :: "lock_pc \<Rightarrow> 'a data_mover_scheme \<Rightarrow> bool" where
  "mover_agrees pc n \<longleftrightarrow> (case pc of
       At_lock \<Rightarrow> mover n = Mover_looping | At_wait \<Rightarrow> mover n = Mover_looping
     | In_wait \<Rightarrow> mover n = Mover_waiting | At_relock \<Rightarrow> mover n = Mover_woken | At_drain \<Rightarrow> mover n = Mover_woken
     | At_unlock \<Rightarrow> mover n \<in> {Mover_looping, Mover_copying} | At_copy \<Rightarrow> mover n \<in> {Mover_looping, Mover_copying})"

definition lock_ok :: "locked_node \<Rightarrow> bool" where
  "lock_ok s \<longleftrightarrow> server_ok (lnode s) \<and> mover_agrees (mover_at s) (lnode s) \<and>
     (holder s = Some Handler \<longleftrightarrow> (\<exists>fd. close_at s \<in> {Cl_signal fd, Cl_push fd, Cl_unlock fd})) \<and>
     (holder s = Some Mover \<longleftrightarrow> mover_at s \<in> {At_wait, At_drain, At_unlock})"

lemma server_ok_same_disk:
  assumes "server_ok s" and "disk t = disk s" and "log_buffer t = log_buffer s" and "mover_ok t"
    and "path_cache_map t = path_cache_map s" and "names_from s t"
  shows "server_ok t"
proof -
  have "cache_coherent t = cache_coherent s" by (rule cache_coherent_cong) (simp_all add: assms(2,5))
  with assms descriptors_ok_same_files [of s t] show ?thesis by (simp add: server_ok_def)
qed

lemma names_from_index: "fd_to_path t = snd (map_index [] (fd_to_path s) fd) \<Longrightarrow> names_from s t"
  by (auto simp: names_from_def snd_map_index_eq split: if_splits)

lemma server_ok_parts:
  assumes "server_ok s"
  shows "server_ok (data_cond_signal s)" and "server_ok (close_push fd s)" and "server_ok (close_forget fd s)"
proof -
  show "server_ok (data_cond_signal s)"
    by (rule server_ok_same_disk [OF assms])
      (use assms in \<open>auto simp: data_cond_signal_def server_ok_def mover_ok_def names_from_def\<close>)
  show "server_ok (close_push fd s)"
    by (rule server_ok_same_disk [OF assms])
      (use assms in \<open>auto simp: close_push_def server_ok_def mover_ok_def case_prod_beta intro!: names_from_index\<close>)
  show "server_ok (close_forget fd s)"
    by (rule server_ok_same_disk [OF assms])
      (use assms in \<open>auto simp: close_forget_def server_ok_def mover_ok_def intro!: names_from_erase\<close>)
qed

lemma close_search_keeps:
  assumes "close_search env fd s = Inr (queue, t)" and "server_ok s"
  shows "server_ok t \<and> mover t = mover s \<and> local_list t = local_list s \<and> data_queue t = data_queue s"
proof -
  define s2 where "s2 = flush_if_full env (log_push ''close'' (elapsed env) (s\<lparr>disk := snd (posix_close (disk s) fd)\<rparr>))"
  have s2: "mover s2 = mover s" "local_list s2 = local_list s" "data_queue s2 = data_queue s"
    "fd_to_path s2 = fd_to_path s" "disk s2 = snd (posix_close (disk s) fd)" "path_cache_map s2 = path_cache_map s"
    "length (log_buffer s2) < 10"
    by (simp_all add: s2_def flush_if_full_def append_to_file_def log_push_def Let_def)
  have t: "t = s2\<lparr>fd_to_path := snd (map_index [] (fd_to_path s2) fd)\<rparr>"
    using assms(1) by (auto simp: close_search_def s2_def hvac_result Let_def split: prod.splits if_splits)
  have f: "same_files (disk s) (disk t)" using same_files_calls(3) [of "disk s" fd] by (simp add: t s2(5))
  have "descriptors_ok t"
    by (rule descriptors_ok_same_files [OF _ f names_from_index]) (use assms(2) s2 in \<open>simp_all add: server_ok_def t\<close>)
  moreover have "cache_coherent t = cache_coherent s"
    by (rule cache_coherent_cong) (use f in \<open>simp_all add: same_files_def t s2\<close>)
  moreover have "mover_ok t" using assms(2) by (simp add: server_ok_def mover_ok_def t s2)
  ultimately show ?thesis using assms(2) s2 by (simp add: server_ok_def t)
qed

lemma other_request_keeps:
  assumes "run_handler env req s = Inr (out, data, t)" and "\<forall>i. req \<noteq> Close_in i"
  shows "mover t = mover s \<and> local_list t = local_list s \<and> data_queue t = data_queue s"
proof (cases req)
  case (Read_in i)
  then obtain out' where "hvac_rpc_handler env i s = Inr (out', data, t)"
    using assms(1) by (auto simp: run_handler_def and_then_eq_Inr)
  then show ?thesis
    by (auto simp: hvac_rpc_handler_def server_file_call_def note_path_def hvac_result Let_def
        split: prod.splits if_splits)
qed (use assms in \<open>auto simp: run_handler_def hvac_open_rpc_handler_def hvac_seek_rpc_handler_def hvac_result
  Let_def case_prod_beta split: option.splits if_splits\<close>)

lemma mover_agrees_cong: "mover t = mover s \<Longrightarrow> mover_agrees pc t = mover_agrees pc s"
  by (simp add: mover_agrees_def cong: lock_pc.case_cong)

lemma lock_ok_step:
  assumes "lock_ok s" and "lock_step env s l t"
  shows "lock_ok t"
  using assms(2)
proof (cases rule: lock_step.cases)
  case (cl_other req out data n)
  with assms(1) other_request_keeps [OF cl_other(5)] server_ok_handler [OF _ cl_other(5)] show ?thesis
    by (simp add: lock_ok_def mover_agrees_cong [of n "lnode s"])
next
  case (cl_search fd queue n)
  with assms(1) close_search_keeps [OF cl_search(4)] show ?thesis
    by (simp add: lock_ok_def mover_agrees_cong [of n "lnode s"])
next
  case (cl_signal fd)
  then have "mover_agrees (mover_at t) (lnode t)"
    using assms(1) by (auto simp: lock_ok_def mover_agrees_def data_cond_signal_def split: lock_pc.splits)
  with cl_signal assms(1) show ?thesis by (cases "mover_at s") (auto simp: lock_ok_def server_ok_parts)
next
  case (cl_push fd)
  have "mover (close_push fd (lnode s)) = mover (lnode s)" by (simp add: close_push_def case_prod_beta)
  from mover_agrees_cong [OF this] cl_push assms(1) show ?thesis by (auto simp: lock_ok_def server_ok_parts)
next
  case (cl_forget fd)
  have "mover (close_forget fd (lnode s)) = mover (lnode s)" by (simp add: close_forget_def)
  from mover_agrees_cong [OF this] cl_forget assms(1) show ?thesis by (auto simp: lock_ok_def server_ok_parts)
next
  case mv_wait
  have "server_ok (mover_wait (lnode s))"
    using server_ok_mover [OF step_wait [of "lnode s"]] mv_wait assms(1) by (simp add: lock_ok_def mover_agrees_def)
  with mv_wait assms(1) show ?thesis by (auto simp: lock_ok_def mover_agrees_def mover_wait_def)
next
  case mv_spurious
  have "server_ok ((lnode s)\<lparr>mover := Mover_woken\<rparr>)"
    using server_ok_mover [OF step_spurious [of "lnode s"]] mv_spurious assms(1) by (simp add: lock_ok_def mover_agrees_def)
  with mv_spurious assms(1) show ?thesis by (auto simp: lock_ok_def mover_agrees_def)
next
  case mv_drain
  have "server_ok (mover_wake (lnode s))"
    using server_ok_mover [OF step_wake [of "lnode s"]] mv_drain assms(1) by (simp add: lock_ok_def mover_agrees_def)
  with mv_drain assms(1) show ?thesis by (auto simp: lock_ok_def mover_agrees_def mover_wake_def drain_append)
next
  case (mv_copy mk n ok)
  have m: "mover (lnode s) = Mover_copying" using mv_copy assms(1) by (simp add: lock_ok_def server_ok_def mover_ok_def)
  from server_ok_mover [OF step_copy [OF m mv_copy(5)]] have "server_ok n" using mv_copy(6) assms(1) by (simp add: lock_ok_def)
  moreover have "mover n \<in> {Mover_looping, Mover_copying}"
    using mv_copy(4,6) by (simp add: mover_copy_one_def Let_def split: list.split)
  ultimately show ?thesis using mv_copy assms(1) by (auto simp: lock_ok_def mover_agrees_def)
next
  case mv_again
  then have "mover (lnode s) \<noteq> Mover_copying" using assms(1) by (simp add: lock_ok_def server_ok_def mover_ok_def)
  with mv_again assms(1) show ?thesis by (auto simp: lock_ok_def mover_agrees_def)
qed (use assms(1) in \<open>auto simp: lock_ok_def mover_agrees_def\<close>)

interpretation locked: inductive_invariant lock_start "lock_run env" lock_ok for env
proof unfold_locales
  show "lock_ok s" if "lock_start s" for s
    using that server_started_ok by (auto simp: lock_start_def lock_ok_def mover_agrees_def)
qed (auto simp: lock_run_def intro: lock_ok_step)

section \<open>The queue\<close>

text \<open>Only the push and the drain access the queue, each with the mutex held.\<close>

lemma queue_access:
  assumes "lock_step env s (who, A) t" and "(The_queue, w) \<in> A" and "lock_ok s"
  shows "holder s = Some who"
  using assms(1)
  by (cases rule: lock_step.cases)
    (use assms(2,3) in \<open>auto simp: lock_ok_def request_accesses_def split: rpc_in.splits if_splits\<close>)

lemma queue_not_raced: "lock_ok s \<Longrightarrow> \<not> races env s The_queue"
  unfolding races_def using queue_access [of env s Handler] queue_access [of env s Mover] by auto

text \<open>
  The file \<open>p\<close> is on its way to drain number \<open>k\<close>, or in it: the close that brings it holds the
  mutex, or it is in the queue.
\<close>

definition promised :: "path \<Rightarrow> nat \<Rightarrow> locked_node \<Rightarrow> bool" where
  "promised p k s \<longleftrightarrow> (if length (drains s) = k
     then (\<exists>fd. close_at s \<in> {Cl_signal fd, Cl_push fd} \<and> fd_to_path (lnode s) fd = Some p) \<or>
       p \<in> set (data_queue (lnode s))
     else k < length (drains s) \<and> p \<in> set (drains s ! k))"

lemma promised_step:
  assumes "promised p k s" and "lock_ok s" and "lock_step env s l t"
  shows "promised p k t"
  using assms(3)
proof (cases rule: lock_step.cases)
  case (cl_other req out data n)
  with assms(1) other_request_keeps [OF cl_other(5)] show ?thesis by (auto simp: promised_def split: if_splits)
next
  case (cl_search fd queue n)
  with assms(1,2) close_search_keeps [OF cl_search(4)] show ?thesis
    by (auto simp: promised_def lock_ok_def split: if_splits)
next
  case mv_drain
  then have "holder s = Some Mover" using assms(2) by (simp add: lock_ok_def)
  then have "close_at s \<notin> {Cl_signal fd, Cl_push fd}" for fd using assms(2) by (auto simp: lock_ok_def)
  with mv_drain assms(1) show ?thesis by (auto simp: promised_def nth_append split: if_splits)
next
  case (mv_copy mk n ok)
  with assms(1) show ?thesis by (auto simp: promised_def split: if_splits)
qed (use assms(1) in \<open>auto simp: promised_def data_cond_signal_def close_push_def close_forget_def split: if_splits prod.splits\<close>)

lemma promised_run:
  assumes "(lock_run env)\<^sup>*\<^sup>* s t" and "promised p k s" and "lock_ok s"
  shows "promised p k t"
  using assms(1)
proof (induction rule: rtranclp_induct)
  case (step t u)
  have "lock_ok t" using locked.steps_inv [OF step(1) assms(3)] .
  with step show ?case by (auto simp: lock_run_def intro: promised_step)
qed (use assms(2) in simp)

section \<open>Nobody waits for the mutex for ever\<close>

lemma run_step: "lock_step env s l t \<Longrightarrow> (lock_run env)\<^sup>*\<^sup>* s t"
  unfolding lock_run_def by (rule r_into_rtranclp) blast

lemma mover_releases:
  assumes "lock_ok s" and "holder s = Some Mover"
  shows "\<exists>t. (lock_run env)\<^sup>*\<^sup>* s t \<and> holder t = None \<and> close_at t = close_at s"
proof -
  have unlock: "\<exists>t. (lock_run env)\<^sup>*\<^sup>* u t \<and> holder t = None \<and> close_at t = close_at u" if "mover_at u = At_unlock" for u
    by (rule exI, rule conjI [OF run_step [OF mv_unlock [OF that]]]) simp
  from assms consider "mover_at s = At_wait" | "mover_at s = At_drain" | "mover_at s = At_unlock"
    by (auto simp: lock_ok_def)
  then show ?thesis
  proof cases
    case 1
    show ?thesis by (rule exI, rule conjI [OF run_step [OF mv_wait [OF 1]]]) simp
  next
    case 2
    define u where "u = s\<lparr>lnode := mover_wake (lnode s), mover_at := At_unlock, drains := drains s @ [data_queue (lnode s)]\<rparr>"
    from unlock [of u] obtain t where "(lock_run env)\<^sup>*\<^sup>* u t" "holder t = None" "close_at t = close_at u"
      by (auto simp: u_def)
    with rtranclp_trans [OF run_step [OF mv_drain [OF 2]]] show ?thesis by (auto simp: u_def)
  next
    case 3
    then show ?thesis by (rule unlock)
  qed
qed

text \<open>The close of \<open>Server\<close> is the run of its parts with nothing in between.\<close>

lemma whole_close:
  assumes "close_at s = Cl_out" and "holder s = None"
    and "run_handler env (Close_in \<lparr>close_fd = fd\<rparr>) (lnode s) = Inr (out, data, n)"
  shows "\<exists>pc. (lock_run env)\<^sup>*\<^sup>* s (s\<lparr>lnode := n, mover_at := pc\<rparr>)"
proof -
  obtain queue s1 where search: "close_search env fd (lnode s) = Inr (queue, s1)"
    and n: "n = close_forget fd (if queue then close_push fd (data_cond_signal s1) else s1)"
    using assms(3) by (auto simp: run_handler_def close_in_parts and_then_eq_Inr)
  note first = run_step [OF cl_search [OF assms(1) search]]
  note last = run_step [OF cl_forget, where env = env]
  show ?thesis
  proof (cases queue)
    case False
    with rtranclp_trans [OF first last] n assms(1) show ?thesis by (intro exI [of _ "mover_at s"]) (cases s, simp)
  next
    case True
    define pc where "pc = (if mover_at s = In_wait then At_relock else mover_at s)"
    let ?s = "\<lambda>m h c pc. \<lparr>lnode = m, holder = h, close_at = c, mover_at = pc, drains = drains s\<rparr>"
    have steps: "(lock_run env)\<^sup>*\<^sup>* (?s s1 None (Cl_lock fd) (mover_at s)) (?s s1 (Some Handler) (Cl_signal fd) (mover_at s))"
      "(lock_run env)\<^sup>*\<^sup>* (?s s1 (Some Handler) (Cl_signal fd) (mover_at s))
        (?s (data_cond_signal s1) (Some Handler) (Cl_push fd) pc)"
      "(lock_run env)\<^sup>*\<^sup>* (?s (data_cond_signal s1) (Some Handler) (Cl_push fd) pc)
        (?s (close_push fd (data_cond_signal s1)) (Some Handler) (Cl_unlock fd) pc)"
      "(lock_run env)\<^sup>*\<^sup>* (?s (close_push fd (data_cond_signal s1)) (Some Handler) (Cl_unlock fd) pc)
        (?s (close_push fd (data_cond_signal s1)) None (Cl_forget fd) pc)"
      "(lock_run env)\<^sup>*\<^sup>* (?s (close_push fd (data_cond_signal s1)) None (Cl_forget fd) pc) (?s n None Cl_out pc)"
      using run_step [OF cl_lock, of "?s s1 None (Cl_lock fd) (mover_at s)" fd env]
        run_step [OF cl_signal, of "?s s1 (Some Handler) (Cl_signal fd) (mover_at s)" fd env]
        run_step [OF cl_push, of "?s (data_cond_signal s1) (Some Handler) (Cl_push fd) pc" fd env]
        run_step [OF cl_unlock, of "?s (close_push fd (data_cond_signal s1)) (Some Handler) (Cl_unlock fd) pc" fd env]
        run_step [OF cl_forget, of "?s (close_push fd (data_cond_signal s1)) None (Cl_forget fd) pc" fd env]
      by (cases "mover_at s = In_wait"; simp add: n True pc_def)+
    have "(lock_run env)\<^sup>*\<^sup>* s (?s s1 None (Cl_lock fd) (mover_at s))" using first True assms(2) by (cases s) simp
    with steps have "(lock_run env)\<^sup>*\<^sup>* s (?s n None Cl_out pc)" by (meson rtranclp_trans)
    with assms(1,2) show ?thesis by (intro exI [of _ pc]) (cases s, simp)
  qed
qed

text \<open>The steps of the mover's thread are those of \<open>Data_Mover\<close>, or leave the node as it is.\<close>

lemma mover_thread_steps:
  assumes "lock_step env s (Mover, A) t" and "lock_ok s"
  shows "lnode t = lnode s \<or> mover_step (lnode s) (lnode t)"
  using assms(1)
proof (cases rule: lock_step.cases)
  case mv_wait
  with assms(2) step_wait [of "lnode s"] show ?thesis by (simp add: lock_ok_def mover_agrees_def)
next
  case mv_spurious
  with assms(2) step_spurious [of "lnode s"] show ?thesis by (simp add: lock_ok_def mover_agrees_def)
next
  case mv_drain
  with assms(2) step_wake [of "lnode s"] show ?thesis by (simp add: lock_ok_def mover_agrees_def)
next
  case (mv_copy mk n ok)
  with assms(2) step_copy [of "lnode s" mk ok] show ?thesis by (simp add: lock_ok_def server_ok_def mover_ok_def)
qed simp_all

text \<open>A close that is under way can go on to its end, whatever the mover has in hand.\<close>

lemma close_returns:
  assumes "lock_ok s"
  shows "\<exists>t. (lock_run env)\<^sup>*\<^sup>* s t \<and> close_at t = Cl_out"
proof -
  let ?R = "(lock_run env)\<^sup>*\<^sup>*"
  have forget: "\<exists>t. ?R u t \<and> close_at t = Cl_out" if "close_at u = Cl_forget fd" for u fd
    by (rule exI, rule conjI [OF run_step [OF cl_forget [OF that]]]) simp
  have go: "\<exists>t. ?R u t \<and> close_at t = Cl_out" if "lock_step env u l v" "\<exists>t. ?R v t \<and> close_at t = Cl_out" for u l v
    using that rtranclp_trans [OF run_step] by blast
  have unlock: "\<exists>t. ?R u t \<and> close_at t = Cl_out" if "close_at u = Cl_unlock fd" for u fd
    by (rule go [OF cl_unlock [OF that]], rule forget) simp
  have push: "\<exists>t. ?R u t \<and> close_at t = Cl_out" if "close_at u = Cl_push fd" for u fd
    by (rule go [OF cl_push [OF that]], rule unlock) simp
  have signal: "\<exists>t. ?R u t \<and> close_at t = Cl_out" if "close_at u = Cl_signal fd" for u fd
    by (rule go [OF cl_signal [OF that]], rule push) simp
  have free: "\<exists>t. ?R u t \<and> close_at t = Cl_out" if "close_at u = Cl_lock fd" "holder u = None" for u fd
    by (rule go [OF cl_lock [OF that]], rule signal) simp
  have lock: "\<exists>t. ?R s t \<and> close_at t = Cl_out" if c: "close_at s = Cl_lock fd" for fd
  proof (cases "holder s")
    case None
    with free c show ?thesis by blast
  next
    case (Some who)
    then have "holder s = Some Mover" using assms c by (cases who) (auto simp: lock_ok_def)
    from mover_releases [OF assms this] obtain u where "?R s u" "holder u = None" "close_at u = Cl_lock fd"
      using c by auto
    with free [of u fd] show ?thesis by (meson rtranclp_trans)
  qed
  show ?thesis using forget unlock push signal lock by (cases "close_at s") blast+
qed

lemma handler_releases:
  assumes "lock_ok s" and "holder s = Some Handler" and "mover_at s \<noteq> In_wait"
  shows "\<exists>t. (lock_run env)\<^sup>*\<^sup>* s t \<and> holder t = None \<and> mover_at t = mover_at s \<and> drains t = drains s"
proof -
  let ?R = "(lock_run env)\<^sup>*\<^sup>*"
  let ?P = "\<lambda>u. \<exists>t. ?R u t \<and> holder t = None \<and> mover_at t = mover_at u \<and> drains t = drains u"
  have unlock: "?P u" if "close_at u = Cl_unlock fd" for u fd
    by (rule exI, rule conjI [OF run_step [OF cl_unlock [OF that]]]) simp
  have push: "?P u" if "close_at u = Cl_push fd" for u fd
    using unlock [of "u\<lparr>lnode := close_push fd (lnode u), close_at := Cl_unlock fd\<rparr>" fd]
      rtranclp_trans [OF run_step [OF cl_push [OF that]]] by auto
  have signal: "?P s" if "close_at s = Cl_signal fd" for fd
    using push [of "s\<lparr>lnode := data_cond_signal (lnode s), close_at := Cl_push fd\<rparr>" fd]
      rtranclp_trans [OF run_step [OF cl_signal [OF that]]] assms(3) by auto
  obtain fd where "close_at s \<in> {Cl_signal fd, Cl_push fd, Cl_unlock fd}" using assms(1,2) by (auto simp: lock_ok_def)
  then show ?thesis using unlock push signal by blast
qed

text \<open>A mover that has been woken, or is about to be, can go on to its drain.\<close>

definition called :: "nat \<Rightarrow> locked_node \<Rightarrow> bool" where
  "called k s \<longleftrightarrow> k < length (drains s) \<or> length (drains s) = k \<and> (mover_at s \<in> {At_relock, At_drain} \<or>
     mover_at s = In_wait \<and> (\<exists>fd. close_at s = Cl_signal fd))"

lemma woken_drains:
  assumes "lock_ok s" and "mover_at s \<in> {At_relock, At_drain}"
  shows "\<exists>t. (lock_run env)\<^sup>*\<^sup>* s t \<and> length (drains s) < length (drains t)"
proof -
  let ?R = "(lock_run env)\<^sup>*\<^sup>*"
  let ?P = "\<lambda>u. \<exists>t. ?R u t \<and> length (drains u) < length (drains t)"
  have drain: "?P u" if "mover_at u = At_drain" for u
    by (rule exI, rule conjI [OF run_step [OF mv_drain [OF that]]]) simp
  have free: "?P u" if "mover_at u = At_relock" "holder u = None" for u
    using drain [of "u\<lparr>holder := Some Mover, mover_at := At_drain\<rparr>"] rtranclp_trans [OF run_step [OF mv_relock [OF that]]]
    by auto
  show ?thesis
  proof (cases "mover_at s = At_drain \<or> holder s = None")
    case True
    with assms(2) drain free show ?thesis by blast
  next
    case False
    then have "holder s = Some Handler" using assms by (cases "holder s") (auto simp: lock_ok_def intro: daemon_thread.exhaust)
    from handler_releases [OF assms(1) this] assms(2) False obtain t
      where "?R s t" "holder t = None" "mover_at t = At_relock" "drains t = drains s" by auto
    with free [of t] show ?thesis by (metis rtranclp_trans)
  qed
qed

lemma called_drains:
  assumes "called k s" and "lock_ok s"
  shows "\<exists>t. (lock_run env)\<^sup>*\<^sup>* s t \<and> k < length (drains t)"
proof (cases "k < length (drains s)")
  case True
  then show ?thesis by blast
next
  case False
  then have k: "length (drains s) = k" using assms(1) by (simp add: called_def)
  show ?thesis
  proof (cases "mover_at s = In_wait")
    case True
    then obtain fd where c: "close_at s = Cl_signal fd" using assms(1) False by (auto simp: called_def)
    define u where "u = s\<lparr>lnode := data_cond_signal (lnode s), close_at := Cl_push fd, mover_at := At_relock\<rparr>"
    have u: "lock_step env s (Handler, {}) u" using cl_signal [OF c, of env] True by (simp add: u_def)
    from woken_drains [OF lock_ok_step [OF assms(2) u]] obtain t where "(lock_run env)\<^sup>*\<^sup>* u t" "k < length (drains t)"
      using k by (auto simp: u_def)
    with rtranclp_trans [OF run_step [OF u]] show ?thesis by blast
  qed (use woken_drains [OF assms(2)] assms(1) False k in \<open>auto simp: called_def\<close>)
qed

lemma called_step:
  assumes "called k s" and "lock_ok s" and "lock_step env s l t"
  shows "called k t"
  using assms(3)
proof (cases rule: lock_step.cases)
  case cl_lock
  with assms show ?thesis by (auto simp: called_def)
qed (use assms(1,2) in \<open>auto simp: called_def lock_ok_def\<close>)

lemma called_run:
  assumes "(lock_run env)\<^sup>*\<^sup>* s t" and "called k s" and "lock_ok s"
  shows "called k t"
  using assms(1)
proof (induction rule: rtranclp_induct)
  case (step t u)
  have "lock_ok t" using locked.steps_inv [OF step(1) assms(3)] .
  with step show ?case by (auto simp: lock_run_def intro: called_step)
qed (use assms(2) in simp)

section \<open>The cache\<close>

text \<open>
  Between requests any open can come, and its handler searches the table with no lock; the
  mover records a copy with no lock.
\<close>

lemma cache_raced:
  assumes "close_at s = Cl_out" and "get_input_ok env" and "mover_at s = At_copy" and "local_list (lnode s) \<noteq> []"
    and "fresh_for (disk (lnode s)) mk (hd (local_list (lnode s)))"
    and "path_cache_map (mover_copy_one mk ok (lnode s)) \<noteq> path_cache_map (lnode s)"
  shows "races env s The_cache"
proof -
  have "\<exists>out n. run_handler env (Open_in \<lparr>in_path = p\<rparr>) (lnode s) = Inr (out, [], n)" for p
    using assms(2) by (simp add: run_handler_def hvac_open_rpc_handler_def assert_that_def Let_def case_prod_beta)
  then obtain out n where "run_handler env (Open_in \<lparr>in_path = []\<rparr>) (lnode s) = Inr (out, [], n)" by blast
  from cl_other [OF assms(1) _ this] have "lock_step env s (Handler, {(The_cache, False)}) (s\<lparr>lnode := n\<rparr>)"
    by (simp add: request_accesses_def)
  moreover have "lock_step env s (Mover, {(The_cache, True)}) (s\<lparr>lnode := mover_copy_one mk ok (lnode s)\<rparr>)"
    using mv_copy [OF assms(3-5) refl, of env ok] assms(6) by simp
  ultimately show ?thesis unfolding races_def by blast
qed

end
