(* ===== verification/Fixture.thy ===== *)
theory Fixture
  imports Threads Job_Reads Bring_Up Server_Old Rpc_Wait Mover_Refines Races Test_Program Queue_Lock
begin

text \<open>
  A small deployment on which the properties are instantiated: one server on a node with one
  data file, and a client process that has started Mercury and opens it as descriptor 5. The
  client's operating system has no state of its own, except in the test program's fixture.
\<close>

section \<open>The node\<close>

definition ex_path :: path where "ex_path = ''/d/f''"

definition ex_bytes :: "byte list" where "ex_bytes = [10, 20, 30]"

definition ex_disk :: posix where
  "ex_disk = \<lparr>nodes = [ex_path \<mapsto> Reg ex_bytes], resolve = (\<lambda>p. p), openable = (\<lambda>_. True),
     fdtab = (\<lambda>_. None), fd_limit = 8\<rparr>"

definition ex_register :: "string \<Rightarrow> i64" where
  "ex_register name = (if name = ''hvac_base_rpc'' then 1 else if name = ''hvac_open_rpc'' then 2
     else if name = ''hvac_close_rpc'' then 3 else 4)"

definition ex_hg :: hg_env where
  "ex_hg = \<lparr>hg_init = (\<lambda>_. True), hg_context_create = True, hg_thread_create = True,
     hg_context_destroy = True, hg_finalize = True, hg_register = ex_register,
     hg_disable_response = True, hg_self_addr = ''s''\<rparr>"

definition ex_getenv :: "string \<Rightarrow> string option" where
  "ex_getenv = [''SLURM_JOBID'' \<mapsto> ''7'', ''PMI_RANK'' \<mapsto> ''0'', ''BBPATH'' \<mapsto> ''/bb'',
     ''HVAC_SERVER_COUNT'' \<mapsto> ''1'', ''HVAC_DATA_DIR'' \<mapsto> ''/d'']"

definition ex_server :: server where
  "ex_server = (server_boot ex_disk)\<lparr>
     registry := [1 \<mapsto> K_read, 2 \<mapsto> K_open, 3 \<mapsto> K_close, 4 \<mapsto> K_seek], mover := Mover_waiting\<rparr>"

section \<open>The client\<close>

text \<open>Mercury is up, with its progress thread.\<close>

definition ex_comm :: comm where
  "ex_comm = comm_start\<lparr>hg_class := True, hg_context := True, progress_threads := 1\<rparr>"

lemma ex_comm_simps [simp]: "hg_context ex_comm" "\<not> shutdown_flags ex_comm"
  by (simp_all add: ex_comm_def comm_start_def)

definition ex_cenv :: "(unit, string, cluster) cenv" where
  "ex_cenv = \<lparr>dlsym = (\<lambda>_. True), real_open = (\<lambda>_ _ _ w. (5, w)),
     real_open64 = (\<lambda>_ _ _ w. (6, w)), real_fopen = (\<lambda>_ _ w. (Some 5, w)),
     real_fopen64 = (\<lambda>_ _ w. (Some 5, w)), real_close = (\<lambda>_ w. (0, w)),
     real_read = (\<lambda>_ buf _ w. (0, buf, w)), real_read64 = (\<lambda>_ buf _ w. (0, buf, w)),
     real_pread = (\<lambda>_ buf _ _ w. (0, buf, w)), real_readv = (\<lambda>_ iov w. (0, iov, w)),
     real_write = (\<lambda>_ _ n w. (n, w)), real_lseek = (\<lambda>_ off _ w. (off, w)),
     real_lseek64 = (\<lambda>_ off _ w. (off, w)),
     getenv = ex_getenv, strhash = (\<lambda>_. 0), getpid = 77, log4c_rc = 0, log4c_notice = 500,
     hgenv = ex_hg, canonical = (\<lambda>_ p. Some p), current_path = (\<lambda>_. Some ''/''), read_config = (\<lambda>_ _. Some (ports_file [(0, ''s'')])),
     hg_lookup = Some, hg_create_ok = True, hg_bulk_ok = (\<lambda>_. True), hg_free_ok = True,
     hg_forward = cluster_forward (fault_free 1 True)\<rparr>"

definition ex_client :: "(unit, cluster) proc" where
  "ex_client = \<lparr>hg_class = True, hg_context = True, shutdown_flags = False, hvac_server_rank = -1,
     server_rank = 0, progress_threads = 1, registry = (\<lambda>_. None), no_response = [3],
     tl_disable_redirect = False, g_disable_redirect = False, g_hvac_initialized = True,
     g_mercury_init = True, g_hvac_server_count = 1, hvac_data_dir = Some ''/d'',
     fd_map = (\<lambda>_. None), fd_redir_map = (\<lambda>_. None), rpc_done = 0, read_ret = -1,
     address_cache = (\<lambda>_. None), hvac_client_rpc_id = 1, hvac_client_open_id = 2,
     hvac_client_close_id = 3, hvac_client_seek_id = 4, os = (), net = [''s'' \<mapsto> ex_server],
     pending = []\<rparr>"

abbreviation ex_env :: "(unit, string, cluster) cenv" where
  "ex_env \<equiv> deployed ex_cenv 1 True"

section \<open>Facts about it\<close>

lemma ex_deployed [simp]: "ex_env = ex_cenv"
  by (simp add: deployed_def ex_cenv_def)

lemma ex_disk_simps [simp]:
  "nodes ex_disk = [ex_path \<mapsto> Reg ex_bytes]" "resolve ex_disk = (\<lambda>p. p)"
  "openable ex_disk = (\<lambda>_. True)" "fdtab ex_disk = (\<lambda>_. None)" "fd_limit ex_disk = 8"
  by (simp_all add: ex_disk_def)

lemma ex_path_not_Nil [simp]: "ex_path \<noteq> []"
  by (simp add: ex_path_def)

lemma ex_bytes_at [simp]: "bytes_at ex_disk ex_path = Some ex_bytes"
  by (simp add: bytes_at_def canonical_in_def file_bytes_def)

lemma ex_alloc [simp]: "alloc_fd ex_disk = Some 0"
  by (simp add: alloc_fd_def upt_rec)

lemma ex_posix_open: "posix_open ex_disk ex_path
    = (0, ex_disk\<lparr>fdtab := [0 \<mapsto> \<lparr>of_path = ex_path, of_pos = 0\<rparr>]\<rparr>)"
  by (simp add: posix_open_def canonical_in_def)

lemma ex_fds_ok [simp]: "fds_ok ex_disk"
  by (simp add: fds_ok_def)

lemma ex_server_simps [simp]:
  "disk ex_server = ex_disk" "registry ex_server = [1 \<mapsto> K_read, 2 \<mapsto> K_open, 3 \<mapsto> K_close, 4 \<mapsto> K_seek]"
  "path_cache_map ex_server = (\<lambda>_. None)" "fd_to_path ex_server = (\<lambda>_. None)"
  "mover ex_server = Mover_waiting" "data_queue ex_server = []" "local_list ex_server = []"
  "log_buffer ex_server = []" "redirected ex_server ex_path = ex_path"
  by (simp_all add: ex_server_def server_boot_def redirected_def)

lemma ex_server_started [simp]: "server_started ex_server"
  by (simp add: server_started_def)

lemma ex_server_ok [simp]: "server_ok ex_server"
  by (rule server_started_ok) simp

lemma ex_cenv_simps [simp]:
  "getenv ex_cenv = ex_getenv" "hg_lookup ex_cenv = Some" "real_open ex_cenv = (\<lambda>_ _ _ w. (5, w))"
  "real_close ex_cenv = (\<lambda>_ w. (0, w))" "canonical ex_cenv = (\<lambda>_ p. Some p)"
  "dlsym ex_cenv = (\<lambda>_. True)" "strhash ex_cenv = (\<lambda>_. 0)" "mercury_ok ex_cenv"
  "read_config ex_cenv = (\<lambda>_ _. Some (ports_file [(0, ''s'')]))" "hgenv ex_cenv = ex_hg"
  "current_path ex_cenv = (\<lambda>_. Some ''/'')" "log4c_rc ex_cenv = 0" "getpid ex_cenv = 77"
  "real_fopen ex_cenv = (\<lambda>_ _ w. (Some 5, w))"
  by (simp_all add: ex_cenv_def mercury_ok_def)

lemma ex_client_simps [simp]:
  "tl_disable_redirect ex_client = False" "g_disable_redirect ex_client = False"
  "g_mercury_init ex_client" "g_hvac_server_count ex_client = 1" "hvac_data_dir ex_client = Some ''/d''"
  "fd_map ex_client = (\<lambda>_. None)" "fd_redir_map ex_client = (\<lambda>_. None)"
  "address_cache ex_client = (\<lambda>_. None)" "hvac_client_rpc_id ex_client = 1"
  "hvac_client_open_id ex_client = 2" "hvac_client_close_id ex_client = 3"
  "hvac_client_seek_id ex_client = 4" "net ex_client = [''s'' \<mapsto> ex_server]" "pending ex_client = []" "progress_runs ex_client"
  by (simp_all add: ex_client_def progress_runs_def)

lemma ex_job_fits [simp]: "ports_name_fits ''7''"
  by (simp add: ports_name_fits_def ports_cfg_name_def PATH_MAX_def)

lemma ex_address_fits [simp]: "Suc 0 < PATH_MAX"
  by (simp add: PATH_MAX_def)

lemma ex_lookup: "hvac_client_comm_lookup_addr ex_cenv 0 ex_client
    = Inr (''s'', (l4c ex_client)\<lparr>address_cache := [0 \<mapsto> ''s'']\<rparr>)"
  using lookup_addr_published [of ex_cenv "''7''" ex_client 0 "[(0, ''s'')]" "''s''" "''s''"]
  by (simp add: ex_getenv_def address_ok_def is_space_def)

lemma ex_host [simp]: "host_index ex_cenv ex_client c = 0"
  by (simp add: host_index_def to_int_def)

lemma ex_os [simp]: "p\<lparr>os := w\<rparr> = p" for p :: "(unit, cluster) proc"
  by (cases p) simp

lemma ex_contains [simp]:
  "str_contains ''/d'' ''/d''" "\<not> str_contains ex_path ''.ports.cfg.''"
  unfolding ex_path_def by code_simp+

lemma ex_parent [simp]: "parent_path ex_path = ''/d''"
  unfolding ex_path_def by code_simp

lemma ex_in_data_dir: "in_data_dir ex_cenv () (Some ''/d'') ex_path ex_path"
  by (simp add: in_data_dir_def)

lemma ex_open_ready [simp]: "open_ready ex_cenv ex_client () ex_path ex_path ''s'' ex_server"
  using ex_in_data_dir
  by (simp add: open_ready_def redirect_off_def server_of_def ex_lookup)

section \<open>The server, holding the file\<close>

definition ex_held :: server where
  "ex_held = ex_server\<lparr>disk := ex_disk\<lparr>fdtab := [0 \<mapsto> \<lparr>of_path = ex_path, of_pos = 0\<rparr>]\<rparr>,
     fd_to_path := [0 \<mapsto> ex_path]\<rparr>"

lemma ex_held_simps [simp]:
  "fdtab (disk ex_held) = [0 \<mapsto> \<lparr>of_path = ex_path, of_pos = 0\<rparr>]" "fd_to_path ex_held = [0 \<mapsto> ex_path]"
  "nodes (disk ex_held) = [ex_path \<mapsto> Reg ex_bytes]" "resolve (disk ex_held) = (\<lambda>p. p)"
  "openable (disk ex_held) = (\<lambda>_. True)" "path_cache_map ex_held = (\<lambda>_. None)"
  "mover ex_held = Mover_waiting" "data_queue ex_held = []" "local_list ex_held = []"
  "bytes_at (disk ex_held) ex_path = Some ex_bytes" "log_buffer ex_held = []"
  "registry ex_held = registry ex_server"
  by (simp_all add: ex_held_def bytes_at_def canonical_in_def file_bytes_def)

lemma ex_held_ok [simp]: "server_ok ex_held"
  by (simp add: server_ok_def mover_ok_def cache_coherent_def descriptors_ok_def descriptor_ok_def
      fds_ok_def) (simp add: ex_held_def)

text \<open>The server after it has opened the file once, and twice.\<close>

definition ex_served :: server where
  "ex_served = ex_held\<lparr>log_buffer := [\<lparr>operation = ''open'', time_ns = 1\<rparr>]\<rparr>"

lemma ex_run_open: "run_handler (fault_free 1 True) (Open_in \<lparr>in_path = ex_path\<rparr>) ex_server
    = Inr (Some 0, [], ex_served)"
  by (simp add: run_handler_def hvac_open_rpc_handler_def ex_posix_open log_push_def flush_if_full_def
      ex_served_def ex_held_def)

lemma ex_served_simps [simp]:
  "disk ex_served = disk ex_held" "registry ex_served = registry ex_server"
  "path_cache_map ex_served = (\<lambda>_. None)" "fd_to_path ex_served = [0 \<mapsto> ex_path]"
  by (simp_all add: ex_served_def)

lemma ex_run_open_again: "\<exists>s. run_handler (fault_free 1 True) (Open_in \<lparr>in_path = ex_path\<rparr>) ex_served
    = Inr (Some 1, [], s)"
proof -
  have "alloc_fd (disk ex_held) = Some 1"
    by (simp add: alloc_fd_def upt_rec ex_held_def)
  then have "\<exists>ps. posix_open (disk ex_held) ex_path = (1, ps)"
    by (simp add: posix_open_def canonical_in_def)
  then show ?thesis
    by (auto simp: run_handler_def hvac_open_rpc_handler_def Let_def)
qed

section \<open>The file, opened\<close>

definition ex_opened :: "(unit, cluster) proc" where
  "ex_opened = (case wrap_open ex_env ex_path O_RDONLY 0 ex_client of Inr (_, p) \<Rightarrow> p | Inl _ \<Rightarrow> ex_client)"

lemma ex_opened_facts: "wrap_open ex_cenv ex_path O_RDONLY 0 ex_client = Inr (5, ex_opened) \<and>
    tracked_view ex_cenv ex_opened 5 = Some (ex_bytes, 0) \<and> fd_map ex_opened = [5 \<mapsto> ex_path] \<and>
    remote_end ex_cenv ex_opened 5 = Some (''s'', 0) \<and> same_ids ex_client ex_opened \<and>
    net ex_opened = [''s'' \<mapsto> ex_served]"
proof -
  obtain p' where p': "hvac_track_file ex_cenv ex_path O_RDONLY 5 ex_client = Inr (True, p')"
    "same_ids ex_client p'" "fd_map p' = [5 \<mapsto> ex_path]" "remote_end ex_cenv p' 5 = Some (''s'', 0)"
    "net p' = [''s'' \<mapsto> ex_served]"
    using track_file_reply [of ex_cenv 1 True ex_client "()" ex_path ex_path "''s''" ex_server O_RDONLY 0
        ex_served 5] ex_run_open by auto
  have open5: "wrap_open ex_cenv ex_path O_RDONLY 0 ex_client = Inr (5, l4c p')"
    by (rule wrap_opens_track(1) [where w = "()"]) (use p'(1) in \<open>simp_all add: redirect_off_def\<close>)
  then have eq: "ex_opened = l4c p'" by (simp add: ex_opened_def)
  have "tracked_view ex_cenv (l4c p') 5 = Some (ex_bytes, 0)"
    using p' by (simp add: remote_view_def redirect_off_def cluster_view_def cluster_serves_def
      same_ids_def fd_view_def file_bytes_def)
  with open5 p' show ?thesis unfolding eq by simp
qed

lemma ex_start [simp]: "sys_start ex_client"
  by (simp add: sys_start_def servers_ok_def)

lemma ex_opened_reach: "reach sys_start (sys_step ex_cenv 1 True) ex_opened"
proof -
  have "sys_step ex_cenv 1 True ex_client ex_opened"
    by (intro sys_call call_open) (use ex_opened_facts in auto)
  then show ?thesis using reach_start [of sys_start ex_client] by (meson ex_start reach_step)
qed

text \<open>The same file, opened a second time as descriptor 6.\<close>

lemma ex_opened_ready: "open_ready ex_cenv ex_opened () ex_path ex_path ''s'' ex_served"
proof -
  note f = ex_opened_facts
  from remote_end_SomeD [of ex_cenv ex_opened 5 "''s''" 0] f obtain str where
    "pending ex_opened = []" "address_cache ex_opened (host_index ex_cenv ex_opened ex_path) = Some str"
    "str = ''s''" by auto
  moreover have "\<not> redirect_off ex_opened" using f remote_view_SomeD by blast
  ultimately show ?thesis using f ex_in_data_dir
    by (simp add: open_ready_def server_of_def same_ids_def hvac_client_comm_lookup_addr_def)
qed

lemma ex_opened_twice: "\<exists>p. reach sys_start (sys_step ex_cenv 1 True) p \<and>
    remote_end ex_cenv p 5 = Some (''s'', 0) \<and> remote_end ex_cenv p 6 = Some (''s'', 1) \<and> net p ''s'' \<noteq> None"
proof -
  obtain s where s: "run_handler (fault_free 1 True) (Open_in \<lparr>in_path = ex_path\<rparr>) ex_served
      = Inr (Some 1, [], s)" using ex_run_open_again by blast
  obtain p where p: "hvac_track_file ex_cenv ex_path O_RDONLY 6 ex_opened = Inr (True, p)"
    "remote_end ex_cenv p 6 = Some (''s'', 1)" "net p = (net ex_opened)(''s'' \<mapsto> s)"
    using track_file_reply [of ex_cenv 1 True ex_opened "()" ex_path ex_path "''s''" ex_served O_RDONLY 1
        s 6] ex_opened_ready s by auto
  let ?p1 = "(l4c ex_opened)\<lparr>fd_map := (fd_map ex_opened)(6 \<mapsto> ex_path)\<rparr>"
  have "track_decision ex_cenv ex_path 6 ex_opened = (True, ?p1)"
    using track_decision_yes [of ex_cenv ex_opened ex_path ex_path 6] ex_opened_ready
    by (simp add: open_ready_def)
  with p(1) have "remote_open ex_cenv 6 ?p1 = Inr p"
    by (auto simp: hvac_track_file_def and_then_eq_Inr split: if_splits)
  then have "remote_end ex_cenv p 5 = Some (''s'', 0)"
    using remote_open_effect [of ex_opened ?p1 6 ex_path ex_cenv 1 True p] ex_opened_ready ex_opened_facts
    by (auto simp: open_ready_def)
  moreover have "wrap_open64 ex_cenv ex_path O_RDONLY 0 ex_opened = Inr (6, l4c p)"
    by (rule wrap_opens_track(2) [where w = "()"])
      (use p(1) ex_opened_ready in \<open>simp_all add: open_ready_def ex_cenv_def\<close>)
  then have "sys_step ex_cenv 1 True ex_opened (l4c p)" by (intro sys_call call_open64) simp
  then have "reach sys_start (sys_step ex_cenv 1 True) (l4c p)"
    using ex_opened_reach by (meson reach_step)
  ultimately show ?thesis using p by (intro exI [of _ "l4c p"]) simp
qed

section \<open>A job of several clients\<close>

text \<open>All clients have the same environment; client 0 has opened the file, the others are fresh.\<close>

definition ex_job :: "unit job" where
  "ex_job = \<lparr>world = [''s'' \<mapsto> ex_served], procs = (\<lambda>_. ex_client)(0 := ex_opened)\<rparr>"

lemma ex_job_start: "job_start [''s'' \<mapsto> ex_server] \<lparr>world = [''s'' \<mapsto> ex_server], procs = (\<lambda>_. ex_client)\<rparr>"
  by (simp add: job_start_def servers_ok_def fresh_proc_def)

lemma ex_client_net [simp]: "ex_client\<lparr>net := [''s'' \<mapsto> ex_server]\<rparr> = ex_client"
  by (simp add: ex_client_def)

lemma ex_job_reach: "job_reach (\<lambda>_. ex_cenv) 1 True [''s'' \<mapsto> ex_server] ex_job"
proof -
  let ?J = "\<lparr>world = [''s'' \<mapsto> ex_server], procs = (\<lambda>_. ex_client)\<rparr> :: unit job"
  have "client_call ex_cenv (client_of ?J 0) ex_opened"
    using ex_opened_facts by (auto simp: client_of_def intro: call_open)
  then have step: "job_step (\<lambda>_. ex_cenv) 1 True (Call 0) ?J
      (?J\<lparr>world := net ex_opened, procs := (procs ?J)(0 := ex_opened)\<rparr>)"
    by (intro job_call) simp
  have "?J\<lparr>world := net ex_opened, procs := (procs ?J)(0 := ex_opened)\<rparr> = ex_job"
    using ex_opened_facts by (simp add: ex_job_def)
  with step have "\<exists>act. job_step (\<lambda>_. ex_cenv) 1 True act ?J ex_job" by auto
  moreover have "job_reach (\<lambda>_. ex_cenv) 1 True [''s'' \<mapsto> ex_server] ?J"
    by (rule reach_start) (rule ex_job_start)
  ultimately show ?thesis by (rule reach_step [rotated])
qed

lemma ex_job_client: "client_of ex_job 0 = ex_opened"
proof -
  have "ex_opened\<lparr>net := net ex_opened\<rparr> = ex_opened" by simp
  with ex_opened_facts show ?thesis by (simp add: client_of_def ex_job_def)
qed

lemma ex_job_view: "tracked_view ex_env (client_of ex_job 0) 5 = Some (ex_bytes, 0)"
  using ex_opened_facts by (simp add: ex_job_client)

lemma ex_job_reads: "\<exists>J. job_step (\<lambda>_. ex_cenv) 1 True (Call 0) ex_job J"
proof -
  obtain p where "hvac_read ex_env 5 (client_of ex_job 0) 1 = Some (take 1 (drop 0 ex_bytes), p)"
    using hvac_file.rd_law [OF ex_job_view, of 1] by (auto simp: max_rw_def)
  then have "job_step (\<lambda>_. ex_cenv) 1 True (Call 0) ex_job (ex_job\<lparr>world := net p, procs := (procs ex_job)(0 := p)\<rparr>)"
    by (rule hvac_read_step [where es = "\<lambda>_. ex_cenv"])
  then show ?thesis by blast
qed

lemma ex_job_run: "\<exists>d1 d2 J. read_run (\<lambda>_. ex_cenv) 1 True 0 5 ex_job [(1, d1), (2, d2)] J"
proof -
  obtain d1 p1 where p1: "hvac_read ex_env 5 (client_of ex_job 0) 1 = Some (d1, p1)"
    "tracked_view ex_env p1 5 = Some (ex_bytes, 0 + length d1)"
    using hvac_file.rd_law [OF ex_job_view, of 1] by (auto simp: max_rw_def)
  let ?J = "ex_job\<lparr>world := net p1, procs := (procs ex_job)(0 := p1)\<rparr>"
  obtain d2 p2 where p2: "hvac_read ex_env 5 (client_of ?J 0) 2 = Some (d2, p2)"
    using hvac_file.rd_law [OF p1(2), of 2] by (auto simp: max_rw_def client_of_updates)
  have "read_run (\<lambda>_. ex_cenv) 1 True 0 5 ex_job [(1, d1), (2, d2)]
      (?J\<lparr>world := net p2, procs := (procs ?J)(0 := p2)\<rparr>)"
    by (rule run_read [OF p1(1) _ run_read [OF p2 _ run_done]]) (simp_all add: max_rw_def)
  then show ?thesis by blast
qed

section \<open>The environment of a job that starts\<close>

lemma ex_server_env [simp]: "server_env_ok ex_hg ex_getenv"
  by (simp add: server_env_ok_def ids_distinct_def rpc_names_def ex_hg_def ex_register_def ex_getenv_def)

lemma ex_ids [simp]: "ids_distinct ex_hg" "hg_disable_response ex_hg"
  using ex_server_env by (simp_all add: server_env_ok_def)

section \<open>Threads that have not read yet\<close>

definition ex_threads :: rpc_wait where
  "ex_threads = \<lparr>proc_state = client.truncate ex_client, pc_of = (\<lambda>_. Running), outstanding = [],
     answer_of = (\<lambda>_. 0)\<rparr>"

lemma ex_threads_start: "wait_start ex_threads"
  by (simp add: wait_start_def ex_threads_def)

section \<open>Threads of the client that holds the file\<close>

definition ex_calls :: "(unit, cluster) threads" where
  "ex_calls = \<lparr>shared = ex_opened, pcs = (\<lambda>_. Outside), alone = (\<lambda>_. Inr (0, None, ex_opened))\<rparr>"

lemma ex_opened_pending: "pending ex_opened = []"
  using remote_end_SomeD [of ex_cenv ex_opened 5 "''s''" 0] ex_opened_facts by simp

lemma ex_calls_start: "threads_start ex_calls"
  by (simp add: threads_start_def ex_calls_def ex_opened_pending)

lemma ex_calls_simps [simp]: "shared ex_calls = ex_opened" "pcs ex_calls = (\<lambda>_. Outside)"
  by (simp_all add: ex_calls_def)

lemma ex_remote_read: "\<exists>p. remote_read_at ex_cenv 5 (Some mem) 3 (-1) ex_opened
    = Inr (3, Some (overlay ex_bytes mem), p)"
proof -
  have r: "remote_end ex_cenv ex_opened 5 = Some (''s'', 0)" using ex_opened_facts by blast
  from remote_view_SomeD [of cluster_view cluster_serves ex_cenv ex_opened 5] ex_opened_facts
  have v: "cluster_serves (net ex_opened) ''s'' (hvac_client_rpc_id ex_opened) K_read"
    "cluster_view (net ex_opened) ''s'' 0 = Some (ex_bytes, 0)" by auto
  obtain w where w: "cluster_forward (fault_free 1 True) ''s'' (hvac_client_rpc_id ex_opened)
      (Read_in \<lparr>input_val = to_int (of_nat 3), bulk_handle = of_nat 3, accessfd = 0, in_offset = -1\<rparr>) (net ex_opened)
      = (Reply 0 (to_int (of_nat 3)) ex_bytes, w)"
    using cluster_read_window [OF v, of 3 1 True] by (auto simp: max_rw_def ex_bytes_def)
  have "hg_forward ex_cenv = cluster_forward (fault_free 1 True)" by (simp add: ex_cenv_def)
  with remote_read_at_reply [OF r, of 3 "-1" "to_int (of_nat 3)" ex_bytes w mem] w show ?thesis
    using to_i64_to_int_of_nat [of 3] by simp
qed

lemma ex_calls_inside: "\<exists>s p. reach threads_start (thread_step ex_cenv True) s \<and> inside s 0 \<and>
    alone s 0 = Inr (3, Some (overlay ex_bytes mem), p)"
proof -
  obtain p where p: "remote_read_at ex_cenv 5 (Some mem) 3 (-1) ex_opened = Inr (3, Some (overlay ex_bytes mem), p)"
    using ex_remote_read by blast
  have t: "hvac_file_tracked ex_opened 5" using ex_opened_facts remote_end_tracked by blast
  with p obtain b q where q: "read_issue ex_cenv 5 (Some mem) 3 (-1) (shared ex_calls) = Inr (b, q)"
    by (auto simp: remote_read_parts and_then_eq_Inr)
  let ?s = "enter 0 For_read b q (remote_read_at ex_cenv 5 (Some mem) 3 (-1) (shared ex_calls)) ex_calls"
  have "thread_step ex_cenv True ex_calls ?s"
    by (rule t_read [OF _ _ _ q]) (simp_all add: t inside_def)
  then have "reach threads_start (thread_step ex_cenv True) ?s"
    using reach_start [of threads_start ex_calls] ex_calls_start by (meson reach_step)
  with p show ?thesis by (intro exI [of _ ?s] exI [of _ p]) (simp add: enter_def inside_def)
qed

text \<open>The client holds the file as descriptor 5 and is about to open it again as descriptor 6.\<close>

lemma ex_opened_knows: "knows ex_cenv ex_opened ex_path ''s''"
  using remote_end_SomeD [of ex_cenv ex_opened 5 "''s''" 0] ex_opened_facts by (auto simp: knows_def)

lemma ex_opened_redir: "fd_redir_map ex_opened 6 = None"
proof -
  have "tables_agree ex_opened" using tables.reach_inv [OF ex_opened_reach] by blast
  then show ?thesis using ex_opened_facts by (simp add: tables_agree_def)
qed

lemma ex_open_again: "\<exists>ps. posix_open (disk ex_served) (redirected ex_served ex_path) = (1, ps)"
proof -
  have "alloc_fd (disk ex_held) = Some 1"
    by (simp add: alloc_fd_def upt_rec ex_held_def)
  then show ?thesis by (simp add: posix_open_def canonical_in_def redirected_def)
qed

lemma ex_served_ok [simp]: "server_ok ex_served"
  using ex_held_ok
  by (simp add: ex_served_def server_ok_def mover_ok_def cache_coherent_def descriptors_ok_def descriptor_ok_def)

section \<open>The server in the middle of a copy\<close>

definition ex_before :: cut_node where "ex_before = \<lparr>node = ex_server, phase = Between\<rparr>"

text \<open>The file is opened and closed, and the mover has written one byte of its copy.\<close>

lemma ex_asked: "\<exists>s as. (asked_step {fault_free 1 True} (nodes ex_disk))\<^sup>*\<^sup>* (ex_before, []) (s, as) \<and> length as = 2 \<and>
    phase s = Writing ''/bb/x/f'' ex_bytes \<and> files s ''/bb/x/f'' = Some (Reg [10])"
proof -
  let ?step = "asked_step {fault_free 1 True} (nodes ex_disk)"
  obtain n2 where n2: "run_handler (fault_free 1 True) (Close_in \<lparr>close_fd = 0\<rparr>) ex_served = Inr (None, [], n2)"
    "disk n2 = (disk ex_served)\<lparr>fdtab := (fdtab (disk ex_served))(0 := None)\<rparr>" "data_queue n2 = [ex_path]"
    "mover n2 = Mover_woken" "local_list n2 = []"
    using server_close_effect [of ex_served 0 ex_path "fault_free 1 True"] by (auto simp: ex_served_def)
  define n3 where "n3 = mover_wake n2"
  have n3: "disk n3 = disk n2" "local_list n3 = [ex_path]" "mover n3 = Mover_copying"
    using n2 by (simp_all add: n3_def mover_wake_def)
  have d: "nodes (disk n3) = [ex_path \<mapsto> Reg ex_bytes]" "resolve (disk n3) = (\<lambda>p. p)" "openable (disk n3) = (\<lambda>_. True)"
    by (simp_all add: n3(1) n2(2))
  let ?open = "(0, Open_in \<lparr>in_path = ex_path\<rparr>, Some 0, [])"
  define as :: "reply_entry list" where "as = [?open, (1, Close_in \<lparr>close_fd = 0\<rparr>, None, [])]"
  define s1 where "s1 = \<lparr>node = ex_served, phase = Between\<rparr>"
  define s2 where "s2 = \<lparr>node = n2, phase = Between\<rparr>"
  define s3 where "s3 = \<lparr>node = n3, phase = Between\<rparr>"
  have "?step (ex_before, []) (s1, [?open])"
    using asked_rpc [of "fault_free 1 True" "{fault_free 1 True}" "nodes ex_disk" ex_before
      "Open_in \<lparr>in_path = ex_path\<rparr>" "Some 0" "[]" ex_served "[]" 0] ex_run_open
    by (simp add: ex_before_def s1_def asks_ok_def)
  moreover have "?step (s1, [?open]) (s2, as)"
    using asked_rpc [of "fault_free 1 True" "{fault_free 1 True}" "nodes ex_disk" s1 "Close_in \<lparr>close_fd = 0\<rparr>" None "[]" n2 "[?open]" 1] n2(1)
    by (simp add: s1_def s2_def as_def asks_ok_def)
  moreover have "?step (s2, as) (s3, as)"
    using asked_piece [OF piece_wait [of s2 n3], of "{fault_free 1 True}" "nodes ex_disk" as] step_wake [of n2] n2(4)
    by (simp add: s2_def s3_def n3_def)
  moreover define s4 where "s4 = (set_files ((files s3)(place s3 ''/bb/x'' \<mapsto> Dir)) s3)\<lparr>phase := Made_dir ''/bb/x''\<rparr>"
  have "?step (s3, as) (s4, as)" unfolding s4_def
    by (rule asked_piece, rule piece_mkdir) (simp_all add: s3_def n3(2,3) d ex_path_def)
  moreover have name: "copy_name ''/bb/x'' n = ''/bb/x/f''" if "local_list n = [ex_path]" for n :: server
    unfolding copy_name_def that by (simp add: ex_path_def) code_simp
  define s5 where "s5 = (set_files ((files s4)(place s4 ''/bb/x/f'' \<mapsto> Reg [])) s4)\<lparr>phase := Writing ''/bb/x/f'' ex_bytes\<rparr>"
  have "?step (s4, as) (s5, as)" unfolding s5_def
    by (rule asked_piece, rule piece_create [where d = "''/bb/x''" and c = ex_path])
      (simp_all add: s4_def s3_def set_files_def n3(2,3) d name canonical_in_def file_bytes_def ex_path_def)
  moreover define s6 where "s6 = set_files ((files s5)(place s5 ''/bb/x/f'' \<mapsto> Reg (take (0 + 1) ex_bytes))) s5"
  have "?step (s5, as) (s6, as)" unfolding s6_def
    by (rule asked_piece, rule piece_write [where k = 0]) (simp_all add: s5_def s4_def s3_def set_files_def d)
  ultimately have "?step\<^sup>*\<^sup>* (ex_before, []) (s6, as)" by (meson converse_rtranclp_into_rtranclp rtranclp.rtrancl_refl)
  then show ?thesis
    by (intro exI [of _ s6] exI [of _ as]) (simp add: s6_def s5_def s4_def s3_def set_files_def d ex_bytes_def as_def)
qed

lemma ex_cut: "\<exists>s. reach cut_start (cut_step (fault_free 1 True)) s \<and> phase s = Writing ''/bb/x/f'' ex_bytes \<and>
    files s ''/bb/x/f'' = Some (Reg [10])"
proof -
  have "cut_start ex_before" by (simp add: cut_start_def ex_before_def)
  with ex_asked asked_cut_run show ?thesis by blast
qed

section \<open>Two reads under way\<close>

definition ex_busy :: busy_node where "ex_busy = \<lparr>bnode = ex_held, transfers = [], replies = []\<rparr>"

definition ex_in :: hvac_rpc_in_t where
  "ex_in = \<lparr>input_val = 2, bulk_handle = 2, accessfd = 0, in_offset = -1\<rparr>"

text \<open>The transfer of the second read ends first.\<close>

lemma ex_transfer_start:
  assumes "disk s = ex_disk\<lparr>fdtab := [0 \<mapsto> \<lparr>of_path = ex_path, of_pos = p\<rparr>]\<rparr>" and "p = 0 \<or> p = 2"
  shows "\<exists>st n. hvac_rpc_handler_start (fault_free 1 True) h ex_in s = Inr (st, n) \<and>
    reply_of (fault_free 1 True, st) = (h, Read_in ex_in, Some (to_int (of_nat (length (take 2 (drop p ex_bytes))))),
      take 2 (drop p ex_bytes)) \<and>
    disk n = ex_disk\<lparr>fdtab := [0 \<mapsto> \<lparr>of_path = ex_path, of_pos = p + length (take 2 (drop p ex_bytes))\<rparr>]\<rparr>"
proof -
  let ?d = "take 2 (drop p ex_bytes)"
  have n: "to_i64 (input_val ex_in) = 2" by (simp add: ex_in_def to_i64_def)
  have "posix_read (disk s) 0 2 = (of_nat (length ?d), ?d,
      ex_disk\<lparr>fdtab := [0 \<mapsto> \<lparr>of_path = ex_path, of_pos = p + length ?d\<rparr>]\<rparr>)"
    by (simp add: posix_read_def assms(1) file_bytes_def file_window_def max_rw_def Let_def)
  then have call: "server_file_call (fault_free 1 True) ex_in (to_i64 (input_val ex_in)) s = (of_nat (length ?d), ?d,
      log_push ''read'' 1 (s\<lparr>disk := ex_disk\<lparr>fdtab := [0 \<mapsto> \<lparr>of_path = ex_path, of_pos = p + length ?d\<rparr>]\<rparr>\<rparr>))"
    unfolding n by (simp add: server_file_call_def ex_in_def)
  have "rpc_env_ok (fault_free 1 True) (to_i64 (input_val ex_in)) (bulk_handle ex_in)"
    by (rule fault_free_ok)
  moreover have "length ?d < 2 ^ 31" "length ?d \<le> unat (bulk_handle ex_in)" by (simp_all add: ex_in_def)
  ultimately obtain st where "hvac_rpc_handler_start (fault_free 1 True) h ex_in s = Inr (st, flush_if_full (fault_free 1 True)
      (note_path (accessfd ex_in) (log_push ''read'' 1 (s\<lparr>disk := ex_disk\<lparr>fdtab := [0 \<mapsto> \<lparr>of_path = ex_path,
        of_pos = p + length ?d\<rparr>]\<rparr>\<rparr>))))"
    "reply_of (fault_free 1 True, st) = (h, Read_in ex_in, Some (to_int (of_nat (length ?d))), ?d)"
    using start_success [OF _ call, of h] by blast
  then show ?thesis by simp
qed

lemma ex_overtake: "\<exists>b. (busy_step {fault_free 1 True})\<^sup>*\<^sup>* ex_busy b \<and>
    replies b = [(2, Read_in ex_in, Some 1, [30]), (1, Read_in ex_in, Some 2, [10, 20])] \<and> transfers b = []"
proof -
  let ?E = "{fault_free 1 True}"
  obtain st1 n1 where r1: "hvac_rpc_handler_start (fault_free 1 True) 1 ex_in ex_held = Inr (st1, n1)"
    "reply_of (fault_free 1 True, st1) = (1, Read_in ex_in, Some 2, [10, 20])"
    "disk n1 = ex_disk\<lparr>fdtab := [0 \<mapsto> \<lparr>of_path = ex_path, of_pos = 2\<rparr>]\<rparr>"
    using ex_transfer_start [of ex_held 0 1]
    by (auto simp: ex_held_def ex_bytes_def to_int_def numeral_2_eq_2 [symmetric])
  obtain st2 n2 where r2: "hvac_rpc_handler_start (fault_free 1 True) 2 ex_in n1 = Inr (st2, n2)"
    "reply_of (fault_free 1 True, st2) = (2, Read_in ex_in, Some 1, [30])"
    using ex_transfer_start [OF r1(3), of 2] by (auto simp: ex_bytes_def to_int_def)
  let ?t1 = "(fault_free 1 True, st1)"
  let ?t2 = "(fault_free 1 True, st2)"
  let ?b1 = "\<lparr>bnode = n1, transfers = [?t1], replies = []\<rparr>"
  let ?b2 = "\<lparr>bnode = n2, transfers = [?t1, ?t2], replies = []\<rparr>"
  let ?b3 = "\<lparr>bnode = n2, transfers = [?t1], replies = [reply_of ?t2]\<rparr>"
  let ?b4 = "\<lparr>bnode = n2, transfers = [], replies = [reply_of ?t2, reply_of ?t1]\<rparr>"
  have ok: "transfers_succeed ?E" by (simp add: transfers_succeed_def fault_free_def)
  have "busy_step ?E ex_busy ?b1"
    using busy_read [of "fault_free 1 True" ?E 1 ex_in ex_busy st1 n1] r1(1) by (simp add: ex_busy_def)
  moreover have "busy_step ?E ?b1 ?b2"
    using busy_read [of "fault_free 1 True" ?E 2 ex_in ?b1 st2 n2] r2(1) by simp
  moreover have "busy_step ?E ?b2 ?b3"
    using transfer_ends [OF ok, of ?t2 ?b2 "[?t1]" "[]"] by simp
  moreover have "busy_step ?E ?b3 ?b4"
    using transfer_ends [OF ok, of ?t1 ?b3 "[]" "[]"] by simp
  ultimately have "(busy_step ?E)\<^sup>*\<^sup>* ex_busy ?b4" by (meson converse_rtranclp_into_rtranclp rtranclp.rtrancl_refl)
  then show ?thesis using r1(2) r2(2) by (intro exI [of _ ?b4]) simp
qed

section \<open>The test program\<close>

text \<open>The test file, in the working directory, which is the data directory.\<close>

definition ex_test_file :: path where "ex_test_file = ''./testfile.77.4096.0''"

text \<open>
  The state of the system says whether the file exists: an open to write creates it, and without
  it the other opens fail.
\<close>

definition ex_test_cenv :: "(bool, string, cluster) cenv" where
  "ex_test_cenv = \<lparr>dlsym = (\<lambda>_. True),
     real_open = (\<lambda>_ flags _ w. if flags AND O_CREAT \<noteq> 0 then (5, True) else (if w then 5 else -1, w)),
     real_open64 = (\<lambda>_ _ _ w. (6, w)), real_fopen = (\<lambda>_ _ w. (Some 5, w)),
     real_fopen64 = (\<lambda>_ _ w. (Some 5, w)), real_close = (\<lambda>_ w. (0, w)),
     real_read = (\<lambda>_ buf _ w. (0, buf, w)), real_read64 = (\<lambda>_ buf _ w. (0, buf, w)),
     real_pread = (\<lambda>_ buf _ _ w. (0, buf, w)), real_readv = (\<lambda>_ iov w. (0, iov, w)),
     real_write = (\<lambda>_ _ n w. (n, w)), real_lseek = (\<lambda>_ off _ w. (off, w)),
     real_lseek64 = (\<lambda>_ off _ w. (off, w)),
     getenv = ex_getenv(''HVAC_DATA_DIR'' \<mapsto> ''.''), strhash = (\<lambda>_. 0), getpid = 77, log4c_rc = 0,
     log4c_notice = 500, hgenv = ex_hg, canonical = (\<lambda>_ p. Some p), current_path = (\<lambda>_. Some ''/''),
     read_config = (\<lambda>_ _. Some (ports_file [(0, ''s'')])), hg_lookup = Some, hg_create_ok = True,
     hg_bulk_ok = (\<lambda>_. True), hg_free_ok = True, hg_forward = cluster_forward (fault_free 1 True)\<rparr>"

lemma ex_test_env [simp]: "deployed ex_test_cenv 1 True = ex_test_cenv"
  by (simp add: deployed_def ex_test_cenv_def)

text \<open>The node, once the file has been written.\<close>

abbreviation ex_test_buf :: "byte list" where "ex_test_buf \<equiv> replicate 4096 7"

definition ex_test_server :: server where
  "ex_test_server = ex_server\<lparr>disk := ex_disk\<lparr>nodes := [ex_test_file \<mapsto> Reg (test_file_bytes 0 ex_test_buf)]\<rparr>\<rparr>"

text \<open>Between two rounds the mover wakes up.\<close>

definition wake_mover :: "string \<Rightarrow> cluster \<Rightarrow> cluster" where
  "wake_mover a w = (case w a of Some s \<Rightarrow> if mover s = Mover_woken then w(a \<mapsto> mover_wake s) else w | None \<Rightarrow> w)"

lemma ex_keeps_serving: "keeps_serving a c (wake_mover a)"
  unfolding keeps_serving_def
proof (intro allI impI)
  fix w s
  assume s: "w a = Some s" "can_open s c"
  show "\<exists>t. wake_mover a w a = Some t \<and> node_run s t \<and> can_open t c"
  proof (cases "mover s = Mover_woken")
    case True
    have "node_run s (mover_wake s)"
      using step_mover [OF step_wake [OF True]] by (intro r_into_rtranclp) blast
    moreover have "can_open (mover_wake s) c" using s(2) by (simp add: can_open_def redirected_def)
    ultimately show ?thesis using s True by (intro exI [of _ "mover_wake s"]) (simp add: wake_mover_def)
  next
    case False
    with s show ?thesis by (intro exI [of _ s]) (simp add: wake_mover_def)
  qed
qed

lemma ex_test_name: "test_file_name 77 0 = ex_test_file" "parent_path ex_test_file = ''.''"
    "str_contains ''.'' ''.''" "\<not> str_contains ex_test_file ''.ports.cfg.''"
  unfolding test_file_name_def ex_test_file_def by code_simp+

lemma ex_test_file_there:
  "test_file_there ex_test_cenv (Some ''.'') (test_file_name 77 0) ex_test_file (\<lambda>w. w)"
  by (simp add: test_file_there_def in_data_dir_def ex_test_name ex_test_cenv_def open_flag_defs)

lemma ex_test_calls:
  "real_open ex_test_cenv path (O_WRONLY OR O_CREAT OR O_TRUNC) md w = (5, True)"
  "real_write ex_test_cenv fd buf k w = (k, w)" "real_close ex_test_cenv fd w = (0, w)"
  "hgenv ex_test_cenv = ex_hg" "getenv ex_test_cenv ''HVAC_DATA_DIR'' = Some ''.''"
  using write_flags(2) by (simp_all add: ex_test_cenv_def)

lemma ex_test_site:
  "client_site_ok ex_test_cenv ''7'' ''1'' ''s'' 0 ''s'' w (test_file_name 77 0) ex_test_file"
  "read_config ex_test_cenv w (ports_cfg_name ''7'') = Some (ports_line 0 ''s'')"
proof -
  have "atoi ''1'' = 1" by code_simp
  moreover have "hg_thread_create ex_hg" by (simp add: ex_hg_def)
  ultimately show "client_site_ok ex_test_cenv ''7'' ''1'' ''s'' 0 ''s'' w (test_file_name 77 0) ex_test_file"
    by (simp add: client_site_ok_def client_env_ok_def ex_test_cenv_def ex_ids ex_getenv_def address_ok_def
        is_space_def to_int_def in_data_dir_def ex_test_name)
  show "read_config ex_test_cenv w (ports_cfg_name ''7'') = Some (ports_line 0 ''s'')"
    by (simp add: ex_test_cenv_def ports_file_def)
qed

lemma ex_test_server_facts:
  "server_ok ex_test_server" "bytes_at (disk ex_test_server) ex_test_file = Some (test_file_bytes 0 ex_test_buf)"
  "can_open ex_test_server ex_test_file" "dispatch_ok ex_hg (registry ex_test_server)"
proof -
  have "server_started ex_test_server"
    using ex_server_started by (auto simp: ex_test_server_def server_started_def fds_ok_def)
  then show "server_ok ex_test_server" by (rule server_started_ok)
  show "bytes_at (disk ex_test_server) ex_test_file = Some (test_file_bytes 0 ex_test_buf)"
    "can_open ex_test_server ex_test_file"
    by (simp_all add: ex_test_server_def bytes_at_def file_bytes_def can_open_def redirected_def posix_open_def
        canonical_in_def ex_test_file_def alloc_fd_def upt_rec)
  show "dispatch_ok ex_hg (registry ex_test_server)"
    by (auto simp: dispatch_ok_def ex_test_server_def ex_hg_def ex_register_def rpc_name_of_def split: rpc_kind.split)
qed

section \<open>The daemon's threads around the mutex\<close>

text \<open>The file is opened and closed, and the mover comes to its copy.\<close>

lemma ex_locked: "\<exists>s. reach lock_start (lock_run (fault_free 1 True)) s \<and> drains s = [[ex_path]] \<and>
    close_at s = Cl_out \<and> mover_at s = At_copy \<and> local_list (lnode s) = [ex_path] \<and>
    fresh_for (disk (lnode s)) (Some ''/bb/x'') ex_path \<and>
    path_cache_map (mover_copy_one (Some ''/bb/x'') True (lnode s)) \<noteq> path_cache_map (lnode s)"
proof -
  let ?E = "fault_free 1 True"
  let ?r = "reach lock_start (lock_run ?E)"
  let ?s = "\<lambda>n h pc ds. \<lparr>lnode = n, holder = h, close_at = Cl_out, mover_at = pc, drains = ds\<rparr>"
  have go: "?r t" if "?r s" "lock_step ?E s l t" for s l t
    by (rule reach_step [OF that(1)]) (use that(2) in \<open>unfold lock_run_def, blast\<close>)
  let ?n0 = "ex_server\<lparr>mover := Mover_looping\<rparr>"
  have "lock_start (?s ?n0 None At_lock [])" by (simp add: lock_start_def server_started_def)
  then have r0: "?r (?s ?n0 None At_lock [])" by (rule reach_start)
  have "mover_wait ?n0 = ex_server" by (simp add: mover_wait_def ex_server_def)
  with go [OF go [OF r0 mv_lock] mv_wait] have "?r (?s ex_server None In_wait [])" by simp
  from go [OF this cl_other [where req = "Open_in \<lparr>in_path = ex_path\<rparr>" and n = ex_served]] ex_run_open
  have r1: "?r (?s ex_served None In_wait [])" by simp
  obtain n where n: "run_handler ?E (Close_in \<lparr>close_fd = 0\<rparr>) ex_served = Inr (None, [], n)"
    "disk n = (disk ex_served)\<lparr>fdtab := (fdtab (disk ex_served))(0 := None)\<rparr>" "path_cache_map n = (\<lambda>_. None)"
    "data_queue n = [ex_path]" "mover n = Mover_woken" "local_list n = []"
    using server_close_effect [of ex_served 0 ex_path ?E] by (auto simp: ex_served_def)
  obtain pc where pc: "(lock_run ?E)\<^sup>*\<^sup>* (?s ex_served None In_wait []) (?s n None pc [])"
    using whole_close [of "?s ex_served None In_wait []" ?E 0 None "[]" n] n(1) by auto
  have "lock_ok (?s n None pc [])"
    using locked.steps_inv [OF pc] locked.reach_inv [OF r1] by blast
  then have "pc = At_relock" using n(5) by (cases pc) (auto simp: lock_ok_def mover_agrees_def)
  have r2: "?r (?s n None At_relock [])"
    using pc r1 unfolding \<open>pc = At_relock\<close> by (induction rule: rtranclp_induct) (auto intro: reach_step)
  from go [OF go [OF go [OF r2 mv_relock] mv_drain] mv_unlock] n(4)
  have r3: "?r (?s (mover_wake n) None At_copy [[ex_path]])" by simp
  have f: "filename ex_path = ''f''" unfolding ex_path_def by code_simp
  have new: "ex_path \<noteq> ''/bb/x''" "ex_path \<noteq> ''/bb/x/f''" by (simp_all add: ex_path_def)
  have w: "local_list (mover_wake n) = [ex_path]" using mover_wake_takes_all [OF n(5)] n(4,6) by simp
  have "path_cache_map (mover_copy_one (Some ''/bb/x'') True (mover_wake n)) ex_path = Some ''/bb/x/f''"
    using mover_copy_one_caches [OF w, of ex_bytes "''/bb/x''"] n(2) new f
      bytes_at_cong [of "disk n" "disk ex_held" ex_path] by simp
  moreover have "fresh_for (disk (mover_wake n)) (Some ''/bb/x'') ex_path" using n(2) new by (simp add: fresh_for_def)
  ultimately show ?thesis
    using r3 w n(3) by (intro exI [of _ "?s (mover_wake n) None At_copy [[ex_path]]"]) auto
qed

end
