(* ===== verification/Wrappers_Disabled.thy ===== *)
theory Wrappers_Disabled
  imports Transparency
begin

unbundle bit_operations_syntax

text \<open>
  The part of \<open>src/wrappers.c\<close> between \<open>#if 0\<close> and \<open>#endif\<close>: wrappers that were in use before
  seeks and positioned reads were sent to the servers. They are compiled out; they are kept
  here as the reference for what an intercepted call must leave alone. A stream stands for its
  \<open>fileno\<close>, as in \<open>Wrappers\<close>.
\<close>

section \<open>The functions they wrap\<close>

record 'o rest_env =
  real_fwrite :: "byte list \<Rightarrow> i64 \<Rightarrow> i64 \<Rightarrow> cint \<Rightarrow> 'o \<Rightarrow> i64 \<times> 'o"
  real_fsync :: "cint \<Rightarrow> 'o \<Rightarrow> cint \<times> 'o"
  real_fdatasync :: "cint \<Rightarrow> 'o \<Rightarrow> cint \<times> 'o"
  real_fclose :: "cint \<Rightarrow> 'o \<Rightarrow> cint \<times> 'o"
  real_pwrite :: "cint \<Rightarrow> buffer \<Rightarrow> i64 \<Rightarrow> i64 \<Rightarrow> 'o \<Rightarrow> i64 \<times> 'o"

text \<open>A call of the system's function: its result, and the system's new state.\<close>

definition sys_result :: "'b \<times> 'o \<Rightarrow> ('o, 'w) proc \<Rightarrow> ('b \<times> ('o, 'w) proc) outcome" where
  "sys_result rw p = Inr (fst rw, p\<lparr>os := snd rw\<rparr>)"

section \<open>The wrappers\<close>

definition off_fwrite ::
  "('o, 'a, 'w) cenv \<Rightarrow> 'o rest_env \<Rightarrow> byte list \<Rightarrow> i64 \<Rightarrow> i64 \<Rightarrow> cint \<Rightarrow> ('o, 'w) proc
    \<Rightarrow> (i64 \<times> ('o, 'w) proc) outcome" where
  "off_fwrite e r ptr sz count stream p = MAP_OR_FAIL e ''fwrite''
     (sys_result (real_fwrite r ptr sz count stream (os p)) p)"

definition off_fsync ::
  "('o, 'a, 'w) cenv \<Rightarrow> 'o rest_env \<Rightarrow> cint \<Rightarrow> ('o, 'w) proc \<Rightarrow> (cint \<times> ('o, 'w) proc) outcome" where
  "off_fsync e r fd p = MAP_OR_FAIL e ''fsync''
     (if redirect_off p then sys_result (real_fsync r fd (os p)) p
      else sys_result (real_fsync r fd (os p)) p)"

definition off_fdatasync ::
  "('o, 'a, 'w) cenv \<Rightarrow> 'o rest_env \<Rightarrow> cint \<Rightarrow> ('o, 'w) proc \<Rightarrow> (cint \<times> ('o, 'w) proc) outcome" where
  "off_fdatasync e r fd p = MAP_OR_FAIL e ''fdatasync''
     (if redirect_off p then sys_result (real_fdatasync r fd (os p)) p
      else sys_result (real_fdatasync r fd (os p)) p)"

definition off_lseek ::
  "('o, 'a, 'w) cenv \<Rightarrow> cint \<Rightarrow> i64 \<Rightarrow> cint \<Rightarrow> ('o, 'w) proc \<Rightarrow> (i64 \<times> ('o, 'w) proc) outcome" where
  "off_lseek e fd offset whence p = MAP_OR_FAIL e ''lseek''
     (if redirect_off p then sys_result (real_lseek e fd offset whence (os p)) p
      else sys_result (real_lseek e fd offset whence (os p)) (l4c p))"

definition off_lseek64 ::
  "('o, 'a, 'w) cenv \<Rightarrow> cint \<Rightarrow> i64 \<Rightarrow> cint \<Rightarrow> ('o, 'w) proc \<Rightarrow> (i64 \<times> ('o, 'w) proc) outcome" where
  "off_lseek64 e fd offset whence p = MAP_OR_FAIL e ''lseek64''
     (if redirect_off p then sys_result (real_lseek64 e fd offset whence (os p)) p
      else let p1 = (if hvac_file_tracked p fd then l4c p else p)
        in sys_result (real_lseek64 e fd offset whence (os p)) p1)"

definition off_fopen ::
  "('o, 'a, 'w) cenv \<Rightarrow> path \<Rightarrow> string \<Rightarrow> ('o, 'w) proc \<Rightarrow> (cint option \<times> ('o, 'w) proc) outcome" where
  "off_fopen e path mode p = MAP_OR_FAIL e ''fopen''
     (if redirect_off p then sys_result (real_fopen e path mode (os p)) p
      else sys_result (real_fopen e path mode (os p)) (l4c p))"

definition check_open_mode :: "cint \<Rightarrow> bool \<Rightarrow> bool" where
  "check_open_mode flags ignore_check =
     (if flags AND O_ACCMODE = O_WRONLY then False
      else if flags AND O_APPEND \<noteq> 0 then False
      else True)"

definition off_fclose ::
  "('o, 'a, 'w) cenv \<Rightarrow> 'o rest_env \<Rightarrow> cint \<Rightarrow> ('o, 'w) proc \<Rightarrow> (cint \<times> ('o, 'w) proc) outcome" where
  "off_fclose e r fp p = MAP_OR_FAIL e ''fclose''
     (if redirect_off p then sys_result (real_fclose r fp (os p)) p
      else (case real_fclose r fp (os p) of (ret, w) \<Rightarrow>
        if ret \<noteq> 0 then Inr (ret, l4c (p\<lparr>os := w\<rparr>)) else Inr (ret, p\<lparr>os := w\<rparr>)))"

definition off_pwrite ::
  "('o, 'a, 'w) cenv \<Rightarrow> 'o rest_env \<Rightarrow> cint \<Rightarrow> buffer \<Rightarrow> i64 \<Rightarrow> i64 \<Rightarrow> ('o, 'w) proc
    \<Rightarrow> (i64 \<times> ('o, 'w) proc) outcome" where
  "off_pwrite e r fd buf count offset p = MAP_OR_FAIL e ''pwrite''
     (sys_result (real_pwrite r fd buf count offset (os p)) p)"

definition off_pread ::
  "('o, 'a, 'w) cenv \<Rightarrow> cint \<Rightarrow> buffer \<Rightarrow> i64 \<Rightarrow> i64 \<Rightarrow> ('o, 'w) proc
    \<Rightarrow> (i64 \<times> buffer \<times> ('o, 'w) proc) outcome" where
  "off_pread e fd buf count offset p = MAP_OR_FAIL e ''pread''
     (case real_pread e fd buf count offset (os p) of (r, buf', w) \<Rightarrow> Inr (r, buf', p\<lparr>os := w\<rparr>))"

text \<open>As in the \<open>write\<close> that is compiled, the code after the first \<open>return\<close> is never reached.\<close>

definition off_write ::
  "('o, 'a, 'w) cenv \<Rightarrow> cint \<Rightarrow> buffer \<Rightarrow> i64 \<Rightarrow> ('o, 'w) proc \<Rightarrow> (i64 \<times> ('o, 'w) proc) outcome" where
  "off_write e fd buf count p = MAP_OR_FAIL e ''write'' (sys_result (real_write e fd buf count (os p)) p)"

lemmas off_defs = off_fwrite_def off_fsync_def off_fdatasync_def off_lseek_def off_lseek64_def
  off_fopen_def off_fclose_def off_pwrite_def off_write_def

section \<open>What they leave alone\<close>

text \<open>
  A call that passes through: the system's function runs, and of the process only the system's
  state and the thread's switch can change.
\<close>

definition passes :: "('o, 'a, 'w) cenv \<Rightarrow> string \<Rightarrow> 'b \<times> 'o \<Rightarrow> ('o, 'w) proc \<Rightarrow> ('b \<times> ('o, 'w) proc) outcome \<Rightarrow> bool" where
  "passes e f rw p out \<longleftrightarrow>
     out = MAP_OR_FAIL e f (Inr (fst rw, p\<lparr>os := snd rw\<rparr>)) \<or>
     out = MAP_OR_FAIL e f (Inr (fst rw, l4c (p\<lparr>os := snd rw\<rparr>)))"

lemma l4c_os: "(l4c p)\<lparr>os := w\<rparr> = l4c (p\<lparr>os := w\<rparr>)" for p :: "('o, 'w) proc"
  by (simp add: l4c_def)

lemma off_pass:
  "passes e ''fwrite'' (real_fwrite r ptr sz count stream (os p)) p (off_fwrite e r ptr sz count stream p)"
  "passes e ''fsync'' (real_fsync r fd (os p)) p (off_fsync e r fd p)"
  "passes e ''fdatasync'' (real_fdatasync r fd (os p)) p (off_fdatasync e r fd p)"
  "passes e ''lseek'' (real_lseek e fd offset whence (os p)) p (off_lseek e fd offset whence p)"
  "passes e ''lseek64'' (real_lseek64 e fd offset whence (os p)) p (off_lseek64 e fd offset whence p)"
  "passes e ''fopen'' (real_fopen e path mode (os p)) p (off_fopen e path mode p)"
  "passes e ''fclose'' (real_fclose r fd (os p)) p (off_fclose e r fd p)"
  "passes e ''pwrite'' (real_pwrite r fd buf count offset (os p)) p (off_pwrite e r fd buf count offset p)"
  "passes e ''write'' (real_write e fd buf count (os p)) p (off_write e fd buf count p)"
  by (auto simp: passes_def off_defs sys_result_def l4c_os case_prod_beta Let_def)

text \<open>The check on the flags is the one \<open>hvac_track_file\<close> makes.\<close>

lemma check_open_mode_flags: "check_open_mode flags ig \<longleftrightarrow> readable_flags flags"
  by (auto simp: check_open_mode_def readable_flags_def)

lemma track_file_declines:
  "\<not> check_open_mode flags ig \<Longrightarrow> hvac_track_file e path flags fd p = Inr (False, p)"
  by (auto simp: hvac_track_file_def check_open_mode_def split: if_splits)

text \<open>
  On a descriptor that is not tracked the wrappers that replaced them return the same and
  leave the same state; \<open>write\<close> is the same function in every case.
\<close>

lemma off_agree:
  assumes "\<not> hvac_file_tracked p fd"
  shows "wrap_pread e fd buf count offset p = off_pread e fd buf count offset p"
    and "wrap_lseek64 e fd offset whence p = off_lseek64 e fd offset whence p"
    and "wrap_write e fd buf count p = off_write e fd buf count p"
  using assms
  by (auto simp: wrap_pread_def off_pread_def wrap_lseek64_def wrap_write_def off_defs sys_result_def
      MAP_OR_FAIL_def hvac_file_tracked_def map_has_def hvac_get_path_def case_prod_beta Let_def)

text \<open>
  Brought back in their place, the old seek would part the two positions of a tracked
  descriptor: the local one moves, the remote one, from which reads are served, does not.
\<close>

lemma off_lseek_parts_positions:
  assumes "tracked_view (deployed e dt lf) p fd = Some (b, pos)"
    and "real_lseek (deployed e dt lf) fd offset whence (os p) = (r, w)"
  shows "\<exists>p'. off_lseek (deployed e dt lf) fd offset whence p = Inr (r, p') \<and> os p' = w \<and>
    tracked_view (deployed e dt lf) p' fd = Some (b, pos)"
proof -
  have "\<not> redirect_off p" using remote_view_SomeD [OF assms(1)] by blast
  with assms show ?thesis
    by (simp add: off_lseek_def MAP_OR_FAIL_def sys_result_def)
qed

end
