(* ===== verification/Spec2Isabelle.thy ===== *)
theory Spec2Isabelle
  imports Fixture Wrappers_Disabled
begin

text \<open>
  \<^bold>\<open>HVAC: a read cache for a parallel job.\<close> A job runs one daemon (\<open>hvac_server\<close>) per node
  and preloads a library (\<open>hvac_client\<close>) into its processes. The library replaces the C
  library's file functions (\<open>src/wrappers.c\<close>). A file of the data directory that is opened for
  reading is tracked (\<open>hvac_track_file\<close> in \<open>src/hvac_client.cpp\<close>): a server, chosen by the hash
  of the file's path, is asked over Mercury to open it (\<open>src/hvac_comm_client.cpp\<close>), and later
  reads, seeks and the close of the descriptor go to this server (handlers in
  \<open>src/hvac_comm.cpp\<close>). When a file is closed the server queues it for its data mover
  (\<open>src/hvac_data_mover.cpp\<close>), which copies it to the node's own disk and records the copy; the
  next open of the path opens the copy. Servers publish their addresses in a file of the job.

  \<^bold>\<open>Layers.\<close>
  \<^item> \<open>Hvac_Prelude\<close>: integer types and conversions, outcomes of C code that may not return
    (\<open>Assert_failed\<close>, \<open>Exit_process\<close>, \<open>Blocked_forever\<close>, \<open>Undefined_behaviour\<close>), \<open>std::map\<close>
    operations, buffers, reachability and the locale \<open>inductive_invariant\<close>.
  \<^item> \<open>C_Strings\<close>, \<open>Posix\<close>: what the sources use of the C and C++ libraries: \<open>%d\<close>, \<open>%s\<close>,
    \<open>atoi\<close>, \<open>strstr\<close>, path names; descriptors, \<open>open\<close>, \<open>read\<close>, \<open>pread\<close>, \<open>lseek\<close>, \<open>close\<close>,
    \<open>mkdtemp\<close>, \<open>fs::copy\<close> on a node's disk.
  \<^item> \<open>File_Reader\<close>: the specification of a file that is read: the locales \<open>sequential_file\<close> and
    \<open>seekable_file\<close>, with the loops of an application proved once, and their interpretation on
    a local descriptor.
  \<^item> \<open>Logging\<close>: \<open>src/hvac_logging.c\<close> and the names of \<open>src/hvac_logging.h\<close>. \<open>Comm\<close>: the shared
    part of \<open>src/hvac_comm.cpp\<close> with the RPC structures of \<open>src/hvac_comm.h\<close>. \<open>Data_Mover\<close>,
    \<open>Server\<close>: the daemon, one definition per handler, with \<open>main\<close> and its start. \<open>Server_Old\<close>:
    \<open>src/hvac_comm_old.cpp\<close>, refined by \<open>Server\<close>.
  \<^item> \<open>Client_Comm\<close>, \<open>Client\<close>, \<open>Wrappers\<close>: the client library, one definition per function
    (\<open>wrap_read\<close> is the \<open>read\<close> of \<open>src/wrappers.c\<close>). The C library behind the wrappers, Mercury
    and the servers are fields of the parameter record \<open>cenv\<close>.
    \<open>Wrappers_Disabled\<close>: the wrappers that \<open>#if 0\<close> switches off, against those in use.
  \<^item> \<open>Server_Facts\<close>, \<open>Server_Log\<close>, \<open>Startup\<close>: the invariant \<open>server_ok\<close> over the steps of a
    daemon (requests and its mover), the log it writes, and how a job comes up.
  \<^item> \<open>Transfers\<close>: the read handler and the callback that ends its bulk transfer as two steps, with
    other requests in between and transfers that overtake each other (\<open>busy_step\<close>); it refines
    the node that answers each request in one step (\<open>whole_step\<close>, \<open>stands_for\<close>).
    \<open>Fine_Mover\<close>: the mover's rounds cut into their system calls (\<open>piece_step\<close>), with requests in
    between; the invariant holds at every point (\<open>cut_step\<close>, \<open>cut_ok\<close>). \<open>Mover_Refines\<close>: these
    steps refine whole rounds, a node whose disk lags behind by the copies that are not
    recorded yet (\<open>lags_behind\<close>). \<open>Queue_Lock\<close>: the close handler and the mover's outer loop cut
    at their operations on the mutex and the condition variable (\<open>lock_step\<close>), with the accesses
    of each step, and data races as a predicate on states (\<open>races\<close>).
  \<^item> \<open>Client_Facts\<close>, \<open>File_Service\<close>, \<open>Cluster\<close>, \<open>Transparency\<close>: the effect of each client call;
    the locale \<open>file_service\<close>, which states what a client relies on when it forwards an RPC;
    its interpretation on servers that run the modelled handlers (\<open>cluster_forward\<close>); and the
    interpretation \<open>hvac_file\<close> of \<open>seekable_file\<close> on a tracked descriptor: the refinement that
    makes a tracked file an ordinary file.
  \<^item> \<open>System\<close>: one client and the servers as a transition system (\<open>sys_step\<close>): calls of the
    client, movers, and requests of others (\<open>foreign\<close>). \<open>client_effect\<close> classifies what a call
    can do, once for all wrappers. The invariant \<open>linked\<close>: every tracked descriptor leads to a
    remote descriptor of its own, open on the right file.
  \<^item> \<open>Sessions\<close>: what a session of open, reads and close leaves of client and server, and how
    the next session meets the mover's copy.
  \<^item> \<open>Job\<close>, \<open>Job_Reads\<close>: any number of clients over the same servers (\<open>job_step\<close>). Seen from
    each client the others are the requests of \<open>sys_step\<close>, so its invariants carry over, and
    its reads are those of a file that nobody else moves. \<open>Bring_Up\<close>: a client from its
    constructor to its first tracked open.
  \<^item> \<open>Rpc_Wait\<close>, \<open>Threads\<close>: several threads of a client over the one flag \<open>done\<close>: first the
    reads with their answers as numbers, then the opens, reads and seeks of \<open>Client\<close> cut at their
    waits (\<open>thread_step\<close>), with the sequential definitions as specification. \<open>Races\<close>: the start
    of Mercury by several threads, and the shutdown against the progress thread.
  \<^item> \<open>Hazards\<close>: the behaviour off the good path, a process without a progress thread included.
    \<open>Test_Program\<close>: the programs under \<open>tests\<close>, from the constructor on, run against servers that
    others use in between. \<open>Fixture\<close>: the small deployment on which the properties are exercised.

  \<^bold>\<open>Properties\<close> (below, with a witness each where they have hypotheses): reading through the
  cache, for a job, a client, a session, the test program and a descriptor (C1-C11), closing
  and caching (C12-C16), the server node, its refinements, its log and its older version
  (C17-C22), finding the servers (C23, C24), which files are tracked (C25), failures, stale
  state and counts (C26-C31), waiting for answers and the progress thread (C32-C36), the start
  of the library (C37-C39), and the calls left to the system (C40).

  \<^bold>\<open>State and steps.\<close> A handler, a callback and a wrapper each are one definition from the state
  before to the outcome after. A client call runs until it returns, with the answer delivered
  by the progress thread in between (\<open>progress\<close>, as long as \<open>progress_runs\<close>); calls of one client
  that overlap are the subject of \<open>Rpc_Wait\<close> and \<open>Threads\<close>. In \<open>Job\<close> the calls of different
  clients follow each other whole, which loses nothing: a call makes at most one request, the
  servers see the requests of all clients in some order, and a server whose transfers overlap
  is one that serves them one by one (C19). The mover is a state machine (looping,
  waiting, woken, copying); its steps interleave with requests at whole rounds of its loop, and
  in \<open>Fine_Mover\<close> at every system call, which makes no difference to clients that ask for files
  of the data directory (C18). Counts are the C types at their width: \<open>int\<close> and \<open>int32_t\<close> are \<open>cint\<close>,
  \<open>ssize_t\<close>, \<open>size_t\<close> and \<open>off_t\<close> are \<open>i64\<close>.

  \<^bold>\<open>Bounds.\<close> \<open>max_rw\<close> is the most that Linux transfers in one call; a request of more is out of
  the range of the 32-bit field that carries it. \<open>read_to_end\<close> has fuel: a loop over a file
  of \<open>n\<close> bytes ends within \<open>n + 1\<close> reads. \<open>PATH_MAX\<close> is Linux's, and a name or address that
  overruns a buffer of this size is undefined behaviour (\<open>ports_name_fits\<close>, \<open>address_ok\<close>).
  \<open>fd_limit\<close> of a node's disk bounds the descriptors a server can hold, and an open beyond it
  fails. No other definition has fuel.

  \<^bold>\<open>Not modelled.\<close> Data races on the client's other tables (\<open>fd_map\<close>, \<open>address_cache\<close>) between its
  threads, beyond that on \<open>fd_redir_map\<close> (\<open>Threads\<close>) and those of the daemon (\<open>Queue_Lock\<close>), small
  allocations that fail (\<open>malloc\<close> of the structures passed to callbacks), the calls that set
  log4c up, the text of log messages, and everything inside Mercury, log4c, MPI and the C library,
  which are parameters. The files that are read and copied are regular ones: what \<open>fs::copy\<close> makes
  of a directory that a program opens and closes is left out. A server that has stopped gives no
  answer; where the transport notices and reports an error instead, an assertion in the callback
  of an open or a read ends the client. The descriptor of the address file, which the client never
  closes, is not counted. Files of the data directory do not change while the job runs, and the
  child of the test program's \<open>fork\<close>, which prints a line and ends, is not followed. The build
  modelled is that of \<open>src/CMakeLists.txt\<close>:
  \<open>HVAC_PRELOAD\<close> with one of \<open>HVAC_CLIENT\<close> and \<open>HVAC_SERVER\<close>. \<open>src/hvac.cpp\<close> is empty. Of
  \<open>hvac_comm_old.cpp\<close>, which is in no build target, the start that the file gives first is
  modelled and not the one it comments out. The generated files under \<open>build\<close> are left out.
\<close>

unbundle bit_operations_syntax

section \<open>Reading through the cache\<close>

text \<open>
  C1. A job from nothing. The environment gives the daemon its variables and its arguments,
  and the client its variables, the same job, a data directory and a Mercury that hashes names
  as the daemon's does; the shared file system shows the client the file that the daemon
  writes; the hash of the file's path chooses this daemon. Then \<open>main\<close> of the daemon, the
  client library's constructor, the first intercepted \<open>open\<close> and a read loop succeed one after
  the other, and the loop returns the bytes of the file on the daemon's node.
\<close>

theorem job_from_scratch:
  assumes "server_env_ok senv ge" and "fds_ok ps" and "2 \<le> length argv" and "0 \<le> sint spid"
    and "sint spid < 100000" and "ge ''PMI_RANK'' = Some rank" and "ge ''SLURM_JOBID'' = Some job"
    and "client_site_ok (deployed e dt lf) job n a (atoi rank) (hg_self_addr senv) w path c"
    and "hg_register (hgenv (deployed e dt lf)) = hg_register senv"
    and "real_open (deployed e dt lf) path flags (if flags AND O_CREAT \<noteq> 0 then md else 0) w0 = (fd, w)"
    and "fd \<noteq> -1" and "readable_flags flags" and "bytes_at ps c = Some b"
    and "posix_open ps c = (rfd, ps')" and "rfd \<noteq> -1" and "0 < k" and "k \<le> max_rw" and "length b < fuel"
  shows "\<exists>s cfg. server_main senv ge notice rc spid True True argv (server_boot ps) (\<lambda>_. []) = Inr (s, cfg) \<and>
    (read_config (deployed e dt lf) w (ports_cfg_name job) = Some (cfg (ports_cfg_name job)) \<longrightarrow>
      (\<exists>p1 p2 p3. hvac_client_init (deployed e dt lf) (client_boot w0 [a \<mapsto> s]) = Inr p1 \<and>
        wrap_open (deployed e dt lf) path flags md p1 = Inr (fd, p2) \<and>
        read_to_end (hvac_read (deployed e dt lf) fd) k fuel p2 = Some (b, p3)))"
proof -
  let ?E = "deployed e dt lf"
  obtain s cfg where s: "server_main senv ge notice rc spid True True argv (server_boot ps) (\<lambda>_. []) = Inr (s, cfg)"
    "cfg (ports_cfg_name job) = ports_line (atoi rank) (hg_self_addr senv)"
    "server_started s" "dispatch_ok senv (registry s)" "disk s = ps"
    using server_main_starts [OF assms(1-5), of notice rc "\<lambda>_. []"] assms(6,7) by auto
  have "\<exists>p1 p2 p3. hvac_client_init ?E (client_boot w0 [a \<mapsto> s]) = Inr p1 \<and>
      wrap_open ?E path flags md p1 = Inr (fd, p2) \<and> read_to_end (hvac_read ?E fd) k fuel p2 = Some (b, p3)"
    if cfg: "read_config ?E w (ports_cfg_name job) = Some (cfg (ports_cfg_name job))"
  proof -
    obtain p where p: "hvac_client_init ?E (client_boot w0 [a \<mapsto> s]) = Inr p" "\<not> redirect_off p" "os p = w0"
      "open_ready ?E (warm ?E (p\<lparr>os := w\<rparr>)) w path c a s"
      "registry s (hvac_client_rpc_id (warm ?E (p\<lparr>os := w\<rparr>))) = Some K_read"
      "registry s (hvac_client_seek_id (warm ?E (p\<lparr>os := w\<rparr>))) = Some K_seek"
      using client_ready_after_init [OF assms(8) cfg [unfolded s(2)] s(4) assms(9), of "[a \<mapsto> s]" w0] by auto
    have "bytes_at (disk s) c = Some b" "posix_open (disk s) (redirected s c) = (rfd, ps')"
      using assms(13,14) s(3,5) by (simp_all add: redirected_def server_started_def)
    from cold_open_tracked [OF _ p(4,2) assms(12) _ assms(11) server_started_ok [OF s(3)] p(5,6) this assms(15)]
      assms(8,10) p(3)
    obtain p2 where p2: "wrap_open ?E path flags md p = Inr (fd, p2)" "tracked_view ?E p2 fd = Some (b, 0)"
      by (auto simp: client_site_ok_def)
    with hvac_file.read_to_end_law [OF p2(2), of k fuel] assms(16-18) p(1) show ?thesis by auto
  qed
  with s(1) show ?thesis by blast
qed

theorem job_from_scratch_witness:
  "\<exists>s cfg p1 p2 p3.
    server_main ex_hg ex_getenv 500 0 42 True True [''hvac_server'', ''1''] (server_boot ex_disk) (\<lambda>_. []) = Inr (s, cfg) \<and>
    hvac_client_init ex_cenv (client_boot () [''s'' \<mapsto> s]) = Inr p1 \<and>
    wrap_open ex_cenv ex_path O_RDONLY 0 p1 = Inr (5, p2) \<and>
    read_to_end (hvac_read ex_cenv 5) 2 4 p2 = Some ([10, 20, 30], p3)"
proof -
  have zero: "atoi ''0'' = 0" and one: "atoi ''1'' = 1" by code_simp+
  have thread: "hg_thread_create ex_hg" by (simp add: ex_hg_def)
  have site: "client_site_ok ex_cenv ''7'' ''1'' ''s'' (atoi ''0'') ''s'' () ex_path ex_path"
    using ex_in_data_dir thread
    by (simp add: client_site_ok_def client_env_ok_def ex_ids ex_getenv_def zero one address_ok_def is_space_def
        to_int_def)
  have cfg: "read_config ex_cenv () (ports_cfg_name ''7'') = Some (ports_line (atoi ''0'') ''s'')"
    by (simp add: zero ports_file_def)
  obtain s cfg where s: "server_main ex_hg ex_getenv 500 0 42 True True [''hvac_server'', ''1'']
      (server_boot ex_disk) (\<lambda>_. []) = Inr (s, cfg)"
    "cfg (ports_cfg_name ''7'') = ports_line (atoi ''0'') ''s''"
    using server_main_starts [of ex_hg ex_getenv ex_disk "[''hvac_server'', ''1'']" 42 500 0 "\<lambda>_. []"] ex_server_env
    by (auto simp: ex_getenv_def ex_hg_def)
  have "read_config ex_cenv () (ports_cfg_name ''7'') = Some (cfg (ports_cfg_name ''7''))"
    using cfg s(2) by simp
  with job_from_scratch [of ex_hg ex_getenv ex_disk "[''hvac_server'', ''1'']" 42 "''0''" "''7''" ex_cenv 1 True
      "''1''" "''s''" "()" ex_path ex_path O_RDONLY 0 "()" 5 ex_bytes 0
      "ex_disk\<lparr>fdtab := [0 \<mapsto> \<lparr>of_path = ex_path, of_pos = 0\<rparr>]\<rparr>" 2 4 500 0] site s(1) ex_server_env
  show ?thesis
    by (simp add: ex_posix_open ex_bytes_def max_rw_def ex_getenv_def ex_hg_def)
qed

text \<open>
  C2. In every state that a job of any number of clients can reach, by their calls, their
  starts and ends, and the steps of the servers' movers: a read of a tracked descriptor that
  its server holds returns the next bytes of the file the descriptor was opened for, which are
  the bytes the file had when the job started, and no other descriptor of any client, as far
  as it can be read, is moved by it.
\<close>

theorem job_reads_files:
  assumes "job_reach es dt lf w0 J"
    and "tracked_view (deployed (es i) dt lf) (client_of J i) fd = Some (b, pos)" and "m \<le> max_rw"
  shows "\<exists>p a s s0 c. hvac_read (deployed (es i) dt lf) fd (client_of J i) m = Some (take m (drop pos b), p) \<and>
    tracked_view (deployed (es i) dt lf) p fd = Some (b, pos + length (take m (drop pos b))) \<and>
    fd_map (procs J i) fd = Some c \<and> world J a = Some s \<and> w0 a = Some s0 \<and>
    (c = [] \<or> bytes_at (disk s) c = Some b \<and> (\<forall>b0. bytes_at (disk s0) c = Some b0 \<longrightarrow> b = b0)) \<and>
    (\<forall>j fd' v. (j, fd') \<noteq> (i, fd) \<longrightarrow> tracked_view (deployed (es j) dt lf) (client_of J j) fd' = Some v \<longrightarrow>
      tracked_view (deployed (es j) dt lf)
        (client_of (J\<lparr>world := net p, procs := (procs J)(i := p)\<rparr>) j) fd' = Some v)"
proof -
  have ok: "job_ok es dt lf w0 J" using assms(1) by (rule job.reach_inv)
  obtain a s s0 c where v: "world J a = Some s" "fd_map (procs J i) fd = Some c" "w0 a = Some s0"
    "c = [] \<or> bytes_at (disk s) c = Some b \<and> (\<forall>b0. bytes_at (disk s0) c = Some b0 \<longrightarrow> b = b0)"
    using job_view_bytes [OF ok assms(2)] by blast
  obtain p where "hvac_read (deployed (es i) dt lf) fd (client_of J i) m = Some (take m (drop pos b), p)"
    "tracked_view (deployed (es i) dt lf) p fd = Some (b, pos + length (take m (drop pos b)))"
    "\<forall>j fd' v. (j, fd') \<noteq> (i, fd) \<longrightarrow> tracked_view (deployed (es j) dt lf) (client_of J j) fd' = Some v \<longrightarrow>
      tracked_view (deployed (es j) dt lf)
        (client_of (J\<lparr>world := net p, procs := (procs J)(i := p)\<rparr>) j) fd' = Some v"
    using job_read_alone [OF ok assms(2,3)] by blast
  with v show ?thesis by blast
qed

theorem job_reads_files_witness:
  "\<exists>p c. hvac_read ex_env 5 (client_of ex_job 0) 2 = Some (take 2 (drop 0 ex_bytes), p) \<and>
    fd_map (procs ex_job 0) 5 = Some c"
  using job_reads_files [OF ex_job_reach, of 0 5 ex_bytes 0 2] ex_opened_facts
  by (auto simp: ex_job_client max_rw_def)

text \<open>
  C3. The reads of one client, whatever the other clients and the movers do between them as
  long as no server stops, return the file's bytes in order: what all of them got, put
  together, is what one read of the total size would have got, and the descriptor's position
  has moved by exactly these bytes.
\<close>

theorem interleaved_reads:
  assumes "job_reach es dt lf w0 J"
    and "tracked_view (deployed (es i) dt lf) (client_of J i) fd = Some (b, pos)"
    and "read_run es dt lf i fd J ds J'"
  shows "concat (map snd ds) = take (sum_list (map fst ds)) (drop pos b) \<and>
    tracked_view (deployed (es i) dt lf) (client_of J' i) fd = Some (b, pos + length (concat (map snd ds)))"
  using read_run_bytes [OF assms(3) job.reach_inv [OF assms(1)] assms(2)] .

theorem interleaved_reads_witness:
  "\<exists>d1 d2 J'. read_run (\<lambda>_. ex_cenv) 1 True 0 5 ex_job [(1, d1), (2, d2)] J' \<and> d1 @ d2 = [10, 20, 30]"
proof -
  obtain d1 d2 J' where r: "read_run (\<lambda>_. ex_cenv) 1 True 0 5 ex_job [(1, d1), (2, d2)] J'"
    using ex_job_run by blast
  from interleaved_reads [OF ex_job_reach _ r, of ex_bytes 0] ex_opened_facts
  have "d1 @ d2 = ex_bytes" by (simp add: ex_job_client ex_bytes_def)
  with r show ?thesis by (auto simp: ex_bytes_def)
qed

text \<open>
  C4. A file opened through the intercepted \<open>open\<close> and read in a loop until a read returns
  nothing gives exactly the bytes the server has under the file's canonical path, whether the
  server opens the file itself or a copy that its data mover has recorded.
\<close>

theorem session_reads_file:
  assumes "open_ready (deployed e dt lf) p w path c a s" and "readable_flags flags"
    and "real_open (deployed e dt lf) path flags (if flags AND O_CREAT \<noteq> 0 then md else 0) (os p) = (fd, w)"
    and "fd \<noteq> -1" and "server_ok s" and "registry s (hvac_client_rpc_id p) = Some K_read"
    and "registry s (hvac_client_seek_id p) = Some K_seek"
    and "bytes_at (disk s) c = Some b" and "posix_open (disk s) (redirected s c) = (rfd, ps)" and "rfd \<noteq> -1"
    and "0 < k" and "k \<le> max_rw" and "length b < fuel"
  shows "\<exists>p1 p2. wrap_open (deployed e dt lf) path flags md p = Inr (fd, p1) \<and>
    read_to_end (hvac_read (deployed e dt lf) fd) k fuel p1 = Some (b, p2)"
proof -
  obtain p1 where "wrap_open (deployed e dt lf) path flags md p = Inr (fd, p1)"
    and "tracked_view (deployed e dt lf) p1 fd = Some (b, 0)"
    using wrap_open_tracked [OF assms(1-10)] by blast
  with hvac_file.read_to_end_law [of e dt lf p1 fd b 0 k fuel] assms(11-13) show ?thesis by auto
qed

theorem session_reads_file_witness:
  "\<exists>p1 p2. wrap_open ex_env ex_path O_RDONLY 0 ex_client = Inr (5, p1) \<and>
    read_to_end (hvac_read ex_env 5) 2 4 p1 = Some ([10, 20, 30], p2)"
  using session_reads_file [of ex_cenv 1 True ex_client "()" ex_path ex_path "''s''" ex_server O_RDONLY
      0 5 ex_bytes 0 "ex_disk\<lparr>fdtab := [0 \<mapsto> \<lparr>of_path = ex_path, of_pos = 0\<rparr>]\<rparr>" 2 4]
  by (simp add: ex_posix_open ex_bytes_def max_rw_def)

text \<open>
  C5. The life of a cached file: a first session opens the file, reads it to its end and
  closes it; the data mover, woken by the close, copies it; a second session reads the same
  bytes, and its descriptor on the server is open on the copy.
\<close>

theorem second_session_reads_copy:
  assumes "open_ready (deployed e dt lf) p w path c a s" and "readable_flags flags"
    and "real_open (deployed e dt lf) path flags (if flags AND O_CREAT \<noteq> 0 then md else 0) (os p) = (fd, w)"
    and "fd \<noteq> -1" and "real_close (deployed e dt lf) fd w = (ret, w1)"
    and "server_ok s" and "registry s (hvac_client_rpc_id p) = Some K_read"
    and "registry s (hvac_client_seek_id p) = Some K_seek" and "registry s (hvac_client_close_id p) = Some K_close"
    and "bytes_at (disk s) c = Some b" and "posix_open (disk s) c = (rfd, ps)" and "rfd \<noteq> -1"
    and "0 < k" and "k \<le> max_rw" and "length b < fuel"
    and "mover s = Mover_waiting" and "data_queue s = []" and "path_cache_map s c = None"
    and "nodes (disk s) (resolve (disk s) d) = None"
    and "nodes (disk s) (resolve (disk s) (d @ ''/'' @ filename c)) = None"
    and "resolve (disk s) d \<noteq> resolve (disk s) (d @ ''/'' @ filename c)"
    and "openable (disk s) (resolve (disk s) (d @ ''/'' @ filename c))"
    and "real_open (deployed e dt lf) path flags (if flags AND O_CREAT \<noteq> 0 then md else 0) w1 = (fd', w2)"
    and "fd' \<noteq> -1" and "in_data_dir (deployed e dt lf) w2 (hvac_data_dir p) path c"
  shows "\<exists>p1 p2 p3 s3 p4 p5 s5 rfd'. wrap_open (deployed e dt lf) path flags md p = Inr (fd, p1) \<and>
    read_to_end (hvac_read (deployed e dt lf) fd) k fuel p1 = Some (b, p2) \<and>
    wrap_close (deployed e dt lf) fd p2 = Inr (ret, p3) \<and> net p3 a = Some s3 \<and>
    wrap_open (deployed e dt lf) path flags md
      (p3\<lparr>net := (net p3)(a \<mapsto> mover_copy_one (Some d) True (mover_wake s3))\<rparr>) = Inr (fd', p4) \<and>
    read_to_end (hvac_read (deployed e dt lf) fd') k fuel p4 = Some (b, p5) \<and>
    remote_end (deployed e dt lf) p4 fd' = Some (a, rfd') \<and> net p4 a = Some s5 \<and>
    map_option of_path (fdtab (disk s5) rfd') = Some (resolve (disk s) (d @ ''/'' @ filename c))"
proof -
  let ?E = "deployed e dt lf"
  have "posix_open (disk s) (redirected s c) = (rfd, ps)" using assms(11,18) by (simp add: redirected_def)
  from session_served [OF assms(1-10) this assms(12-15)] obtain p1 p2 p3 s3 where
    one: "wrap_open ?E path flags md p = Inr (fd, p1)" "read_to_end (hvac_read ?E fd) k fuel p1 = Some (b, p2)"
      "wrap_close ?E fd p2 = Inr (ret, p3)" "net p3 a = Some s3"
    and p3: "os p3 = w1" "served c s s3" "same_ids p p3" "pending p3 = []" "\<not> redirect_off p3" "knows ?E p3 c a"
    by blast
  define t where "t = mover_copy_one (Some d) True (mover_wake s3)"
  define q where "q = p3\<lparr>net := (net p3)(a \<mapsto> t)\<rparr>"
  have t: "server_ok t" "registry t = registry s" "bytes_at (disk t) c = Some b"
    "posix_open (disk t) (redirected t c) = (rfd, (disk t)\<lparr>fdtab := (fdtab (disk t))
      (rfd \<mapsto> \<lparr>of_path = resolve (disk s) (d @ ''/'' @ filename c), of_pos = 0\<rparr>)\<rparr>)"
    using served_then_copied [OF p3(2) assms(16,17,18,10,11,12,19-22)] unfolding t_def by simp_all
  have ready2: "open_ready ?E q w2 path c a t"
    unfolding q_def by (rule knows_open_ready)
      (use p3 assms(1,25) t(2) in \<open>simp_all add: open_ready_def same_ids_def\<close>)
  have real2: "real_open ?E path flags (if flags AND O_CREAT \<noteq> 0 then md else 0) (os q) = (fd', w2)"
    using assms(23) p3(1) by (simp add: q_def)
  have ids: "registry t (hvac_client_rpc_id q) = Some K_read" "registry t (hvac_client_seek_id q) = Some K_seek"
    using assms(7,8) t(2) p3(3) by (simp_all add: q_def same_ids_def)
  obtain p4 s5 where p4: "wrap_open ?E path flags md q = Inr (fd', p4)"
    "tracked_view ?E p4 fd' = Some (b, 0)" "remote_end ?E p4 fd' = Some (a, rfd)" "net p4 = (net q)(a \<mapsto> s5)"
    "opened_by c rfd ((disk t)\<lparr>fdtab := (fdtab (disk t))
      (rfd \<mapsto> \<lparr>of_path = resolve (disk s) (d @ ''/'' @ filename c), of_pos = 0\<rparr>)\<rparr>) t s5"
    using wrap_open_tracked [OF ready2 assms(2) real2 assms(24) t(1) ids t(3,4) assms(12)] by blast
  obtain p5 where "read_to_end (hvac_read ?E fd') k fuel p4 = Some (b, p5)"
    using hvac_file.read_to_end_law [of e dt lf p4 fd' b 0 k fuel] p4(2) assms(13-15) by auto
  with one p4 show ?thesis
    unfolding q_def t_def
    by (intro exI [of _ p1] exI [of _ p2] exI [of _ p3] exI [of _ s3] exI [of _ p4] exI [of _ p5] exI [of _ s5]
        exI [of _ rfd]) (simp add: opened_by_def)
qed

theorem second_session_reads_copy_witness:
  "\<exists>p1 p2 p3 s3 p4 p5. wrap_open ex_env ex_path O_RDONLY 0 ex_client = Inr (5, p1) \<and>
    read_to_end (hvac_read ex_env 5) 2 4 p1 = Some ([10, 20, 30], p2) \<and>
    wrap_close ex_env 5 p2 = Inr (0, p3) \<and> net p3 ''s'' = Some s3 \<and>
    wrap_open ex_env ex_path O_RDONLY 0
      (p3\<lparr>net := (net p3)(''s'' \<mapsto> mover_copy_one (Some ''/bb/x'') True (mover_wake s3))\<rparr>) = Inr (5, p4) \<and>
    read_to_end (hvac_read ex_env 5) 2 4 p4 = Some ([10, 20, 30], p5)"
proof -
  have f: "filename ex_path = ''f''" unfolding ex_path_def by code_simp
  have "ex_path \<noteq> ''/bb/x''" and "ex_path \<noteq> ''/bb/x/f''" by (simp_all add: ex_path_def)
  with second_session_reads_copy [of ex_cenv 1 True ex_client "()" ex_path ex_path "''s''" ex_server O_RDONLY
      0 5 0 "()" ex_bytes 0 "ex_disk\<lparr>fdtab := [0 \<mapsto> \<lparr>of_path = ex_path, of_pos = 0\<rparr>]\<rparr>" 2 4 "''/bb/x''" 5 "()"]
    f ex_in_data_dir
  show ?thesis by (simp add: ex_posix_open ex_bytes_def max_rw_def) blast
qed

text \<open>
  C6. The test program of the repository, \<open>basic_test.c\<close>, from the constructor of the library
  on: it writes its file, and then opens it, reads it into its buffer, prints the buffer and
  closes the file, in one loop before its \<open>fork\<close> and in one after it. The file it writes is not
  tracked, so the open of its first round starts Mercury. If the writes succeed and the server
  that the hash chooses then has the bytes they wrote, the program prints the line it has
  written in every round, whatever the mover and other clients do to the node between the
  rounds, as long as a descriptor is left there and the file can be opened by the program.
  \<open>test_main\<close> makes one round in each loop, and \<open>test_file_read\<close> any number.
\<close>

theorem test_program_reads:
  fixes e :: "('o, string, cluster) cenv" and dt :: i64 and lf :: bool
  defines "E \<equiv> deployed e dt lf"
  assumes site: "\<forall>w. I w \<longrightarrow> client_site_ok E job n a rank str w (test_file_name pid 0) c \<and>
      read_config E w (ports_cfg_name job) = Some (ports_line rank str)"
    and there: "test_file_there E (getenv E ''HVAC_DATA_DIR'') (test_file_name pid 0) c I"
    and wr: "real_open E (test_file_name pid 0) (O_WRONLY OR O_CREAT OR O_TRUNC) 0x1A4 w0 = (fd, w1)" "fd \<noteq> -1"
      "real_write E fd (Some (test_file_bytes 0 buf1)) 4096 w1 = (r, w2)" "real_close E fd w2 = (rc, w3)" "I w3"
    and server: "m1 ws a = Some s" "server_ok s" "bytes_at (disk s) c = Some (test_file_bytes 0 buf1)"
      "can_open s c" "dispatch_ok senv (registry s)" "hg_register (hgenv E) = hg_register senv"
    and moves: "\<forall>m \<in> set (ms1 @ ms2). keeps_serving a c m" "keeps_serving a c m2"
    and bufs: "length buf1 = 4096" "length buf2 = 4096"
  shows "\<exists>p p1. hvac_client_init E (client_boot w0 ws) = Inr p \<and> generate_files E pid [0] buf1 p = Inr p1 \<and>
    (\<exists>q. test_file_read E pid (m1 # ms1) ms2 buf2 p1
      = Inr (replicate (Suc (length (ms1 @ ms2))) (map of_char (test_text 0)), q)) \<and>
    (\<exists>q. test_main E real_unlink pid m1 m2 buf1 buf2 p = Inr (replicate 2 (map of_char (test_text 0)), q))"
proof -
  let ?b = "test_file_bytes 0 buf1"
  note start = site [rule_format, OF wr(5)]
  obtain p where p: "hvac_client_init E (client_boot w0 ws) = Inr p" "\<not> redirect_off p" "os p = w0"
    "fd_map p fd = None" "net p = ws" "hvac_data_dir p = getenv E ''HVAC_DATA_DIR''" "client_env_ok E"
    using client_init_starts [of E n w0 ws] start
    by (auto simp: client_site_ok_def redirect_off_def client_boot_def)
  have gen: "generate_files E pid [0] buf1 p = Inr (p\<lparr>os := w3\<rparr>)"
    by (rule generate_file_writes [OF p(2) _ p(4) wr(2) _ wr(3,4)]) (use wr(1) p(3) in \<open>simp_all add: E_def\<close>)
  have over: "overlay (take 4096 ?b) buf2 = ?b"
    using test_file_bytes_first(1) [OF bufs(1)] bufs(2) by (simp add: overlay_def)
  have round: "between_rounds E (getenv E ''HVAC_DATA_DIR'') c a ?b I
      (warm E ((p\<lparr>os := w3\<rparr>)\<lparr>net := m1 (net (p\<lparr>os := w3\<rparr>))\<rparr>))"
    using boot_between_rounds [of I e dt lf job n a rank str "test_file_name pid 0" c "m1 ws" s ?b senv w0 ws p w3]
      site server p(1,5) wr(5) unfolding E_def by simp
  have any: "\<exists>q. test_file_read E pid (m1 # ms1) ms2 buf2 (p\<lparr>os := w3\<rparr>)
      = Inr (replicate (Suc (length (ms1 @ ms2))) (map of_char (test_text 0)), q)"
    if "\<forall>m \<in> set (ms1 @ ms2). keeps_serving a c m" for ms1 ms2
    using test_rounds_from_start [of e dt lf "p\<lparr>os := w3\<rparr>" "getenv E ''HVAC_DATA_DIR''" I pid c a ?b m1 ms1 ms2 buf2]
      that p(2,6,7) wr(5) there round test_file_bytes_first(2,3) [OF bufs(1)]
    unfolding E_def over by (auto simp: redirect_off_def)
  from any [OF moves(1)] any [of "[]" "[m2]"] moves(2) p(1) gen show ?thesis
    by (auto simp: test_main_def numeral_2_eq_2)
qed

theorem test_program_reads_witness:
  "\<exists>p q. hvac_client_init ex_test_cenv (client_boot False [''s'' \<mapsto> ex_server]) = Inr p \<and>
    test_main ex_test_cenv (\<lambda>_ _. False) 77 (\<lambda>_. [''s'' \<mapsto> ex_test_server]) (wake_mover ''s'') ex_test_buf
      (replicate 4096 9) p = Inr ([map of_char (test_text 0), map of_char (test_text 0)], q)"
proof -
  have "\<exists>p p1. hvac_client_init ex_test_cenv (client_boot False [''s'' \<mapsto> ex_server]) = Inr p \<and>
      generate_files ex_test_cenv 77 [0] ex_test_buf p = Inr p1 \<and>
      (\<exists>q. test_file_read ex_test_cenv 77 [\<lambda>_. [''s'' \<mapsto> ex_test_server]] [] (replicate 4096 9) p1
        = Inr (replicate (Suc (length ([] @ [] :: (cluster \<Rightarrow> cluster) list))) (map of_char (test_text 0)), q)) \<and>
      (\<exists>q. test_main ex_test_cenv (\<lambda>_ _. False) 77 (\<lambda>_. [''s'' \<mapsto> ex_test_server]) (wake_mover ''s'') ex_test_buf
        (replicate 4096 9) p = Inr (replicate 2 (map of_char (test_text 0)), q))"
    by (rule test_program_reads [of "\<lambda>w. w" ex_test_cenv 1 True, unfolded ex_test_env,
        where job = "''7''" and n = "''1''" and a = "''s''" and rank = 0 and str = "''s''" and c = ex_test_file
        and fd = 5 and ?w1.0 = True and ?w2.0 = True and ?w3.0 = True and r = 4096 and rc = 0
        and s = ex_test_server and senv = ex_hg])
      (use ex_test_site ex_test_file_there ex_test_server_facts ex_keeps_serving in \<open>simp_all add: ex_test_calls\<close>)
  then show ?thesis by (auto simp: numeral_2_eq_2 simp del: generate_files.simps)
qed

text \<open>
  C7. To each client the rest of the job is what \<open>sys_step\<close> says of it: a step of the job in
  which the client does not end is, seen from the client, a run of the system of one client,
  its servers' movers and foreign requests. The library in the other processes never sends a
  request about an open descriptor of this one.
\<close>

theorem client_sees_system:
  assumes "job_reach es dt lf w0 J" and "job_step es dt lf act J J'" and "act \<noteq> Exits i"
  shows "(sys_step (es i) dt lf)\<^sup>*\<^sup>* (client_of J i) (client_of J' i) \<and>
    linked (deployed (es i) dt lf) (client_of J' i)"
proof -
  have ok: "job_ok es dt lf w0 J" using assms(1) by (rule job.reach_inv)
  from job_step_seen [OF this assms(2,3)] linked_steps [OF job_ok_parts(1) [OF ok]] show ?thesis by blast
qed

theorem client_sees_system_witness:
  "\<exists>J'. job_step (\<lambda>_. ex_cenv) 1 True (Call 0) ex_job J' \<and>
    (sys_step ex_cenv 1 True)\<^sup>*\<^sup>* (client_of ex_job 1) (client_of J' 1)"
proof -
  obtain J' where j: "job_step (\<lambda>_. ex_cenv) 1 True (Call 0) ex_job J'"
    using ex_job_reads by blast
  with client_sees_system [OF ex_job_reach j, of 1] show ?thesis by auto
qed

text \<open>
  C8. The representation of a client: in every reachable state a descriptor is tracked in
  \<open>fd_map\<close> exactly when \<open>fd_redir_map\<close> has an entry for it and exactly when the chain from its
  path over the server's number and address to the remote descriptor is complete, and no
  callback is left to run between two calls.
\<close>

theorem tables_agree_reachable:
  assumes "reach sys_start (sys_step e dt lf) p"
  shows "dom (fd_redir_map p) = dom (fd_map p) \<and>
    {fd. remote_end (deployed e dt lf) p fd \<noteq> None} = dom (fd_map p) \<and> pending p = [] \<and>
    (g_hvac_server_count p = 0 \<longrightarrow> fd_map p = (\<lambda>_. None))"
proof -
  have inv: "linked (deployed e dt lf) p" "tables_agree p" using tables.reach_inv [OF assms] by simp_all
  have "fd_map p fd \<noteq> None \<longleftrightarrow> remote_end (deployed e dt lf) p fd \<noteq> None" for fd
    using linked_parts(3) [OF inv(1), of fd] by (auto dest: remote_end_SomeD)
  moreover have "remote_end (deployed e dt lf) p fd = None" if "g_hvac_server_count p = 0" for fd
    using that by (simp add: remote_end_def)
  ultimately show ?thesis using inv(2) linked_parts(2) [OF inv(1)] by (auto simp: tables_agree_def dom_def)
qed

theorem tables_agree_reachable_witness:
  "dom (fd_redir_map ex_opened) = dom (fd_map ex_opened)"
  using tables_agree_reachable [OF ex_opened_reach] by blast

text \<open>
  C9. Any sequence of reads of at most \<open>max_rw\<close> bytes each on a tracked descriptor gives the
  application the same bytes as the same reads on a local descriptor of the same content at the same position.
\<close>

theorem remote_reads_as_local:
  assumes "tracked_view (deployed e dt lf) p fd = Some (b, pos)" and "fd_view ps fd' = Some (b, pos)"
    and "\<forall>n \<in> set ns. n \<le> max_rw"
  shows "map_option fst (read_chunks (hvac_read (deployed e dt lf) fd) p ns)
    = map_option fst (read_chunks (local_read fd') ps ns)"
  using hvac_file.read_chunks_law [OF assms(1,3)] local_file.read_chunks_law [OF assms(2,3)] by auto

theorem remote_reads_as_local_witness:
  "map_option fst (read_chunks (hvac_read ex_env 5) ex_opened [1, 7])
    = map_option fst (read_chunks (local_read 0)
        (ex_disk\<lparr>fdtab := [0 \<mapsto> \<lparr>of_path = ex_path, of_pos = 0\<rparr>]\<rparr>) [1, 7])"
  using remote_reads_as_local [of ex_cenv 1 True ex_opened 5 ex_bytes 0
      "ex_disk\<lparr>fdtab := [0 \<mapsto> \<lparr>of_path = ex_path, of_pos = 0\<rparr>]\<rparr>" 0 "[1, 7]"] ex_opened_facts
  by (auto simp: fd_view_def file_bytes_def max_rw_def)

text \<open>
  C10. \<open>pread\<close> on a tracked descriptor gives the bytes at its offset, for a count of at most
  \<open>max_rw\<close> and any offset an \<open>off_t\<close> can hold, and leaves the position of the descriptor where it
  was. For an offset of at most \<open>max_rw\<close>, just under 2 GiB, these are the bytes that a seek and a
  read would give. The bound is needed: further out \<open>lseek\<close> cuts the offset to an \<open>int\<close> (C30),
  which \<open>pread\<close> does not.
\<close>

theorem pread_as_seek_read:
  assumes "tracked_view (deployed e dt lf) p fd = Some (b, pos)" and "n \<le> max_rw" and "q < 2 ^ 63"
  shows "(\<exists>p3. hvac_pread (deployed e dt lf) fd p n q = Some (take n (drop q b), p3) \<and>
      tracked_view (deployed e dt lf) p3 fd = Some (b, pos)) \<and>
    (q \<le> max_rw \<longrightarrow> (\<exists>p1 p2 p3. hvac_seek (deployed e dt lf) fd p q = Some (q, p1) \<and>
      hvac_read (deployed e dt lf) fd p1 n = Some (take n (drop q b), p2) \<and>
      hvac_pread (deployed e dt lf) fd p n q = Some (take n (drop q b), p3) \<and>
      tracked_view (deployed e dt lf) p3 fd = Some (b, pos)))"
  using hvac_file.pread_is_seek_read [OF assms(1,2)] hvac_pread_view [OF assms] by blast

theorem pread_as_seek_read_witness:
  "\<exists>p1 p2 p3. hvac_seek ex_env 5 ex_opened 1 = Some (1, p1) \<and>
    hvac_read ex_env 5 p1 9 = Some ([20, 30], p2) \<and>
    hvac_pread ex_env 5 ex_opened 9 1 = Some ([20, 30], p3) \<and>
    tracked_view ex_env p3 5 = Some (ex_bytes, 0)"
  using pread_as_seek_read [of ex_cenv 1 True ex_opened 5 ex_bytes 0 9 1] ex_opened_facts
  by (auto simp: max_rw_def ex_bytes_def)

text \<open>
  C11. \<open>lseek\<close> on a tracked descriptor, from the start, the current position or the end,
  returns the new position and moves the remote descriptor there, as long as the offset and
  the new position fit 32 bits.
\<close>

theorem lseek_moves:
  assumes "tracked_view (deployed e dt lf) p fd = Some (b, pos)"
    and "seek_base b pos wh = Some v" and "- (2 ^ 31) \<le> sint off" and "sint off < 2 ^ 31"
    and "0 \<le> v + sint off" and "v + sint off < 2 ^ 31"
  shows "\<exists>p'. wrap_lseek (deployed e dt lf) fd off wh p = Inr (word_of_int (v + sint off), p') \<and>
    tracked_view (deployed e dt lf) p' fd = Some (b, nat (v + sint off))"
  using wrap_lseek_tracked [OF assms] by blast

theorem lseek_moves_witness:
  "\<exists>p'. wrap_lseek ex_env 5 (-2) SEEK_END ex_opened = Inr (word_of_int (3 + sint (-2 :: i64)), p') \<and>
    tracked_view ex_env p' 5 = Some (ex_bytes, nat (3 + sint (-2 :: i64)))"
  by (rule lseek_moves [where b = ex_bytes and pos = 0])
    (use ex_opened_facts in \<open>auto simp: seek_base_def whence_defs ex_bytes_def\<close>)

section \<open>Closing and caching\<close>

text \<open>
  C12. Closing a tracked descriptor untracks it, closes it on its server and on the local
  system, and queues its file for the data mover exactly when the file is not cached yet,
  waking the mover if it waits. No other descriptor's entries change.
\<close>

theorem close_tracked:
  assumes "\<not> redirect_off p" and "remote_end (deployed e dt lf) p fd = Some (a, rfd)"
    and "net p a = Some s" and "registry s (hvac_client_close_id p) = Some K_close"
    and "fdtab (disk s) rfd \<noteq> None" and "fd_to_path s rfd = Some c"
    and "real_close (deployed e dt lf) fd (os p) = (ret, w)"
  shows "\<exists>p' s'. wrap_close (deployed e dt lf) fd p = Inr (ret, p') \<and> os p' = w \<and> net p' = (net p)(a \<mapsto> s') \<and>
    \<not> hvac_file_tracked p' fd \<and> fd_redir_map p' fd = None \<and>
    (\<forall>fd'. fd' \<noteq> fd \<longrightarrow> fd_map p' fd' = fd_map p fd' \<and> fd_redir_map p' fd' = fd_redir_map p fd') \<and>
    fdtab (disk s') rfd = None \<and> fd_to_path s' rfd = None \<and>
    data_queue s' = data_queue s @ (if path_cache_map s c = None then [c] else []) \<and>
    mover s' = (if path_cache_map s c = None \<and> mover s = Mover_waiting then Mover_woken else mover s)"
  using wrap_close_tracked [OF assms] by blast

theorem close_tracked_witness:
  "\<exists>p' s'. wrap_close ex_env 5 ex_opened = Inr (0, p') \<and> net p' = (net ex_opened)(''s'' \<mapsto> s') \<and>
    \<not> hvac_file_tracked p' 5 \<and> fdtab (disk s') 0 = None"
proof -
  have "\<not> redirect_off ex_opened" using ex_opened_ready by (simp add: open_ready_def)
  with close_tracked [of ex_opened ex_cenv 1 True 5 "''s''" 0 ex_served ex_path 0 "()"] ex_opened_facts
  show ?thesis by (auto simp: same_ids_def)
qed

text \<open>
  C13. The mover's loop ends: woken with any queue, it takes the whole queue, and after at most
  one round per file, whatever becomes of each copy, it is at the head of its outer loop with
  nothing left in its list or, as long as nobody closes a file meanwhile, in the queue, and its
  next step is to wait again.
\<close>

theorem mover_finishes:
  assumes "mover_ok s" and "mover s = Mover_woken"
    and "length (data_queue s) \<le> length outcomes" and "t = mover_copy_all outcomes (mover_wake s)"
  shows "local_list (mover_wake s) = data_queue s \<and> data_queue (mover_wake s) = [] \<and>
    local_list t = [] \<and> data_queue t = [] \<and> mover t = Mover_looping \<and>
    mover_wait t = t\<lparr>mover := Mover_waiting\<rparr>"
proof -
  have "local_list s = []" using assms(1,2) by (simp add: mover_ok_def)
  with mover_wake_takes_all [OF assms(2)] have w: "local_list (mover_wake s) = data_queue s"
    "data_queue (mover_wake s) = []" by simp_all
  with mover_copy_all_terminates [OF mover_wake_ok [OF assms(1)], of outcomes] assms(3,4)
  have t: "local_list t = []" "mover t \<noteq> Mover_copying" by simp_all
  with mover_copy_all_looping [OF assms(2), of outcomes] assms(4) have "mover t = Mover_looping" by simp
  with w t(1) assms(4) show ?thesis by (simp add: mover_wait_again)
qed

theorem mover_finishes_witness:
  "mover (mover_copy_all [(Some ''/bb/x'', True), (None, False)]
     (mover_wake (ex_server\<lparr>mover := Mover_woken, data_queue := [ex_path, ''/d/g'']\<rparr>))) = Mover_looping"
  using mover_finishes [of "ex_server\<lparr>mover := Mover_woken, data_queue := [ex_path, ''/d/g'']\<rparr>"
      "[(Some ''/bb/x'', True), (None, False)]", OF _ _ _ refl]
  by (simp add: mover_ok_def)

text \<open>
  C14. Every file in the queue ends up cached: woken, with new directories for its copies and
  a system that accepts them, the mover records for each queued file a copy with the file's
  bytes, a new one for a file that has a copy already, and leaves every other entry of its table
  as it was. Each recorded copy has the bytes of its file. The mover is then at the head of its
  outer loop with nothing left, and waits.
\<close>

theorem queue_is_cached:
  assumes "server_ok s" and "mover s = Mover_woken" and "length ds = length (data_queue s)"
    and "names_new (disk s) ds (data_queue s)"
    and "\<forall>p \<in> set (data_queue s). bytes_at (disk s) p \<noteq> None \<and> openable (disk s) (resolve (disk s) p)"
    and "t = mover_copy_all (map (\<lambda>d. (Some d, True)) ds) (mover_wake s)"
  shows "(\<forall>p. p \<in> set (data_queue s) \<or> path_cache_map s p \<noteq> None \<longrightarrow> (\<exists>q b. path_cache_map t p = Some q \<and>
      bytes_at (disk t) q = Some b \<and> bytes_at (disk s) p = Some b)) \<and>
    (\<forall>p. p \<notin> set (data_queue s) \<longrightarrow> path_cache_map t p = path_cache_map s p) \<and>
    local_list t = [] \<and> data_queue t = [] \<and> mover t = Mover_looping \<and>
    mover_wait t = t\<lparr>mover := Mover_waiting\<rparr>"
proof -
  have l: "local_list s = []" using assms(1,2) by (simp add: server_ok_def mover_ok_def)
  with mover_wake_takes_all [OF assms(2)] have w: "local_list (mover_wake s) = data_queue s"
    "data_queue (mover_wake s) = []" "path_cache_map (mover_wake s) = path_cache_map s" by simp_all
  have ok: "cache_coherent (mover_wake s)" "mover_ok (mover_wake s)"
    using assms(1) mover_wake_ok by (auto simp: server_ok_def)
  have t: "cache_coherent t" "local_list t = []" "\<forall>p \<in> set (data_queue s). path_cache_map t p \<noteq> None"
    "\<forall>p. path_cache_map s p \<noteq> None \<longrightarrow> path_cache_map t p \<noteq> None"
    "\<forall>p b. bytes_at (disk s) p = Some b \<longrightarrow> bytes_at (disk t) p = Some b"
    using mover_copy_all_caches [OF ok, of ds] assms(3-6) by (simp_all add: w)
  have "mover t \<noteq> Mover_copying"
    using mover_copy_all_terminates [OF ok(2), of "map (\<lambda>d. (Some d, True)) ds"] assms(3,6) by (simp add: w)
  then have looping: "mover t = Mover_looping"
    using mover_copy_all_looping [OF assms(2)] unfolding assms(6) by blast
  have "\<exists>q b. path_cache_map t p = Some q \<and> bytes_at (disk t) q = Some b \<and> bytes_at (disk s) p = Some b"
    if p: "p \<in> set (data_queue s) \<or> path_cache_map s p \<noteq> None" for p
  proof -
    obtain q where q: "path_cache_map t p = Some q" using p t(3,4) by blast
    then obtain b where b: "bytes_at (disk t) p = Some b" "bytes_at (disk t) q = Some b"
      using t(1) by (auto simp: cache_coherent_def)
    have "bytes_at (disk s) p \<noteq> None"
      using p assms(1,5) by (fastforce simp: server_ok_def cache_coherent_def)
    with t(5) b(1) have "bytes_at (disk s) p = Some b" by fastforce
    with q b show ?thesis by blast
  qed
  moreover have "path_cache_map t p = path_cache_map s p" if "p \<notin> set (data_queue s)" for p
    using mover_copy_all_others [of p "mover_wake s"] that by (simp add: assms(6) w)
  ultimately show ?thesis using t(2) looping w(2) assms(6) by (simp add: mover_wait_again)
qed

theorem queue_is_cached_witness:
  "\<exists>q. path_cache_map (mover_copy_all [(Some ''/bb/x'', True)]
     (mover_wake (ex_server\<lparr>mover := Mover_woken, data_queue := [ex_path]\<rparr>))) ex_path = Some q"
proof -
  let ?s = "ex_server\<lparr>mover := Mover_woken, data_queue := [ex_path]\<rparr>"
  have f: "filename ex_path = ''f''" unfolding ex_path_def by code_simp
  have "ex_path \<noteq> ''/bb/x''" and "ex_path \<noteq> ''/bb/x/f''" by (simp_all add: ex_path_def)
  then have "names_new (disk ?s) [''/bb/x''] (data_queue ?s)"
    by (simp add: names_new_def new_names_def f)
  moreover have "server_ok ?s"
    using ex_server_ok by (simp add: server_ok_def mover_ok_def cache_coherent_def descriptors_ok_def)
  ultimately show ?thesis
    using queue_is_cached [of ?s "[''/bb/x'']", OF _ _ _ _ _ refl] by (auto simp del: mover_copy_all.simps)
qed

text \<open>
  C15. When a file is closed while the mover copies the last file of its list, or before it is
  back at its wait, the signal finds no waiter, and the mover begins its wait with the file
  still in the queue. The file has no copy then, unless it is the very file that the mover was
  copying.
\<close>

theorem close_during_copy_waits:
  assumes "mover s = Mover_copying \<and> local_list s = [q] \<or> mover s = Mover_looping"
    and "fdtab (disk s) rfd \<noteq> None" and "fd_to_path s rfd = Some c" and "path_cache_map s c = None"
    and "get_input_ok env"
  shows "\<exists>s1 t. run_handler env (Close_in \<lparr>close_fd = rfd\<rparr>) s = Inr (None, [], s1) \<and>
    t = mover_wait (if mover s1 = Mover_copying then mover_copy_one mk ok s1 else s1) \<and>
    mover t = Mover_waiting \<and> data_queue t = data_queue s @ [c] \<and>
    (mover s = Mover_looping \<or> c \<noteq> q \<longrightarrow> path_cache_map t c = None)"
proof -
  obtain s1 where s1: "run_handler env (Close_in \<lparr>close_fd = rfd\<rparr>) s = Inr (None, [], s1)"
    "data_queue s1 = data_queue s @ [c]" "mover s1 = mover s"
    using server_close_effect [OF assms(2,3,5)] assms(1,4) by auto
  have same: "local_list s1 = local_list s" "path_cache_map s1 = path_cache_map s"
    using s1(1) by (auto simp: run_handler_def hvac_close_rpc_handler_def hvac_result Let_def
      split: prod.splits if_splits)
  then have "path_cache_map (mover_copy_one mk ok s1) c = None" if "local_list s = [q]" "c \<noteq> q"
    using that assms(4) mover_copy_one_others [of c s1] by simp
  with mover_copy_last_waits [of s1 q mk ok] s1 same assms(1,4) show ?thesis by (auto simp: mover_wait_def)
qed

theorem close_during_copy_waits_witness:
  "\<exists>s1 t. run_handler (fault_free 1 True) (Close_in \<lparr>close_fd = 0\<rparr>)
      (ex_held\<lparr>mover := Mover_copying, local_list := [''/d/g'']\<rparr>) = Inr (None, [], s1) \<and>
    t = mover_wait (if mover s1 = Mover_copying then mover_copy_one None False s1 else s1) \<and>
    mover t = Mover_waiting \<and> data_queue t = [ex_path] \<and> path_cache_map t ex_path = None"
  using close_during_copy_waits [of "ex_held\<lparr>mover := Mover_copying, local_list := [''/d/g'']\<rparr>"
      "''/d/g''" 0 ex_path "fault_free 1 True" None False]
  by (simp add: ex_path_def)

text \<open>
  C16. The two threads of a daemon at every operation on their mutex. In every state they reach
  the node is in order; the queue is not raced, as nobody accesses it without the mutex; and a
  close that is under way can return. A close that has the mutex brings its file to the very next
  emptying of the queue, whatever happens in between, and when its signal finds the mover
  waiting, that emptying can always still come. The table of copies has no such guard: when the
  mover is about to record a copy and no close is under way, the open of any file is a data race.
\<close>

theorem queue_guarded_cache_raced:
  assumes "reach lock_start (lock_run env) s"
  shows "server_ok (lnode s) \<and> \<not> races env s The_queue \<and> (\<exists>t. (lock_run env)\<^sup>*\<^sup>* s t \<and> close_at t = Cl_out) \<and>
    (close_at s = Cl_signal fd \<and> fd_to_path (lnode s) fd = Some p \<and> (lock_run env)\<^sup>*\<^sup>* s t \<longrightarrow>
      (length (drains s) < length (drains t) \<longrightarrow> p \<in> set (drains t ! length (drains s))) \<and>
      (mover_at s = In_wait \<longrightarrow> (\<exists>u. (lock_run env)\<^sup>*\<^sup>* t u \<and> length (drains s) < length (drains u)))) \<and>
    (close_at s = Cl_out \<and> get_input_ok env \<and> mover_at s = At_copy \<and> local_list (lnode s) \<noteq> [] \<and>
      fresh_for (disk (lnode s)) mk (hd (local_list (lnode s))) \<and>
      path_cache_map (mover_copy_one mk ok (lnode s)) \<noteq> path_cache_map (lnode s) \<longrightarrow> races env s The_cache)"
proof -
  have ok: "lock_ok s" using assms by (rule locked.reach_inv)
  have next_drain: "(length (drains s) < length (drains t) \<longrightarrow> p \<in> set (drains t ! length (drains s))) \<and>
      (mover_at s = In_wait \<longrightarrow> (\<exists>u. (lock_run env)\<^sup>*\<^sup>* t u \<and> length (drains s) < length (drains u)))"
    if c: "close_at s = Cl_signal fd" "fd_to_path (lnode s) fd = Some p" "(lock_run env)\<^sup>*\<^sup>* s t"
  proof -
    have "promised p (length (drains s)) s" using c(1,2) by (auto simp: promised_def)
    from promised_run [OF c(3) this ok] have "promised p (length (drains s)) t" .
    moreover have "called (length (drains s)) s" if "mover_at s = In_wait" using c(1) that by (auto simp: called_def)
    then have "\<exists>u. (lock_run env)\<^sup>*\<^sup>* t u \<and> length (drains s) < length (drains u)" if "mover_at s = In_wait"
      using called_drains [OF called_run [OF c(3) _ ok] locked.steps_inv [OF c(3) ok]] that by blast
    ultimately show ?thesis by (auto simp: promised_def)
  qed
  have "server_ok (lnode s)" using ok by (simp add: lock_ok_def)
  with queue_not_raced [OF ok] close_returns [OF ok] next_drain cache_raced [of s env mk ok] show ?thesis by blast
qed

theorem queue_guarded_cache_raced_witness:
  "\<exists>s. reach lock_start (lock_run (fault_free 1 True)) s \<and> drains s = [[ex_path]] \<and>
    races (fault_free 1 True) s The_cache \<and> \<not> races (fault_free 1 True) s The_queue"
proof -
  obtain s where s: "reach lock_start (lock_run (fault_free 1 True)) s" "drains s = [[ex_path]]"
    "close_at s = Cl_out" "mover_at s = At_copy" "local_list (lnode s) = [ex_path]"
    "fresh_for (disk (lnode s)) (Some ''/bb/x'') ex_path"
    "path_cache_map (mover_copy_one (Some ''/bb/x'') True (lnode s)) \<noteq> path_cache_map (lnode s)"
    using ex_locked by blast
  with queue_guarded_cache_raced [OF s(1), of undefined undefined undefined "Some ''/bb/x''" True] show ?thesis by auto
qed

section \<open>The server node\<close>

text \<open>
  C17. A server node in every state it reaches by handling requests while its mover copies,
  with requests handled between any two system calls of a copy, half-written files and failed
  copies included: the log buffer holds fewer than ten entries, every recorded copy has the
  bytes of its original, every open descriptor leads to the path recorded for it or to the
  same bytes, no request is redirected to a file that is still being written, the mover is
  in its copy loop exactly while it has files to copy, and an open request that finds a free
  descriptor shows the bytes of the path it asks for, from the start.
\<close>

theorem node_ok_while_copying:
  assumes "reach cut_start (cut_step env) s" and "get_input_ok env" and "respond_ok env"
  shows "length (log_buffer (node s)) < 10 \<and> cache_coherent (node s) \<and> descriptors_ok (node s) \<and>
    (mover (node s) = Mover_copying \<longleftrightarrow> local_list (node s) \<noteq> []) \<and>
    (\<forall>dst b p q. phase s = Writing dst b \<longrightarrow> path_cache_map (node s) p = Some q \<longrightarrow> place s q \<noteq> place s dst) \<and>
    (\<forall>c b rfd ps. bytes_at (disk (node s)) c = Some b \<longrightarrow>
      posix_open (disk (node s)) (redirected (node s) c) = (rfd, ps) \<longrightarrow> rfd \<noteq> -1 \<longrightarrow>
      (\<exists>n. run_handler env (Open_in \<lparr>in_path = c\<rparr>) (node s) = Inr (Some rfd, [], n) \<and>
        fd_view (disk n) rfd = Some (b, 0)))"
proof -
  have ok: "cut_ok s" using assms(1) by (rule cut_copy.reach_inv)
  note node = cut_ok_node [OF ok]
  have "\<exists>n. run_handler env (Open_in \<lparr>in_path = c\<rparr>) (node s) = Inr (Some rfd, [], n) \<and>
      fd_view (disk n) rfd = Some (b, 0)"
    if "bytes_at (disk (node s)) c = Some b" "posix_open (disk (node s)) (redirected (node s) c) = (rfd, ps)"
      "rfd \<noteq> -1" for c b rfd ps
    using server_open_view [OF node that assms(2,3)] by blast
  with node cut_ok_not_redirected [OF ok] show ?thesis
    by (auto simp: server_ok_def mover_ok_def)
qed

theorem node_ok_while_copying_witness:
  "\<exists>s. phase s = Writing ''/bb/x/f'' ex_bytes \<and> files s ''/bb/x/f'' = Some (Reg [10]) \<and>
    cache_coherent (node s) \<and> descriptors_ok (node s) \<and> local_list (node s) \<noteq> []"
proof -
  obtain s where s: "reach cut_start (cut_step (fault_free 1 True)) s" "phase s = Writing ''/bb/x/f'' ex_bytes"
      "files s ''/bb/x/f'' = Some (Reg [10])"
    using ex_cut by blast
  have "mover (node s) = Mover_copying"
    using cut_okD(2) [OF cut_copy.reach_inv [OF s(1)]] s(2) by simp
  with node_ok_while_copying [OF s(1) fault_free_simps(3,4)] s(2,3) show ?thesis by blast
qed

text \<open>
  C18. The mover's system calls, with requests in between, against the mover of C14, whose
  rounds are whole: as long as every open asks for a file that was there when the daemon
  started, for a recorded copy, or for a name that does not exist, there is a run with whole
  rounds in which every request gets the same answer. Its disk then holds of the node's files
  at least those there were and every recorded copy.
\<close>

theorem mover_rounds_refine:
  assumes "server_started n" and "open_files_in (nodes (disk n)) (disk n)"
    and "(asked_step E (nodes (disk n)))\<^sup>*\<^sup>* (\<lparr>node = n, phase = Between\<rparr>, []) (s, as)"
  shows "\<exists>w M. (whole_step E)\<^sup>*\<^sup>* \<lparr>wnode = n, history = []\<rparr> w \<and> history w = as \<and> wnode w = seen M (node s) \<and>
    M \<subseteq>\<^sub>m files s \<and> dom (nodes (disk n)) \<subseteq> dom M \<and>
    (\<forall>p q. path_cache_map (node s) p = Some q \<longrightarrow> q = [] \<or> M (place s q) \<noteq> None)"
proof -
  obtain m where m: "(whole_step E)\<^sup>*\<^sup>* \<lparr>wnode = n, history = []\<rparr> \<lparr>wnode = m, history = as\<rparr>"
      "lags_behind (nodes (disk n)) s m"
    using lags_asked_run [OF assms(3) lags_start [OF assms(1,2)]] by blast
  then obtain M where M: "m = seen M (node s)" "M \<subseteq>\<^sub>m files s" "dom (nodes (disk n)) \<subseteq> dom M" "relies_on M (node s)"
    by (auto simp: lags_behind_def)
  have "q = [] \<or> M (place s q) \<noteq> None" if "path_cache_map (node s) p = Some q" for p q
    using relies_onD(1) [OF M(4), of q] that by (auto simp: keeps_name_def ran_def)
  with m(1) M(1-3) show ?thesis
    by (intro exI [of _ "\<lparr>wnode = m, history = as\<rparr>"] exI [of _ M]) simp
qed

theorem mover_rounds_refine_witness:
  "\<exists>s as w M. phase s = Writing ''/bb/x/f'' ex_bytes \<and> files s ''/bb/x/f'' = Some (Reg [10]) \<and> length as = 2 \<and>
    (whole_step {fault_free 1 True})\<^sup>*\<^sup>* \<lparr>wnode = ex_server, history = []\<rparr> w \<and> history w = as \<and>
    wnode w = seen M (node s) \<and> dom (nodes ex_disk) \<subseteq> dom M"
proof -
  obtain s as where s: "(asked_step {fault_free 1 True} (nodes ex_disk))\<^sup>*\<^sup>* (ex_before, []) (s, as)" "length as = 2"
    "phase s = Writing ''/bb/x/f'' ex_bytes" "files s ''/bb/x/f'' = Some (Reg [10])"
    using ex_asked by blast
  moreover have "open_files_in (nodes (disk ex_server)) (disk ex_server)" by (simp add: open_files_in_def)
  ultimately show ?thesis
    using mover_rounds_refine [of ex_server "{fault_free 1 True}" s as] unfolding ex_before_def by simp blast
qed

text \<open>
  C19. A read's handler returns once its bulk transfer has started, and the answer goes out when
  the transfer ends. Whatever the node does while transfers are under way, in whatever order
  they end, and with the mover at work, the node is the one of a run in which every request is
  handled and answered in one step, and the answers given and still to come are that run's,
  in another order. The transfers under way can all end from here.
\<close>

theorem transfers_refine_whole:
  assumes "busy_start n b0" and "(busy_step E)\<^sup>*\<^sup>* b0 b" and "transfers_succeed E"
  shows "(\<exists>w. (whole_step E)\<^sup>*\<^sup>* \<lparr>wnode = n, history = []\<rparr> w \<and> wnode w = bnode b \<and>
      mset (history w) = mset (replies b) + mset (map reply_of (transfers b))) \<and>
    (busy_step E)\<^sup>*\<^sup>* b (b\<lparr>transfers := [], replies := replies b @ map reply_of (transfers b)\<rparr>) \<and>
    (server_ok n \<longrightarrow> server_ok (bnode b))"
proof -
  have "stands_for E b0 \<lparr>wnode = n, history = []\<rparr>" using assms(1) by (simp add: busy_start_def stands_for_def)
  with stands_for_run [OF assms(2,3)] obtain w where
    w: "(whole_step E)\<^sup>*\<^sup>* \<lparr>wnode = n, history = []\<rparr> w" "stands_for E b w" by blast
  then have "fst ` set (transfers b) \<subseteq> E" by (simp add: stands_for_def)
  with transfers_drain [OF assms(3)] w server_ok_whole_run [OF w(1)] show ?thesis
    by (auto simp: stands_for_def)
qed

theorem transfers_refine_whole_witness:
  "\<exists>w. (whole_step {fault_free 1 True})\<^sup>*\<^sup>* \<lparr>wnode = ex_held, history = []\<rparr> w \<and>
    mset (history w) = {#(1, Read_in ex_in, Some 2, [10, 20]), (2, Read_in ex_in, Some 1, [30])#}"
proof -
  have "busy_start ex_held ex_busy" "transfers_succeed {fault_free 1 True}"
    by (simp_all add: busy_start_def ex_busy_def transfers_succeed_def fault_free_def)
  moreover obtain b where "(busy_step {fault_free 1 True})\<^sup>*\<^sup>* ex_busy b" "transfers b = []"
    "replies b = [(2, Read_in ex_in, Some 1, [30]), (1, Read_in ex_in, Some 2, [10, 20])]"
    using ex_overtake by blast
  ultimately show ?thesis
    using transfers_refine_whole [of ex_held ex_busy "{fault_free 1 True}" b]
    by (auto simp: add_mset_commute)
qed

text \<open>
  C20. While the log file can be opened, nothing of the operation log is lost or repeated by
  the buffering: after any sequence of requests, what is in the file followed by what is in
  the buffer is what was there before followed by one line per operation, in order.
\<close>

theorem operation_log_complete:
  assumes "serve reqs s = Inr (t, es)" and "list_all (\<lambda>(env, _). log_file_ok env) reqs"
  shows "time_logs t (log_file_name (server_rank t)) @ concat (map log_line (log_buffer t))
    = time_logs s (log_file_name (server_rank s)) @ concat (map log_line (log_buffer s @ es))"
  using serve_log [OF assms] by (simp add: log_text_def)

theorem operation_log_complete_witness:
  "\<exists>t es. serve [(fault_free 1 True, Open_in \<lparr>in_path = ex_path\<rparr>)] ex_server = Inr (t, es) \<and>
    time_logs t (log_file_name (server_rank t)) @ concat (map log_line (log_buffer t))
      = time_logs ex_server (log_file_name (server_rank ex_server))
          @ concat (map log_line (log_buffer ex_server @ es))"
proof -
  obtain t where "serve [(fault_free 1 True, Open_in \<lparr>in_path = ex_path\<rparr>)] ex_server
      = Inr (t, request_log (fault_free 1 True) (Open_in \<lparr>in_path = ex_path\<rparr>) ex_server)"
    using server_open_view [of ex_server ex_path ex_bytes 0 _ "fault_free 1 True"] by (auto simp: ex_posix_open)
  from operation_log_complete [OF this] this show ?thesis by auto
qed

text \<open>
  C21. The handlers with the operation log do what the handlers before it did: forgetting the
  log, every request that is not a failed read gets the same answer, moves the same bytes and
  leaves the same state.
\<close>

theorem new_handlers_refine_old:
  assumes "\<not> read_fails env req s"
  shows "and_then (run_handler env req s) (\<lambda>(out, data, s'). Inr (out, data, forget_log s'))
     = old_run_handler env req (forget_log s)"
  using old_handlers_refine [OF assms] .

theorem new_handlers_refine_old_witness:
  "and_then (run_handler (fault_free 1 True) (Close_in \<lparr>close_fd = 0\<rparr>) ex_held)
      (\<lambda>(out, data, s'). Inr (out, data, forget_log s'))
    = old_run_handler (fault_free 1 True) (Close_in \<lparr>close_fd = 0\<rparr>) (forget_log ex_held)"
  by (rule new_handlers_refine_old) (simp add: read_fails_def)

text \<open>
  C22. A failed read is where the two differ: the old daemon starts a transfer of
  \<open>(size_t) -1\<close> bytes and stops, the present one transfers the untouched zeros of its
  buffer and answers with the full count that was asked for.
\<close>

theorem failed_read_old_and_new:
  assumes "fdtab (disk s) rfd = None" and "unat (to_i64 n) < 2 ^ 64 - 1"
    and "req = Read_in \<lparr>input_val = n, bulk_handle = to_i64 n, accessfd = rfd, in_offset = off\<rparr>"
  shows "old_run_handler (fault_free dt lf) req (forget_log s) = Inl Assert_failed \<and>
    (\<exists>s'. run_handler (fault_free dt lf) req s = Inr (Some n, replicate (unat (to_i64 n)) 0, s'))"
proof -
  have u: "unat (- 1 :: i64) = 2 ^ 64 - 1" by (simp add: unsigned_minus_1_eq_mask mask_eq_exp_minus_1)
  have "old_rpc_handler (fault_free dt lf) \<lparr>input_val = n, bulk_handle = to_i64 n, accessfd = rfd,
      in_offset = off\<rparr> (forget_log s) = Inl Assert_failed"
    by (rule old_read_failure) (use assms(1,2) u in \<open>simp_all add: old_file_call_def fault_free_def\<close>)
  with server_read_bad_fd [OF assms(1), of dt lf n off] show ?thesis
    by (auto simp: assms(3) old_run_handler_def)
qed

theorem failed_read_old_and_new_witness:
  "old_run_handler (fault_free 1 True) (Read_in \<lparr>input_val = 2, bulk_handle = to_i64 2, accessfd = 0,
      in_offset = -1\<rparr>) (forget_log ex_server) = Inl Assert_failed \<and>
    (\<exists>s'. run_handler (fault_free 1 True) (Read_in \<lparr>input_val = 2, bulk_handle = to_i64 2, accessfd = 0,
      in_offset = -1\<rparr>) ex_server = Inr (Some 2, replicate 2 0, s'))"
proof -
  have "unat (to_i64 2) = 2" by (simp add: to_i64_def)
  with failed_read_old_and_new [OF _ _ refl, of ex_server 0 2 1 True "-1"] show ?thesis by simp
qed

section \<open>Finding the servers\<close>

text \<open>
  C23. What servers publish, clients find: after any servers of a job have appended their
  lines to an empty file, a client's lookup of a rank gives the address that the first of them
  with this rank published, and remembers it.
\<close>

theorem published_address_found:
  assumes "ge ''SLURM_JOBID'' = Some job" and "getenv e ''SLURM_JOBID'' = Some job"
    and "start_servers ge es (\<lambda>_. []) = Inr cfg"
    and "read_config e (os p) (ports_cfg_name job) = Some (cfg (ports_cfg_name job))"
    and "list_all (\<lambda>(env, _). address_ok (hg_self_addr env)) es"
    and "map_of (map (\<lambda>(env, rank). (rank, hg_self_addr env)) es) rank = Some str"
    and "address_cache p rank = None" and "hg_lookup e str = Some a"
  shows "hvac_client_comm_lookup_addr e rank p
    = Inr (a, (l4c p)\<lparr>address_cache := (address_cache p)(rank \<mapsto> str)\<rparr>)"
proof (rule lookup_addr_published [OF assms(2,7) _ _ assms(6,8)])
  show "read_config e (os p) (ports_cfg_name job)
      = Some (ports_file (map (\<lambda>(env, rank). (rank, hg_self_addr env)) es))"
    using assms(3,4) start_servers_file [of ge job es "\<lambda>_. []"] assms(1) by auto
  show "list_all (\<lambda>(r, a). address_ok a) (map (\<lambda>(env, rank). (rank, hg_self_addr env)) es)"
    using assms(5) by (auto simp: list_all_iff)
  have "es \<noteq> []" using assms(6) by auto
  then show "ports_name_fits job" using start_servers_file [OF assms(1,3)] by simp
qed

theorem published_address_found_witness:
  "hvac_client_comm_lookup_addr ex_cenv 0 ex_client
    = Inr (''s'', (l4c ex_client)\<lparr>address_cache := (address_cache ex_client)(0 \<mapsto> ''s'')\<rparr>)"
  by (rule published_address_found [where ge = ex_getenv and job = "''7''" and es = "[(ex_hg, 0)]"
        and cfg = "(\<lambda>_. [])(ports_cfg_name ''7'' := ports_file [(0, ''s'')])"])
    (simp_all add: ex_getenv_def ex_hg_def address_ok_def is_space_def hvac_comm_list_addr_def Let_def
      ports_file_def PATH_MAX_def)

text \<open>
  C24. The file is only ever appended to, so a server that is started again in the same job
  is not found: its new address comes after the old one, which clients keep using.
\<close>

theorem restarted_server_not_found:
  assumes "ge ''SLURM_JOBID'' = Some job" and "getenv e ''SLURM_JOBID'' = Some job"
    and "start_servers ge (es @ [(env, rank)]) (\<lambda>_. []) = Inr cfg"
    and "read_config e (os p) (ports_cfg_name job) = Some (cfg (ports_cfg_name job))"
    and "list_all (\<lambda>(env, _). address_ok (hg_self_addr env)) (es @ [(env, rank)])"
    and "(env0, rank) \<in> set es" and "address_cache p rank = None"
    and "\<And>str. hg_lookup e str = Some str"
  shows "\<exists>env1 q. (env1, rank) \<in> set es \<and>
    hvac_client_comm_lookup_addr e rank p = Inr (hg_self_addr env1, q)"
proof -
  define l where "l = map (\<lambda>(env, rank). (rank, hg_self_addr env)) es"
  have "(rank, hg_self_addr env0) \<in> set l" using assms(6) by (force simp: l_def)
  then obtain str where str: "map_of l rank = Some str" by (meson weak_map_of_SomeI)
  then obtain env1 where env1: "(env1, rank) \<in> set es" "str = hg_self_addr env1"
    by (auto simp: l_def dest!: map_of_SomeD)
  have "read_config e (os p) (ports_cfg_name job) = Some (ports_file (l @ [(rank, hg_self_addr env)]))"
    using assms(3,4) start_servers_file [of ge job "es @ [(env, rank)]" "\<lambda>_. []"] assms(1)
    by (auto simp: l_def)
  moreover have "list_all (\<lambda>(r, a). address_ok a) (l @ [(rank, hg_self_addr env)])"
    using assms(5) by (auto simp: l_def list_all_iff)
  moreover have "map_of (l @ [(rank, hg_self_addr env)]) rank = Some str"
    using str by (simp add: map_of_append)
  moreover have "ports_name_fits job" using start_servers_file [OF assms(1,3)] by simp
  ultimately show ?thesis
    using lookup_addr_published [OF assms(2,7) _ _ _ assms(8)] env1 by blast
qed

theorem restarted_server_not_found_witness:
  "\<exists>env1 q. (env1, 0) \<in> set [(ex_hg, 0)] \<and>
    hvac_client_comm_lookup_addr (ex_cenv\<lparr>read_config := \<lambda>_ _. Some (ports_file [(0, ''s''), (0, ''new'')])\<rparr>)
      0 ex_client = Inr (hg_self_addr env1, q)"
  using restarted_server_not_found [of ex_getenv "''7''"
      "ex_cenv\<lparr>read_config := \<lambda>_ _. Some (ports_file [(0, ''s''), (0, ''new'')])\<rparr>" "[(ex_hg, 0)]"
      "ex_hg\<lparr>hg_self_addr := ''new''\<rparr>" 0
      "(\<lambda>_. [])(ports_cfg_name ''7'' := ports_file [(0, ''s''), (0, ''new'')])" ex_client ex_hg]
  by (simp add: ex_getenv_def ex_hg_def address_ok_def is_space_def hvac_comm_list_addr_def Let_def
      ports_file_def PATH_MAX_def)

section \<open>Which files are tracked\<close>

text \<open>
  C25. A file opened for writing only or for appending, a file whose name holds
  \<open>.ports.cfg.\<close>, and a file outside the data directory are opened as if the library were not
  there: the application gets the system's descriptor, no server hears of it, and the tables
  stay as they are.
\<close>

theorem open_passes_through:
  assumes "\<not> redirect_off p" and "dlsym e ''open''"
    and "real_open e path flags (if flags AND O_CREAT \<noteq> 0 then md else 0) (os p) = (fd, w)"
    and "not_tracked e w (hvac_data_dir p) path \<or> str_contains path ''.ports.cfg.'' \<or>
      flags AND O_ACCMODE = O_WRONLY \<or> flags AND O_APPEND \<noteq> 0"
  shows "\<exists>q. wrap_open e path flags md p = Inr (fd, q) \<and> os q = w \<and> net q = net p \<and>
    fd_map q = fd_map p \<and> fd_redir_map q = fd_redir_map p"
proof -
  obtain q where "wrap_open e path flags md p = Inr (fd, q)" "q = p\<lparr>os := w\<rparr> \<or> q = l4c (p\<lparr>os := w\<rparr>)"
    using wrap_open_untracked [OF assms(1-3)] assms(4) unfolding readable_flags_def by blast
  then show ?thesis by auto
qed

theorem open_passes_through_witness:
  "\<exists>q. wrap_open ex_cenv ex_path O_WRONLY 0 ex_client = Inr (5, q) \<and> net q = net ex_client \<and>
    fd_map q = fd_map ex_client"
proof -
  have "O_WRONLY AND O_ACCMODE = O_WRONLY" by (simp add: open_flag_defs)
  with open_passes_through [of ex_client ex_cenv ex_path O_WRONLY 0 5 "()"] show ?thesis
    by (auto simp: redirect_off_def)
qed

section \<open>Off the good path\<close>

text \<open>
  C26. A file that the client can open and its server cannot: the open succeeds, every byte
  read is zero although the read claims to be complete, and the close succeeds for the
  application and stops the server.
\<close>

theorem unreadable_file_reads_zeros:
  assumes "open_ready (deployed e dt lf) p w path c a s" and "readable_flags flags"
    and "real_open (deployed e dt lf) path flags (if flags AND O_CREAT \<noteq> 0 then md else 0) (os p) = (fd, w)"
    and "fd \<noteq> -1" and "real_close (deployed e dt lf) fd w = (ret, w')"
    and "fds_ok (disk s)" and "registry s (hvac_client_rpc_id p) = Some K_read"
    and "registry s (hvac_client_close_id p) = Some K_close"
    and "posix_open (disk s) (redirected s c) = (-1, disk s)" and "n < 2 ^ 31"
  shows "\<exists>p1 p2 p3. wrap_open (deployed e dt lf) path flags md p = Inr (fd, p1) \<and>
    wrap_read (deployed e dt lf) fd (Some (replicate n 7)) (of_nat n) p1
      = Inr (of_nat n, Some (replicate n 0), p2) \<and>
    wrap_close (deployed e dt lf) fd p2 = Inr (ret, p3) \<and> net p3 a = None"
  using unreadable_file [OF assms] .

theorem unreadable_file_reads_zeros_witness:
  "\<exists>p1 p2 p3. wrap_open ex_env ''/d/g'' O_RDONLY 0 ex_client = Inr (5, p1) \<and>
    wrap_read ex_env 5 (Some (replicate 3 7)) (of_nat 3) p1 = Inr (of_nat 3, Some (replicate 3 0), p2) \<and>
    wrap_close ex_env 5 p2 = Inr (0, p3) \<and> net p3 ''s'' = None"
proof (rule unreadable_file_reads_zeros)
  have "parent_path ''/d/g'' = ''/d''" "\<not> str_contains ''/d/g'' ''.ports.cfg.''" by code_simp+
  then show "open_ready ex_env ex_client () ''/d/g'' ''/d/g'' ''s'' ex_server"
    by (simp add: open_ready_def redirect_off_def server_of_def ex_lookup in_data_dir_def)
qed (simp_all add: redirected_def posix_open_def canonical_in_def ex_path_def)

text \<open>
  C27. A server that has stopped leaves its clients waiting: a read of a descriptor that is
  linked to it does not return, and neither times out nor falls back to the file system.
\<close>

theorem dead_server_blocks_read:
  assumes "remote_end (deployed e dt lf) p fd = Some (a, rfd)" and "net p a = None"
  shows "wrap_read (deployed e dt lf) fd (Some mem) n p = Inl Blocked_forever"
  using wrap_read_blocks [OF assms] .

theorem dead_server_blocks_read_witness:
  "wrap_read ex_env 5 (Some [0]) 1 (ex_opened\<lparr>net := (\<lambda>_. None)\<rparr>) = Inl Blocked_forever"
proof (rule dead_server_blocks_read)
  have "remote_end ex_cenv (ex_opened\<lparr>net := (\<lambda>_. None)\<rparr>) 5 = remote_end ex_cenv ex_opened 5"
    by (rule remote_end_cong) simp_all
  then show "remote_end ex_env (ex_opened\<lparr>net := (\<lambda>_. None)\<rparr>) 5 = Some (''s'', 0)"
    using ex_opened_facts by auto
qed simp

text \<open>
  C28. In a process without a progress thread, as after a failed \<open>pthread_create\<close>, which is only
  logged, or in the child of a \<open>fork\<close>, nothing that asks a server returns: no read, pread or
  lseek of a tracked descriptor, and no open of a file that would be tracked. A read of a
  descriptor that was linked when there was a thread asks its server and waits for ever.
\<close>

theorem no_progress_no_answer:
  assumes "progress_threads p = 0"
  shows "(hvac_file_tracked p fd \<longrightarrow> wrap_read e fd buf n p \<noteq> Inr r \<and> wrap_pread e fd buf n off p \<noteq> Inr r \<and>
      (redirect_off p \<or> wrap_lseek e fd off wh p \<noteq> Inr v)) \<and>
    (g_mercury_init p \<or> \<not> hg_thread_create (hgenv e) \<longrightarrow> hvac_track_file e path flags fd p \<noteq> Inr (True, q)) \<and>
    (mercury_ok e \<and> dlsym e ''read'' \<and> (\<forall>a rid req w. fst (hg_forward e a rid req w) \<noteq> Forward_failed) \<and>
      remote_end e (p\<lparr>progress_threads := k\<rparr>) fd = Some (a, rfd) \<longrightarrow>
      wrap_read e fd (Some mem) n p = Inl Blocked_forever)"
proof -
  have zero: "progress_threads (l4c p) = 0" "progress_threads (l4c (l4c p)) = 0" using assms by (simp_all add: l4c_def)
  have "wrap_read e fd buf n p \<noteq> Inr r \<and> wrap_pread e fd buf n off p \<noteq> Inr r \<and>
      (redirect_off p \<or> wrap_lseek e fd off wh p \<noteq> Inr v)" if t: "hvac_file_tracked p fd"
  proof -
    have t': "hvac_file_tracked (l4c p) fd" using t by (simp add: hvac_file_tracked_def map_has_def)
    obtain c where "hvac_get_path p fd = Some c"
      using t by (auto simp: hvac_file_tracked_def map_has_def hvac_get_path_def)
    with remote_read_at_no_progress [OF zero(1) t', of e buf n "-1"] remote_read_at_no_progress [OF zero(1) t', of e buf n off]
      remote_lseek_no_progress [OF zero(1) t', of e "to_int off" wh] t t' show ?thesis
      by (auto simp: wrap_read_def wrap_pread_def wrap_lseek_def MAP_OR_FAIL_def hvac_remote_read_def
          hvac_remote_pread_def and_then_eq_Inr)
  qed
  moreover have "hvac_track_file e path flags fd p \<noteq> Inr (True, q)"
    if "g_mercury_init p \<or> \<not> hg_thread_create (hgenv e)"
  proof (cases rule: track_decision_cases [of e path fd p])
    case (yes c)
    with remote_open_no_progress [of "(l4c p)\<lparr>fd_map := (fd_map p)(fd \<mapsto> c)\<rparr>" e fd] zero(1) that show ?thesis
      by (auto simp: hvac_track_file_def and_then_eq_Inr)
  qed (simp_all add: hvac_track_file_def)
  moreover have "wrap_read e fd (Some mem) n p = Inl Blocked_forever"
    if "mercury_ok e \<and> dlsym e ''read'' \<and> (\<forall>a rid req w. fst (hg_forward e a rid req w) \<noteq> Forward_failed) \<and>
      remote_end e (p\<lparr>progress_threads := k\<rparr>) fd = Some (a, rfd)"
    using that by (intro wrap_read_no_progress [where k = k and a = a and rfd = rfd, OF _ assms]) auto
  ultimately show ?thesis by blast
qed

theorem no_progress_no_answer_witness:
  "wrap_read ex_env 5 (Some [0]) 1 (ex_opened\<lparr>progress_threads := 0\<rparr>) = Inl Blocked_forever \<and>
    (\<forall>q. hvac_track_file ex_env ex_path O_RDONLY 6 (ex_opened\<lparr>progress_threads := 0\<rparr>) \<noteq> Inr (True, q))"
proof -
  let ?p = "ex_opened\<lparr>progress_threads := 0\<rparr>"
  have zero: "progress_threads ?p = 0" by simp
  have "remote_end ex_env (?p\<lparr>progress_threads := progress_threads ex_opened\<rparr>) 5 = remote_end ex_env ex_opened 5"
    by (rule remote_end_cong) (simp_all add: progress_runs_def)
  then have r: "remote_end ex_env (?p\<lparr>progress_threads := progress_threads ex_opened\<rparr>) 5 = Some (''s'', 0)"
    using ex_opened_facts by simp
  have m: "g_mercury_init ?p" using ex_opened_facts by (auto simp: same_ids_def)
  have e: "mercury_ok ex_env" "dlsym ex_env ''read''"
    "\<forall>a rid req w. fst (hg_forward ex_env a rid req w) \<noteq> Forward_failed"
    unfolding ex_deployed by simp_all (simp add: ex_cenv_def)
  note n = no_progress_no_answer [OF zero]
  show ?thesis
    using conjunct2 [OF conjunct2 [OF n [where e = ex_env and fd = 5 and mem = "[0]" and n = 1
          and k = "progress_threads ex_opened" and a = "''s''" and rfd = 0]]]
      conjunct1 [OF conjunct2 [OF n [where e = ex_env and fd = 6 and path = ex_path and flags = O_RDONLY]]] r m e
    by blast
qed

text \<open>
  C29. An entry of \<open>fd_map\<close> that has outlived its descriptor (\<open>fclose\<close> is not intercepted)
  hijacks the next file that the system gives the same number: the open of a file that is not
  tracked succeeds, and its reads return the bytes of the old file.
\<close>

theorem stale_descriptor_reads_old_file:
  assumes "tracked_view (deployed e dt lf) p fd = Some (b, pos)"
    and "real_open (deployed e dt lf) path flags (if flags AND O_CREAT \<noteq> 0 then md else 0) (os p) = (fd, w)"
    and "not_tracked (deployed e dt lf) w (hvac_data_dir p) path" and "n \<le> max_rw"
  shows "\<exists>p1 p2. wrap_open (deployed e dt lf) path flags md p = Inr (fd, p1) \<and>
    hvac_read (deployed e dt lf) fd p1 n = Some (take n (drop pos b), p2)"
  using stale_descriptor [OF assms] by blast

theorem stale_descriptor_reads_old_file_witness:
  "\<exists>p1 p2. wrap_open ex_env ''/etc/x'' O_RDONLY 0 ex_opened = Inr (5, p1) \<and>
    hvac_read ex_env 5 p1 2 = Some (take 2 (drop 0 ex_bytes), p2)"
proof (rule stale_descriptor_reads_old_file)
  have "parent_path ''/etc/x'' = ''/etc''" "\<not> str_contains ''/etc'' ''/d''" by code_simp+
  moreover have "hvac_data_dir ex_opened = Some ''/d''" using ex_opened_facts by (auto simp: same_ids_def)
  ultimately show "not_tracked ex_env () (hvac_data_dir ex_opened) ''/etc/x''"
    by (simp add: not_tracked_def in_data_dir_def)
qed (use ex_opened_facts in \<open>auto simp: max_rw_def\<close>)

text \<open>
  C30. Counts and offsets are cut to 32 bits. A read asks its server for the low 32 bits of the
  count: when these are not negative as an \<open>int\<close>, the read is one of that many bytes, and a
  count that is a multiple of 4 GiB reads nothing and looks like the end of the file. A seek goes
  by the low 32 bits of its offset, as a signed number: to seek to a multiple of 4 GiB from the
  start rewinds the file and reports success.
\<close>

theorem counts_and_offsets_cut:
  assumes "tracked_view (deployed e dt lf) p fd = Some (b, pos)"
  shows "(0 \<le> sint (to_int n) \<and> d = file_window b pos (to_i64 (to_int n)) \<longrightarrow>
      (\<exists>p'. wrap_read (deployed e dt lf) fd (Some mem) n p = Inr (of_nat (length d), Some (overlay d mem), p') \<and>
        tracked_view (deployed e dt lf) p' fd = Some (b, pos + length d)) \<and> (to_int n = 0 \<longrightarrow> d = [])) \<and>
    wrap_lseek (deployed e dt lf) fd off wh p = wrap_lseek (deployed e dt lf) fd (to_i64 (to_int off)) wh p \<and>
    (to_int off = 0 \<longrightarrow> (\<exists>p'. wrap_lseek (deployed e dt lf) fd off SEEK_SET p = Inr (0, p') \<and>
        tracked_view (deployed e dt lf) p' fd = Some (b, 0)))"
proof -
  obtain a rfd where r: "remote_end (deployed e dt lf) p fd = Some (a, rfd)" "\<not> redirect_off p"
    using remote_view_SomeD [OF assms] by blast
  have cut: "wrap_lseek (deployed e dt lf) fd off w p = wrap_lseek (deployed e dt lf) fd (to_i64 (to_int off)) w p" for w
    using wrap_lseek_truncates(1) [OF remote_end_tracked [OF r(1)] r(2)] .
  have "\<exists>p'. wrap_lseek (deployed e dt lf) fd off SEEK_SET p = Inr (0, p') \<and>
      tracked_view (deployed e dt lf) p' fd = Some (b, 0)" if "to_int off = 0"
    using wrap_lseek_tracked [OF assms, of SEEK_SET 0 0] that by (auto simp: cut seek_base_def to_i64_def)
  moreover have "d = []" if "to_int n = 0" and "d = file_window b pos (to_i64 (to_int n))"
    using that by (simp add: file_window_def to_i64_def)
  ultimately show ?thesis using wrap_read_low_bits [OF assms] cut by blast
qed

theorem counts_and_offsets_cut_witness:
  "(\<exists>p'. wrap_read ex_env 5 (Some [7, 7]) 0x100000000 ex_opened = Inr (0, Some [7, 7], p')) \<and>
    (\<exists>p'. wrap_lseek ex_env 5 0x100000000 SEEK_SET ex_opened = Inr (0, p') \<and>
      tracked_view ex_env p' 5 = Some (ex_bytes, 0))"
proof -
  have "to_int 0x100000000 = 0" by (simp add: to_int_def)
  moreover from this have "file_window ex_bytes 0 (to_i64 (to_int 0x100000000)) = []"
    by (simp add: file_window_def to_i64_def)
  moreover have "tracked_view ex_env ex_opened 5 = Some (ex_bytes, 0)" using ex_opened_facts by simp
  note cut = counts_and_offsets_cut [OF this, of "0x100000000" "[]" "[7, 7]" "0x100000000" SEEK_SET]
  ultimately show ?thesis
    using conjunct1 [OF cut] conjunct2 [OF conjunct2 [OF cut]] by (simp add: overlay_def) blast
qed

text \<open>
  C31. When the low 32 bits of the count are negative as an \<open>int\<close>, as for counts from 2 GiB to
  4 GiB, the server asks \<open>calloc\<close> for more than half the address space. It fails, the
  assertion after it ends the daemon, and the read of the application never returns.
\<close>

theorem negative_count_stops_server:
  assumes "hg_forward e = cluster_forward env" and "mercury_ok e" and "dlsym e ''read''"
    and "\<And>m. sint m < 0 \<Longrightarrow> \<not> calloc_ok env m" and "sint (to_int n) < 0"
    and "remote_end e p fd = Some (a, rfd)" and "net p a = Some s"
    and "registry s (hvac_client_rpc_id p) = Some K_read"
  shows "wrap_read e fd (Some mem) n p = Inl Blocked_forever \<and>
    cluster_forward env a (hvac_client_rpc_id p) (Read_in \<lparr>input_val = to_int n, bulk_handle = n,
      accessfd = rfd, in_offset = -1\<rparr>) (net p) = (No_reply, (net p)(a := None))"
  by (rule wrap_read_stops_server [OF assms(1-3,6-8)]) (use assms(4,5) in simp)

theorem negative_count_stops_server_witness:
  "wrap_read (ex_cenv\<lparr>hg_forward := cluster_forward ((fault_free 1 True)\<lparr>calloc_ok := \<lambda>m. 0 \<le> sint m\<rparr>)\<rparr>)
    5 (Some [7, 7]) 0x80000000 ex_opened = Inl Blocked_forever"
proof -
  let ?e = "ex_cenv\<lparr>hg_forward := cluster_forward ((fault_free 1 True)\<lparr>calloc_ok := \<lambda>m. 0 \<le> sint m\<rparr>)\<rparr>"
  have "sint (to_int 0x80000000) < 0" by (simp add: to_int_def)
  moreover have "remote_end ?e ex_opened 5 = remote_end ex_cenv ex_opened 5"
    by (simp add: remote_end_def server_name_def host_index_def cong: option.case_cong)
  moreover have "mercury_ok ?e" by (simp add: mercury_ok_def ex_cenv_def)
  ultimately show ?thesis
    using negative_count_stops_server [of ?e "(fault_free 1 True)\<lparr>calloc_ok := \<lambda>m. 0 \<le> sint m\<rparr>" "0x80000000"
        ex_opened 5 "''s''" 0 ex_served "[7, 7]"] ex_opened_facts
    by (simp add: same_ids_def)
qed

section \<open>Waiting for answers\<close>

text \<open>
  C32. As long as no thread enters the library while another is inside, threads change
  nothing: whatever interleaving of issues, callbacks and wake-ups led to the present state,
  every open, read and seek that has returned has returned the value and the buffer of its
  sequential definition, run from the state in which the call began; and a call that is under
  way returns, leaving that definition's state, when its definition returns. Nor does a thread
  look into \<open>fd_redir_map\<close>, which has no lock, while an open's callback can write it.
\<close>

theorem calls_one_at_a_time:
  assumes "reach threads_start (thread_step e True) s" and "inside s t"
  shows "(\<forall>r buf p. alone s t \<noteq> Inr (r, buf, p) \<or>
      (\<exists>s'. (thread_step e True)\<^sup>*\<^sup>* s s' \<and> pcs s' t = Done r buf \<and> shared s' = p)) \<and>
    (\<forall>u r buf. pcs s u \<noteq> Done r buf \<or> (\<exists>p. alone s u = Inr (r, buf, p))) \<and> \<not> redir_raced e True s"
proof -
  have one: "one_call e s" using assms(1) by (rule one_call.reach_inv)
  from one_call_only [OF one assms(2)] show ?thesis
    using only_inside_returns [of e s t _ _ _ True] serial_not_raced [OF one] by (auto simp: returned_alone_def)
qed

theorem calls_one_at_a_time_witness:
  "\<exists>s s'. inside s 0 \<and> (thread_step ex_cenv True)\<^sup>*\<^sup>* s s' \<and> pcs s' 0 = Done 3 (Some (overlay ex_bytes [0, 0, 0, 7]))"
proof -
  obtain s p where s: "reach threads_start (thread_step ex_cenv True) s" "inside s 0"
      "alone s 0 = Inr (3, Some (overlay ex_bytes [0, 0, 0, 7]), p)"
    using ex_calls_inside [of "[0, 0, 0, 7]"] by blast
  from conjunct1 [OF calls_one_at_a_time [OF s(1,2)]] s show ?thesis by blast
qed

text \<open>
  C33. Two threads inside at once: the callback of an open and the beginning of a read race on
  \<open>fd_redir_map\<close>. Even if the table stays intact, an open can be ended by the answer of another
  thread's read, before its own answer has told it its remote descriptor. The descriptor is then
  tracked without an entry in \<open>fd_redir_map\<close>, the first look-up there inserts 0, and the thread
  reads on in whatever file the server has open as descriptor 0, here the file of the other
  thread.
\<close>

theorem early_open_reads_other_file:
  fixes e :: "('o, string, cluster) cenv" and p :: "('o, cluster) proc" and dt :: i64 and lf :: bool
  defines "E \<equiv> deployed e dt lf"
  assumes "threads_start s" and "shared s = p"
    and "open_ready E p (os p) path c a srv" and "knows E p c a"
    and "server_ok srv" and "bytes_at (disk srv) c = Some b"
    and "posix_open (disk srv) (redirected srv c) = (rfd, ps)" and "rfd \<noteq> -1"
    and "fd1 \<noteq> fd0" and "fd_redir_map p fd0 = None"
    and "remote_end E p fd1 = Some (a, 0)" and "tracked_view E p fd1 = Some (b1, pos)"
    and "n1 \<le> max_rw" and "n \<le> max_rw"
  defines "d \<equiv> take n (drop (pos + n1) b1)"
  shows "\<exists>v u. (thread_step E False)\<^sup>*\<^sup>* s v \<and> redir_raced E False v \<and> (thread_step E False)\<^sup>*\<^sup>* v u \<and>
    fd_map (shared u) fd0 = Some c \<and> pcs u 0 = Done (of_nat (length d)) (Some (overlay d mem))"
  using cluster_open_wakes_early assms by metis

theorem early_open_reads_other_file_witness:
  "\<exists>v u. (thread_step ex_env False)\<^sup>*\<^sup>* ex_calls v \<and> redir_raced ex_env False v \<and>
    (thread_step ex_env False)\<^sup>*\<^sup>* v u \<and> fd_map (shared u) 6 = Some ex_path \<and> pcs u 0 = Done 2 (Some [20, 30, 9])"
proof -
  obtain ps where ps: "posix_open (disk ex_served) (redirected ex_served ex_path) = (1, ps)"
    using ex_open_again by blast
  from early_open_reads_other_file [where e = ex_cenv and s = ex_calls and path = ex_path and c = ex_path
      and a = "''s''" and srv = ex_served and b = ex_bytes and ?fd1.0 = 5 and ?fd0.0 = 6 and ?b1.0 = ex_bytes
      and pos = 0 and ?n1.0 = 1 and n = 2 and mem = "[9, 9, 9]" and dt = 1 and lf = True,
      OF ex_calls_start refl _ _ _ _ ps]
  show ?thesis using ex_opened_ready ex_opened_knows ex_opened_facts ex_opened_redir
    by (simp add: max_rw_def ex_bytes_def overlay_def)
qed

text \<open>
  C34. Two threads that read at the same time can get each other's answers: the first answer
  to arrive sets the flag and the shared result, and any waiting thread takes it. Here thread
  0 returns what was meant for thread 1. They can also both wait for ever: the flag is counted
  up by each answer and compared with one, so when both answers arrive before a thread looks,
  it is two, and no thread that waits can go on.
\<close>

theorem concurrent_reads_mix_or_deadlock:
  "(\<exists>s. reach wait_start (wait_step False) s \<and> answer_of s 0 = r0 \<and> answer_of s 1 = r1 \<and>
      pc_of s 0 = Returned (to_i64 r1)) \<and>
   (\<exists>s. reach wait_start (wait_step False) s \<and> pc_of s 0 = Waiting \<and> pc_of s 1 = Waiting \<and>
      outstanding s = [] \<and> rpc_done (proc_state s) = 2 \<and>
      \<not> (\<exists>s' t. wait_step False s s' \<and> pc_of s t = Waiting \<and> pc_of s' t \<noteq> Waiting))"
proof -
  obtain s where s: "reach wait_start (wait_step False) s" "pc_of s 0 = Waiting" "pc_of s 1 = Waiting"
      "outstanding s = []" "rpc_done (proc_state s) = 2"
    using two_reads_stuck [OF ex_threads_start] by blast
  then have "stuck s" by (simp add: stuck_def)
  with stuck_no_return s two_reads_mixed [OF ex_threads_start] show ?thesis by blast
qed

text \<open>
  C35. The progress thread runs until it is told to stop and then stops: as long as the
  shutdown flag is clear it does not return, whatever Mercury answers; once the flag is set
  it returns within four steps, and on the way makes at most the one call that it was about
  to make.
\<close>

theorem progress_thread_stops:
  assumes "list_all (\<lambda>(sd, _). \<not> sd) before" and "list_all (\<lambda>(sd, _). sd) after" and "4 \<le> length after"
  shows "fst (progress_run before P_outer) \<noteq> P_return \<and>
    fst (progress_run (before @ after) P_outer) = P_return \<and>
    (\<exists>calls. snd (progress_run (before @ after) P_outer) = snd (progress_run before P_outer) @ calls \<and>
      length calls \<le> 1)"
  using progress_run_running [OF assms(1)] progress_run_shutdown [OF assms(2,3)] about_to_call_le
  by (auto simp: progress_run_append)

theorem progress_thread_stops_witness:
  "fst (progress_run ([(False, 0, 1), (False, 0, 1)] @ replicate 4 (True, 0, 1)) P_outer) = P_return"
  using progress_thread_stops [of "[(False, 0, 1), (False, 0, 1)]" "replicate 4 (True, 0, 1)"]
  by (simp add: eval_nat_numeral)

text \<open>
  C36. The shutdown does what \<open>hvac_shutdown_comm\<close> does in one piece, but it does not wait for
  the progress thread: the context can be destroyed while the thread is inside
  \<open>HG_Progress\<close>, or just before a call of \<open>HG_Trigger\<close> that it then makes on the destroyed
  context; more than one such call it cannot make. With a join before the destruction the
  thread has returned and makes none, and the join never blocks the shutdown.
\<close>

theorem shutdown_needs_join:
  assumes "reach (ending_start c) (ending_step env joins) s"
  shows "(end_pc s = Sd_returned \<longrightarrow> hvac_shutdown_comm env c = Inr (end_comm s)) \<and>
    (end_pc s = Sd_aborted \<longrightarrow> hvac_shutdown_comm env c = Inl Assert_failed) \<and>
    length (late_calls s) \<le> 1 \<and>
    (joins \<longrightarrow> (destroyed s \<longrightarrow> progress_at s = P_return \<and> late_calls s = []) \<and>
      (end_pc s = Sd_flagged \<longrightarrow> (\<exists>u. (ending_step env joins)\<^sup>*\<^sup>* s u \<and> destroyed u))) \<and>
    (\<not> shutdown_flags c \<and> hg_context c \<and> hg_context_destroy env \<longrightarrow>
      (\<exists>u. reach (ending_start c) (ending_step env False) u \<and> destroyed u \<and> progress_at u = P_in_progress) \<and>
      (\<exists>u. reach (ending_start c) (ending_step env False) u \<and> late_calls u = [Call_trigger]))"
proof -
  have ok: "ending_ok env joins c s" using assms by (rule ending.reach_inv)
  have bad: "(\<exists>u. reach (ending_start c) (ending_step env False) u \<and> destroyed u \<and> progress_at u = P_in_progress) \<and>
      (\<exists>u. reach (ending_start c) (ending_step env False) u \<and> late_calls u = [Call_trigger])"
    if c: "\<not> shutdown_flags c" "hg_context c" "hg_context_destroy env"
  proof -
    from ending_destroys [OF progress_reaches(1) [OF c(1)] c(2,3)]
    have t: "reach (ending_start c) (ending_step env False) \<lparr>end_comm = c\<lparr>shutdown_flags := True\<rparr>,
        end_pc = Sd_destroyed, destroyed = True, progress_at = P_trigger, late_calls = []\<rparr>" .
    from ending_run [OF t, of 0 0 P_in_trigger "Some Call_trigger"]
    have "\<exists>u. reach (ending_start c) (ending_step env False) u \<and> late_calls u = [Call_trigger]"
      by (force simp: progress_step_def)
    moreover from ending_destroys [OF progress_reaches(2) [OF c(1)] c(2,3)]
    have "\<exists>u. reach (ending_start c) (ending_step env False) u \<and> destroyed u \<and> progress_at u = P_in_progress"
      by force
    ultimately show ?thesis by blast
  qed
  have join: "\<exists>u. (ending_step env joins)\<^sup>*\<^sup>* s u \<and> destroyed u" if joins "end_pc s = Sd_flagged"
    using ending_joins [of env c s] ok that by simp
  have "(end_pc s = Sd_returned \<longrightarrow> hvac_shutdown_comm env c = Inr (end_comm s)) \<and>
      (end_pc s = Sd_aborted \<longrightarrow> hvac_shutdown_comm env c = Inl Assert_failed) \<and> length (late_calls s) \<le> 1 \<and>
      (joins \<longrightarrow> destroyed s \<longrightarrow> progress_at s = P_return \<and> late_calls s = [])"
    using ok by (auto simp: ending_ok_def)
  with bad join show ?thesis by blast
qed

theorem shutdown_needs_join_witness:
  "(\<exists>s. reach (ending_start ex_comm) (ending_step ex_hg True) s \<and> end_pc s = Sd_flagged \<and>
      (\<exists>u. (ending_step ex_hg True)\<^sup>*\<^sup>* s u \<and> destroyed u)) \<and>
    (\<exists>u. reach (ending_start ex_comm) (ending_step ex_hg False) u \<and> late_calls u = [Call_trigger])"
proof -
  define s0 where "s0 = \<lparr>end_comm = ex_comm, end_pc = Sd_enter, destroyed = False, progress_at = P_outer, late_calls = []\<rparr>"
  have r: "reach (ending_start ex_comm) (ending_step ex_hg True) s0"
    by (rule reach_start) (simp add: ending_start_def s0_def)
  have "reach (ending_start ex_comm) (ending_step ex_hg True)
      (s0\<lparr>end_comm := (end_comm s0)\<lparr>shutdown_flags := True\<rparr>, end_pc := Sd_flagged\<rparr>)"
    using reach_step [OF r end_flag [of s0]] by (simp add: s0_def)
  from shutdown_needs_join [OF this] this show ?thesis by (fastforce simp: ex_hg_def)
qed

section \<open>The client library's start\<close>

text \<open>
  C37. What the constructor does, for every environment: with a process id of six digits or
  more it overruns the buffer for the log file's name (unless log4c did not start); otherwise
  it ends the process when the server count is not given, and else takes the count and the
  data directory from the environment and turns redirection on. Run again, it changes nothing.
\<close>

theorem client_init_outcomes:
  assumes "\<not> g_hvac_initialized p" and "0 \<le> sint (getpid e)"
  shows "if log4c_rc e = 0 \<and> 100000 \<le> sint (getpid e) then hvac_client_init e p = Inl Undefined_behaviour
    else (case getenv e ''HVAC_SERVER_COUNT'' of
      None \<Rightarrow> hvac_client_init e p = Inl (Exit_process (-1))
    | Some n \<Rightarrow> \<exists>p'. hvac_client_init e p = Inr p' \<and> hvac_client_init e p' = Inr p' \<and>
        g_hvac_server_count p' = atoi n \<and> \<not> g_disable_redirect p' \<and> fd_map p' = fd_map p \<and>
        hvac_data_dir p' = (case getenv e ''HVAC_DATA_DIR'' of None \<Rightarrow> hvac_data_dir p | Some d \<Rightarrow> Some d))"
proof (cases "log4c_rc e = 0 \<and> 100000 \<le> sint (getpid e)")
  case True
  then show ?thesis
    using prefix_and_pid_fits [OF assms(2)] assms(1)
    by (simp add: hvac_client_init_def hvac_init_logging_def Let_def)
next
  case False
  then obtain r where "hvac_init_logging HVAC_CLIENT (log4c_notice e) (log4c_rc e) (getenv e)
      (getpid e) = Inr r"
    using prefix_and_pid_fits [OF assms(2)]
    by (cases "log4c_rc e = 0") (simp_all add: hvac_init_logging_def Let_def)
  with assms(1) show ?thesis
    unfolding if_not_P [OF False] by (simp add: hvac_client_init_def Let_def split: option.split)
qed

theorem client_init_outcomes_witness:
  "(\<exists>p'. hvac_client_init ex_cenv (ex_client\<lparr>g_hvac_initialized := False, g_disable_redirect := True\<rparr>) = Inr p' \<and>
      g_hvac_server_count p' = atoi ''1'' \<and> \<not> g_disable_redirect p') \<and>
   hvac_client_init (ex_cenv\<lparr>getpid := 100000\<rparr>) (ex_client\<lparr>g_hvac_initialized := False\<rparr>)
     = Inl Undefined_behaviour"
  using client_init_outcomes [of "ex_client\<lparr>g_hvac_initialized := False, g_disable_redirect := True\<rparr>" ex_cenv]
    client_init_outcomes [of "ex_client\<lparr>g_hvac_initialized := False\<rparr>" "ex_cenv\<lparr>getpid := 100000\<rparr>"]
  by (auto simp: ex_getenv_def)

text \<open>
  C38. Two settings are not noticed by the library's constructor, which returns and leaves a
  library that redirects. They are noticed by the first open of a tracked file, which starts
  Mercury: a missing \<open>PMI_RANK\<close> ends the application with exit status 1, and with everything
  Mercury needs in place a server count of zero is a division by zero. The count is \<open>atoi\<close> of
  \<open>HVAC_SERVER_COUNT\<close>, which is zero for every text without a digit.
\<close>

theorem first_open_may_end_process:
  assumes "0 \<le> sint (getpid e)" and "sint (getpid e) < 100000" and "getenv e ''HVAC_SERVER_COUNT'' = Some n"
    and "\<not> redirect_off p" and "dlsym e ''open''"
    and "real_open e path flags (if flags AND O_CREAT \<noteq> 0 then md else 0) (os p) = (fd, w)" and "fd \<noteq> -1"
    and "readable_flags flags" and "in_data_dir e w (hvac_data_dir p) path c"
  shows "(\<exists>p0. hvac_client_init e (client_boot w0 ws) = Inr p0 \<and> \<not> redirect_off p0 \<and> \<not> g_mercury_init p0 \<and>
      g_hvac_server_count p0 = atoi n \<and> hvac_data_dir p0 = getenv e ''HVAC_DATA_DIR'') \<and>
    ((\<forall>ch \<in> set n. \<not> is_digit ch) \<longrightarrow> atoi n = 0) \<and>
    (\<not> g_mercury_init p \<and> getenv e ''PMI_RANK'' = None \<longrightarrow>
      wrap_open e path flags md p = Inl (Exit_process 1)) \<and>
    ((g_mercury_init p \<or> client_env_ok e) \<and> g_hvac_server_count p = 0 \<longrightarrow>
      wrap_open e path flags md p = Inl Undefined_behaviour)"
proof -
  have started: "wrap_open e path flags md q = Inl Undefined_behaviour"
    if "g_mercury_init q" "g_hvac_server_count q = 0" "\<not> redirect_off q" "os q = os p"
      "hvac_data_dir q = hvac_data_dir p" for q
    using assms(5-9) that track_decision_yes [of e "q\<lparr>os := w\<rparr>" path c fd]
    by (simp add: wrap_open_def MAP_OR_FAIL_def track_fd_def hvac_track_file_def readable_flags_def
        in_data_dir_def remote_open_def ensure_mercury_def host_of_def)
  have "wrap_open e path flags md p = Inl Undefined_behaviour"
    if "client_env_ok e" "\<not> g_mercury_init p" "g_hvac_server_count p = 0"
    using wrap_open_warm [OF that(1) assms(4,8,6,7,9)] started [of "warm e p"]
      ensure_mercury_warm(2) [OF that(1,2)] warm_frame [OF that(1), of p] warm_switches [OF that(1), of p]
      assms(4) that(3) by simp
  moreover have "wrap_open e path flags md p = Inl (Exit_process 1)"
    if "\<not> g_mercury_init p" "getenv e ''PMI_RANK'' = None"
    using assms(4-9) that track_decision_yes [of e "p\<lparr>os := w\<rparr>" path c fd]
    by (simp add: wrap_open_def MAP_OR_FAIL_def track_fd_def hvac_track_file_def readable_flags_def
        in_data_dir_def remote_open_def ensure_mercury_def hvac_init_comm_def)
  moreover have "\<exists>p0. hvac_client_init e (client_boot w0 ws) = Inr p0 \<and> \<not> redirect_off p0 \<and>
      \<not> g_mercury_init p0 \<and> g_hvac_server_count p0 = atoi n \<and> hvac_data_dir p0 = getenv e ''HVAC_DATA_DIR''"
    using client_init_starts [OF assms(1-3), of w0 ws] by (simp add: redirect_off_def client_boot_def)
  ultimately show ?thesis using started [of p] assms(4) atoi_no_digit [of n] by blast
qed

theorem first_open_may_end_process_witness:
  "\<exists>p0 p1. hvac_client_init (ex_cenv\<lparr>getenv := ex_getenv(''HVAC_SERVER_COUNT'' \<mapsto> ''two'')\<rparr>) (client_boot () (\<lambda>_. None))
      = Inr p0 \<and>
    wrap_open (ex_cenv\<lparr>getenv := ex_getenv(''HVAC_SERVER_COUNT'' \<mapsto> ''two'')\<rparr>) ex_path O_RDONLY 0 p0
      = Inl Undefined_behaviour \<and>
    hvac_client_init (ex_cenv\<lparr>getenv := ex_getenv(''PMI_RANK'' := None)\<rparr>) (client_boot () (\<lambda>_. None)) = Inr p1 \<and>
    wrap_open (ex_cenv\<lparr>getenv := ex_getenv(''PMI_RANK'' := None)\<rparr>) ex_path O_RDONLY 0 p1 = Inl (Exit_process 1)"
proof -
  let ?e = "ex_cenv\<lparr>getenv := ex_getenv(''HVAC_SERVER_COUNT'' \<mapsto> ''two'')\<rparr>"
    and ?f = "ex_cenv\<lparr>getenv := ex_getenv(''PMI_RANK'' := None)\<rparr>"
  have dir: "in_data_dir ?e () (Some ''/d'') ex_path ex_path" "in_data_dir ?f () (Some ''/d'') ex_path ex_path"
    using ex_in_data_dir by (simp_all add: in_data_dir_def)
  have "hg_thread_create ex_hg" by (simp add: ex_hg_def)
  then have env: "client_env_ok ?e" by (simp add: client_env_ok_def ex_ids ex_getenv_def)
  have two: "\<forall>ch \<in> set ''two''. \<not> is_digit ch" by code_simp
  have flags: "readable_flags O_RDONLY" by (simp add: readable_flags_def open_flag_defs)
  have vars: "getenv ?e ''HVAC_SERVER_COUNT'' = Some ''two''" "getenv ?f ''HVAC_SERVER_COUNT'' = Some ''1''"
    "getenv ?f ''PMI_RANK'' = None" "getenv ?e ''HVAC_DATA_DIR'' = Some ''/d''"
    "getenv ?f ''HVAC_DATA_DIR'' = Some ''/d''" by (simp_all add: ex_getenv_def)
  note e = first_open_may_end_process [of ?e, OF _ _ vars(1) _ _ _ _ flags, where fd = 5 and w = "()" and
      path = ex_path and c = ex_path and md = 0 and ?w0.0 = "()" and ws = "\<lambda>_. None"]
  note f = first_open_may_end_process [of ?f, OF _ _ vars(2) _ _ _ _ flags, where fd = 5 and w = "()" and
      path = ex_path and c = ex_path and md = 0 and ?w0.0 = "()" and ws = "\<lambda>_. None"]
  obtain p0 where p0: "hvac_client_init ?e (client_boot () (\<lambda>_. None)) = Inr p0" "\<not> redirect_off p0"
    "g_hvac_server_count p0 = 0" "hvac_data_dir p0 = Some ''/d''"
    using e [of ex_client] two dir(1) vars(4) by (auto simp: redirect_off_def)
  obtain p1 where p1: "hvac_client_init ?f (client_boot () (\<lambda>_. None)) = Inr p1" "\<not> redirect_off p1"
    "\<not> g_mercury_init p1" "hvac_data_dir p1 = Some ''/d''"
    using f [of ex_client] dir(2) vars(5) by (auto simp: redirect_off_def)
  have "wrap_open ?e ex_path O_RDONLY 0 p0 = Inl Undefined_behaviour"
    using e [of p0] p0 env dir(1) by simp
  moreover have "wrap_open ?f ex_path O_RDONLY 0 p1 = Inl (Exit_process 1)"
    using f [of p1] p1 dir(2) vars(3) by simp
  ultimately show ?thesis using p0(1) p1(1) by blast
qed

text \<open>
  C39. The test for a running Mercury is not guarded: two threads that open their first files at
  the same time both find it clear, initialise Mercury twice and leave two progress threads.
  With a guard, whoever is past the block finds the state that one initialisation gives.
\<close>

theorem first_open_needs_guard:
  assumes "getenv e ''PMI_RANK'' = Some rank" and "hg_thread_create (hgenv e)" and "hg_disable_response (hgenv e)"
    and "\<not> g_mercury_init p" and "t \<noteq> u"
  shows "(\<forall>s v. reach (begin_start p) (begin_step e True) s \<longrightarrow> begin_pcs s v = Bg_past \<longrightarrow>
      ensure_mercury e p = Inr (begin_proc s) \<and> progress_threads (begin_proc s) = progress_threads p + 1) \<and>
    (\<exists>s. reach (begin_start p) (begin_step e False) s \<and> begin_pcs s t = Bg_past \<and> begin_pcs s u = Bg_past \<and>
      progress_threads (begin_proc s) = progress_threads p + 2)"
proof (rule conjI [OF _ begin_twice [OF assms]], intro allI impI)
  fix s v
  assume "reach (begin_start p) (begin_step e True) s" and v: "begin_pcs s v = Bg_past"
  then have "begin_ok e p s" by (intro beginning.reach_inv)
  with v have "ensure_mercury e p = Inr (begin_proc s)" by (auto simp: begin_ok_def)
  with ensure_mercury_one_thread [OF assms(1-4)]
  show "ensure_mercury e p = Inr (begin_proc s) \<and> progress_threads (begin_proc s) = progress_threads p + 1" by auto
qed

theorem first_open_needs_guard_witness:
  "\<exists>s. reach (begin_start (client_boot () (\<lambda>_. None))) (begin_step ex_cenv False) s \<and>
    begin_pcs s 0 = Bg_past \<and> begin_pcs s 1 = Bg_past \<and> progress_threads (begin_proc s) = 2"
proof -
  let ?p = "client_boot () (\<lambda>_. None) :: (unit, cluster) proc"
  have "getenv ex_cenv ''PMI_RANK'' = Some ''0''" "hg_thread_create (hgenv ex_cenv)"
    "hg_disable_response (hgenv ex_cenv)"
    by (simp_all add: ex_getenv_def ex_hg_def)
  moreover have "\<not> g_mercury_init ?p" "progress_threads ?p = 0" by (simp_all add: client_boot_def)
  ultimately show ?thesis using first_open_needs_guard [of ex_cenv "''0''" ?p 0 1] by auto
qed

section \<open>What is left to the system\<close>

text \<open>
  C40. On a descriptor that is not tracked every wrapper is the function it wraps: same
  arguments, same result, an error of \<open>close\<close> included, and nothing but the system's own state
  changes, whether redirection is on or off. The result of \<open>read\<close> passes through an \<open>int\<close> and so must
  be one. \<open>readv\<close>, \<open>read64\<close> and \<open>write\<close> are
  left to the system on tracked descriptors too, whose remote position and bytes they do not
  move: what \<open>readv\<close> has read locally, the next \<open>read\<close> reads again from the server.
\<close>

theorem calls_left_to_system:
  fixes e :: "('o, string, cluster) cenv" and dt :: i64 and lf :: bool
  defines "E \<equiv> deployed e dt lf"
  assumes "\<And>f. dlsym E f"
    and "real_read E fd buf n (os p) = (r, buf', w)" and "- (2 ^ 31) \<le> sint r" and "sint r < 2 ^ 31"
    and "real_pread E fd buf n off (os p) = (rp, bufp, wp)"
    and "real_lseek E fd off wh (os p) = (rs, ws)" and "real_lseek64 E fd off wh (os p) = (rt, wt)"
    and "real_close E fd (os p) = (rc, wc)" and "real_readv E fd iov (os p) = (rv, iov', wv)"
    and "real_read64 E fd buf n (os p) = (r1, buf1, w1)" and "real_write E fd buf n (os p) = (r2, w2)"
  shows "(fd_map p fd = None \<longrightarrow> wrap_read E fd buf n p = Inr (r, buf', p\<lparr>os := w\<rparr>) \<and>
      wrap_pread E fd buf n off p = Inr (rp, bufp, p\<lparr>os := wp\<rparr>) \<and>
      wrap_lseek E fd off wh p = Inr (rs, p\<lparr>os := ws\<rparr>) \<and>
      wrap_lseek64 E fd off wh p = Inr (rt, p\<lparr>os := wt\<rparr>) \<and>
      wrap_close E fd p = Inr (rc, p\<lparr>os := wc\<rparr>)) \<and>
    (\<exists>p1 p2 p3. wrap_readv E fd iov p = Inr (rv, iov', p1) \<and> os p1 = wv \<and>
      wrap_read64 E fd buf n p = Inr (r1, buf1, p2) \<and> os p2 = w1 \<and>
      wrap_write E fd buf n p = Inr (r2, p3) \<and> os p3 = w2 \<and>
      (\<forall>q \<in> {p1, p2, p3}. \<forall>fd' v. tracked_view E p fd' = Some v \<longrightarrow> tracked_view E q fd' = Some v))"
proof -
  have same: "\<forall>fd' v. tracked_view E p fd' = Some v \<longrightarrow> tracked_view E (p\<lparr>os := x\<rparr>) fd' = Some v \<and>
      tracked_view E ((l4c p)\<lparr>os := x\<rparr>) fd' = Some v" for x
    using remote_view_SomeD unfolding E_def by fastforce
  have "wrap_readv E fd iov p = Inr (rv, iov', (if fd_map p fd = None then p else l4c p)\<lparr>os := wv\<rparr>)"
    "wrap_read64 E fd buf n p = Inr (r1, buf1, (if fd_map p fd = None then p else l4c p)\<lparr>os := w1\<rparr>)"
    "wrap_write E fd buf n p = Inr (r2, p\<lparr>os := w2\<rparr>)"
    using assms(2,10-12)
    by (auto simp: wrap_readv_def wrap_read64_def wrap_write_def MAP_OR_FAIL_def hvac_get_path_def Let_def
        split: option.split)
  moreover have "wrap_read E fd buf n p = Inr (r, buf', p\<lparr>os := w\<rparr>) \<and>
      wrap_pread E fd buf n off p = Inr (rp, bufp, p\<lparr>os := wp\<rparr>) \<and>
      wrap_lseek E fd off wh p = Inr (rs, p\<lparr>os := ws\<rparr>) \<and>
      wrap_lseek64 E fd off wh p = Inr (rt, p\<lparr>os := wt\<rparr>) \<and>
      wrap_close E fd p = Inr (rc, p\<lparr>os := wc\<rparr>)" if "fd_map p fd = None"
    using assms(2-9) that to_i64_to_int [OF assms(4,5)]
    by (simp add: wrap_read_def wrap_pread_def wrap_lseek_def wrap_lseek64_def wrap_close_def
        MAP_OR_FAIL_def hvac_get_path_def hvac_file_tracked_def map_has_def redirect_off_def l4c_def)
  ultimately show ?thesis using same by (cases "fd_map p fd") auto
qed

theorem calls_left_to_system_witness:
  "wrap_read ex_env 9 None 4 ex_opened = Inr (0, None, ex_opened) \<and>
    wrap_close (deployed (ex_cenv\<lparr>real_close := \<lambda>_ w. (-1, w)\<rparr>) 1 True) 9 ex_opened = Inr (-1, ex_opened) \<and>
    (\<exists>p1. wrap_readv ex_env 5 [Some [0]] ex_opened = Inr (0, [Some [0]], p1) \<and>
      tracked_view ex_env p1 5 = Some (ex_bytes, 0))"
proof -
  have free: "fd_map ex_opened 9 = None" using ex_opened_facts by simp
  have "wrap_close (deployed (ex_cenv\<lparr>real_close := \<lambda>_ w. (-1, w)\<rparr>) 1 True) 9 ex_opened = Inr (-1, ex_opened)"
    using calls_left_to_system [of "ex_cenv\<lparr>real_close := \<lambda>_ w. (-1, w)\<rparr>" 1 True 9 None 4 ex_opened 0 None "()" 0 0
      None "()" SEEK_SET 0 "()" 0 "()" "-1" "()" "[Some [0]]" 0 "[Some [0]]" "()" 0 None "()" 4 "()"] free
    by (simp add: deployed_def ex_cenv_def)
  with free show ?thesis
  using calls_left_to_system [of ex_cenv 1 True 9 None 4 ex_opened 0 None "()" 0 0 None "()" SEEK_SET 0 "()" 0 "()" 0 "()"
     "[Some [0]]" 0 "[Some [0]]" "()" 0 None "()" 4 "()"]
   calls_left_to_system [of ex_cenv 1 True 5 None 4 ex_opened 0 None "()" 0 0 None "()" SEEK_SET 0 "()" 0 "()" 0 "()"
     "[Some [0]]" 0 "[Some [0]]" "()" 0 None "()" 4 "()"] ex_opened_facts
  by (auto simp: deployed_def ex_cenv_def)
qed

end
